(* ===== verification/Ckb_Prelude.thy ===== *)
theory Ckb_Prelude
  imports Complex_Main "HOL-Library.Word"
begin

text \<open>
  Shared vocabulary of the development: the machine integers of the Rust code, the outcome
  of a computation (a value, an error, or a panic), the integer operations with Rust's
  overflow behaviour, the iterator adaptors the components use (\<open>try_fold\<close>, the
  \<open>all(|x| seen.insert(x))\<close> idiom), little-endian integer codecs, and the generic lemmas
  on all of them.

  The workspace is built with \<open>overflow-checks = true\<close> (\<open>src/Cargo.toml\<close>), so the
  plain operators on machine integers panic on overflow: they are the operations
  \<open>p_add\<close>, \<open>p_sub\<close>, \<open>p_mul\<close>, \<open>p_div\<close>, \<open>p_mod\<close> below.
\<close>

named_theorems outcome_simps "evaluation of outcomes"
named_theorems checked_simps "characterisations of the checked integer operations"
named_theorems panic_simps "characterisations of the operators that panic on overflow"

declare of_nat_unat [simp del]

section \<open>Machine types\<close>

type_synonym u8 = "8 word"
type_synonym u32 = "32 word"
type_synonym u64 = "64 word"
type_synonym u128 = "128 word"
type_synonym u256 = "256 word"
type_synonym bytes = "u8 list"
type_synonym byte32 = "u8 list"

section \<open>Outcomes\<close>

text \<open>
  A Rust computation of type \<open>Result<T, E>\<close> returns \<open>Ok\<close> or \<open>Err\<close>, or panics
  (\<open>expect\<close> on \<open>None\<close>, an arithmetic overflow, an index out of range).
\<close>

datatype ('a, 'e) outcome = Ok 'a | Err 'e | Panic

text \<open>The \<open>?\<close> operator followed by the rest of the function.\<close>

fun tryq :: "('a, 'e) outcome \<Rightarrow> ('a \<Rightarrow> ('b, 'e) outcome) \<Rightarrow> ('b, 'e) outcome" where
  "tryq (Ok x) f = f x"
| "tryq (Err e) f = Err e"
| "tryq Panic f = Panic"

fun map_err :: "('e \<Rightarrow> 'f) \<Rightarrow> ('a, 'e) outcome \<Rightarrow> ('a, 'f) outcome" where
  "map_err g (Ok x) = Ok x"
| "map_err g (Err e) = Err (g e)"
| "map_err g Panic = Panic"

fun map_ok :: "('a \<Rightarrow> 'b) \<Rightarrow> ('a, 'e) outcome \<Rightarrow> ('b, 'e) outcome" where
  "map_ok g (Ok x) = Ok (g x)"
| "map_ok g (Err e) = Err e"
| "map_ok g Panic = Panic"

fun ok_or :: "'e \<Rightarrow> 'a option \<Rightarrow> ('a, 'e) outcome" where
  "ok_or e (Some x) = Ok x"
| "ok_or e None = Err e"

fun expect :: "'a option \<Rightarrow> ('a, 'e) outcome" where
  "expect (Some x) = Ok x"
| "expect None = Panic"

definition ensure :: "bool \<Rightarrow> 'e \<Rightarrow> (unit, 'e) outcome" where
  "ensure b e = (if b then Ok () else Err e)"

fun is_ok :: "('a, 'e) outcome \<Rightarrow> bool" where
  "is_ok (Ok x) = True"
| "is_ok (Err e) = False"
| "is_ok Panic = False"

lemma tryq_eq_Ok [outcome_simps]: "tryq m f = Ok y \<longleftrightarrow> (\<exists>x. m = Ok x \<and> f x = Ok y)"
  by (cases m) auto

lemma tryq_eq_Err [outcome_simps]:
  "tryq m f = Err e \<longleftrightarrow> m = Err e \<or> (\<exists>x. m = Ok x \<and> f x = Err e)"
  by (cases m) auto

lemma tryq_eq_Panic [outcome_simps]:
  "tryq m f = Panic \<longleftrightarrow> m = Panic \<or> (\<exists>x. m = Ok x \<and> f x = Panic)"
  by (cases m) auto

lemma map_err_eq_Ok [outcome_simps]: "map_err g m = Ok x \<longleftrightarrow> m = Ok x"
  by (cases m) auto

lemma map_err_eq_Err [outcome_simps]: "map_err g m = Err e \<longleftrightarrow> (\<exists>d. m = Err d \<and> e = g d)"
  by (cases m) auto

lemma map_err_eq_Panic [outcome_simps]: "map_err g m = Panic \<longleftrightarrow> m = Panic"
  by (cases m) auto

lemma map_ok_eq_Ok [outcome_simps]: "map_ok g m = Ok y \<longleftrightarrow> (\<exists>x. m = Ok x \<and> y = g x)"
  by (cases m) auto

lemma map_ok_eq_Panic [outcome_simps]: "map_ok g m = Panic \<longleftrightarrow> m = Panic"
  by (cases m) auto

lemma ok_or_eq_Ok [outcome_simps]: "ok_or e m = Ok x \<longleftrightarrow> m = Some x"
  by (cases m) auto

lemma ok_or_eq_Err [outcome_simps]: "ok_or e m = Err d \<longleftrightarrow> m = None \<and> d = e"
  by (cases m) auto

lemma ok_or_not_Panic [outcome_simps]: "ok_or e m \<noteq> Panic"
  by (cases m) auto

lemma expect_eq_Ok [outcome_simps]: "expect m = Ok x \<longleftrightarrow> m = Some x"
  by (cases m) auto

lemma expect_eq_Panic [outcome_simps]: "expect m = Panic \<longleftrightarrow> m = None"
  by (cases m) auto

lemma expect_not_Err [outcome_simps]: "expect m \<noteq> Err e"
  by (cases m) auto

lemma ensure_eq_Ok [outcome_simps]: "ensure b e = Ok u \<longleftrightarrow> b"
  by (simp add: ensure_def)

lemma ensure_eq_Err [outcome_simps]: "ensure b e = Err d \<longleftrightarrow> \<not> b \<and> d = e"
  by (auto simp: ensure_def)

lemma ensure_not_Panic [outcome_simps]: "ensure b e \<noteq> Panic"
  by (simp add: ensure_def)

lemma is_ok_iff [outcome_simps]: "is_ok m \<longleftrightarrow> (\<exists>x. m = Ok x)"
  by (cases m) auto

lemma if_Err_eq_Ok [outcome_simps]:
  "(if b then Err e else m) = Ok x \<longleftrightarrow> \<not> b \<and> m = Ok x"
  "(if b then m else Err e) = Ok x \<longleftrightarrow> b \<and> m = Ok x"
  by auto

lemma tryq_assoc: "tryq (tryq m f) g = tryq m (\<lambda>x. tryq (f x) g)"
  by (cases m) auto

section \<open>Integer operations\<close>

definition checked_add :: "'a::len word \<Rightarrow> 'a word \<Rightarrow> 'a word option" where
  "checked_add a b = (if unat a + unat b < 2 ^ LENGTH('a) then Some (a + b) else None)"

definition checked_sub :: "'a::len word \<Rightarrow> 'a word \<Rightarrow> 'a word option" where
  "checked_sub a b = (if b \<le> a then Some (a - b) else None)"

definition checked_mul :: "'a::len word \<Rightarrow> 'a word \<Rightarrow> 'a word option" where
  "checked_mul a b = (if unat a * unat b < 2 ^ LENGTH('a) then Some (a * b) else None)"

definition checked_div :: "'a::len word \<Rightarrow> 'a word \<Rightarrow> 'a word option" where
  "checked_div a b = (if b = 0 then None else Some (a div b))"

definition checked_rem :: "'a::len word \<Rightarrow> 'a word \<Rightarrow> 'a word option" where
  "checked_rem a b = (if b = 0 then None else Some (a mod b))"

definition saturating_sub :: "'a::len word \<Rightarrow> 'a word \<Rightarrow> 'a word" where
  "saturating_sub a b = (if b \<le> a then a - b else 0)"

text \<open>The plain operators: they panic where the checked ones return \<open>None\<close>.\<close>

definition p_add :: "'a::len word \<Rightarrow> 'a word \<Rightarrow> ('a word, 'e) outcome" where
  "p_add a b = expect (checked_add a b)"

definition p_sub :: "'a::len word \<Rightarrow> 'a word \<Rightarrow> ('a word, 'e) outcome" where
  "p_sub a b = expect (checked_sub a b)"

definition p_mul :: "'a::len word \<Rightarrow> 'a word \<Rightarrow> ('a word, 'e) outcome" where
  "p_mul a b = expect (checked_mul a b)"

definition p_div :: "'a::len word \<Rightarrow> 'a word \<Rightarrow> ('a word, 'e) outcome" where
  "p_div a b = expect (checked_div a b)"

definition p_mod :: "'a::len word \<Rightarrow> 'a word \<Rightarrow> ('a word, 'e) outcome" where
  "p_mod a b = expect (checked_rem a b)"

lemma unat_add_exact:
  "unat a + unat b < 2 ^ LENGTH('a) \<Longrightarrow> unat (a + b) = unat a + unat (b :: 'a::len word)"
  by (simp add: unat_word_ariths)

lemma unat_mul_exact:
  "unat a * unat b < 2 ^ LENGTH('a) \<Longrightarrow> unat (a * b) = unat a * unat (b :: 'a::len word)"
  by (simp add: unat_word_ariths)

lemma unat_sub_exact: "b \<le> a \<Longrightarrow> unat (a - b) = unat a - unat (b :: 'a::len word)"
  by (simp add: unat_sub)

lemma word_of_unat [simp]: "of_nat (unat w) = (w :: 'a::len word)"
  by (simp add: of_nat_unat)

lemma unat_eqI: "unat a = unat b \<Longrightarrow> a = (b :: 'a::len word)"
  by (simp add: unsigned_word_eqI)

lemma unat_bound: "unat (a :: 'a::len word) < 2 ^ LENGTH('a)"
  by (rule unsigned_less)

lemma checked_add_eq_Some [checked_simps]:
  "checked_add a b = Some c \<longleftrightarrow>
     unat a + unat b < 2 ^ LENGTH('a) \<and> unat c = unat a + unat (b :: 'a::len word)"
  by (auto simp: checked_add_def unat_add_exact intro!: unat_eqI)

lemma checked_add_eq_None [checked_simps]:
  "checked_add a b = None \<longleftrightarrow> 2 ^ LENGTH('a) \<le> unat a + unat (b :: 'a::len word)"
  by (auto simp: checked_add_def)

lemma checked_sub_eq_Some [checked_simps]:
  "checked_sub a b = Some c \<longleftrightarrow> b \<le> a \<and> unat c + unat b = unat (a :: 'a::len word)"
  by (auto simp: checked_sub_def unat_sub_exact word_le_nat_alt intro!: unat_eqI)

lemma checked_sub_eq_None [checked_simps]:
  "checked_sub a b = None \<longleftrightarrow> a < (b :: 'a::len word)"
  by (auto simp: checked_sub_def)

lemma checked_mul_eq_Some [checked_simps]:
  "checked_mul a b = Some c \<longleftrightarrow>
     unat a * unat b < 2 ^ LENGTH('a) \<and> unat c = unat a * unat (b :: 'a::len word)"
  by (auto simp: checked_mul_def unat_mul_exact intro!: unat_eqI)

lemma checked_mul_eq_None [checked_simps]:
  "checked_mul a b = None \<longleftrightarrow> 2 ^ LENGTH('a) \<le> unat a * unat (b :: 'a::len word)"
  by (auto simp: checked_mul_def)

lemma checked_div_eq_Some [checked_simps]:
  "checked_div a b = Some c \<longleftrightarrow> b \<noteq> 0 \<and> unat c = unat a div unat (b :: 'a::len word)"
  by (auto simp: checked_div_def unat_div intro!: unat_eqI)

lemma checked_div_eq_None [checked_simps]: "checked_div a b = None \<longleftrightarrow> b = 0"
  by (auto simp: checked_div_def)

lemma checked_rem_eq_Some [checked_simps]:
  "checked_rem a b = Some c \<longleftrightarrow> b \<noteq> 0 \<and> unat c = unat a mod unat (b :: 'a::len word)"
  by (auto simp: checked_rem_def unat_mod intro!: unat_eqI)

lemma checked_rem_eq_None [checked_simps]: "checked_rem a b = None \<longleftrightarrow> b = 0"
  by (auto simp: checked_rem_def)

lemmas p_ops_defs = p_add_def p_sub_def p_mul_def p_div_def p_mod_def

lemma p_add_eq_Ok [panic_simps]:
  "p_add a b = Ok c \<longleftrightarrow> unat a + unat b < 2 ^ LENGTH('a) \<and> unat c = unat a + unat (b :: 'a::len word)"
  by (simp add: p_ops_defs outcome_simps checked_simps)

lemma p_sub_eq_Ok [panic_simps]:
  "p_sub a b = Ok c \<longleftrightarrow> b \<le> a \<and> unat c + unat b = unat (a :: 'a::len word)"
  by (simp add: p_ops_defs outcome_simps checked_simps)

lemma p_mul_eq_Ok [panic_simps]:
  "p_mul a b = Ok c \<longleftrightarrow> unat a * unat b < 2 ^ LENGTH('a) \<and> unat c = unat a * unat (b :: 'a::len word)"
  by (simp add: p_ops_defs outcome_simps checked_simps)

lemma p_div_eq_Ok [panic_simps]:
  "p_div a b = Ok c \<longleftrightarrow> b \<noteq> 0 \<and> unat c = unat a div unat (b :: 'a::len word)"
  by (simp add: p_ops_defs outcome_simps checked_simps)

lemma p_mod_eq_Ok [panic_simps]:
  "p_mod a b = Ok c \<longleftrightarrow> b \<noteq> 0 \<and> unat c = unat a mod unat (b :: 'a::len word)"
  by (simp add: p_ops_defs outcome_simps checked_simps)

lemma p_ops_eq_Panic [panic_simps]:
  "p_add a b = Panic \<longleftrightarrow> 2 ^ LENGTH('a) \<le> unat a + unat (b :: 'a::len word)"
  "p_sub a b = Panic \<longleftrightarrow> a < b"
  "p_mul a b = Panic \<longleftrightarrow> 2 ^ LENGTH('a) \<le> unat a * unat b"
  "p_div a b = Panic \<longleftrightarrow> b = 0" "p_mod a b = Panic \<longleftrightarrow> b = 0"
  by (simp_all add: p_ops_defs outcome_simps checked_simps)

lemma p_ops_not_Err [panic_simps]:
  "p_add a b \<noteq> Err e" "p_sub a b \<noteq> Err e" "p_mul a b \<noteq> Err e" "p_div a b \<noteq> Err e" "p_mod a b \<noteq> Err e"
  by (simp_all add: p_ops_defs outcome_simps)

lemma unat_saturating_sub [simp]:
  "unat (saturating_sub a b) = unat a - unat (b :: 'a::len word)"
  by (simp add: saturating_sub_def unat_sub_exact word_le_nat_alt)

lemma unat_drop_bit: "unat (drop_bit n (w :: 'a::len word)) = unat w div 2 ^ n"
proof -
  have "unat (drop_bit n w) = drop_bit n (take_bit LENGTH('a) (unat w))"
    by (rule unsigned_drop_bit_eq)
  then show ?thesis by (simp add: take_bit_nat_eq_self unat_bound drop_bit_eq_div)
qed

lemma unat_push_bit:
  assumes "unat w * 2 ^ n < 2 ^ LENGTH('a)"
  shows "unat (push_bit n (w :: 'a::len word)) = unat w * 2 ^ n"
  using assms unfolding unsigned_push_bit_eq
  by (simp add: push_bit_eq_mult take_bit_nat_eq_self)

lemma unat_and_mask: "unat (and w (mask n)) = unat (w :: 'a::len word) mod 2 ^ n"
  by (metis take_bit_eq_mask unsigned_take_bit_eq take_bit_eq_mod)
lemma or_push_bit_add:
  assumes "unat c < 2 ^ k"
  shows "or c (push_bit k d) = c + push_bit k (d :: 'a::len word)"
proof -
  have "take_bit k c = c"
    using assms by (intro unat_eqI) (simp add: unsigned_take_bit_eq take_bit_nat_eq_self)
  then have "\<not> bit c n" if "k \<le> n" for n
    using that by (metis bit_take_bit_iff not_less)
  then show ?thesis by (intro disjunctive_add [symmetric]) (auto simp: bit_push_bit_iff not_le)
qed

section \<open>Iterators\<close>

fun try_fold :: "('b \<Rightarrow> 'a \<Rightarrow> ('b, 'e) outcome) \<Rightarrow> 'b \<Rightarrow> 'a list \<Rightarrow> ('b, 'e) outcome" where
  "try_fold f acc [] = Ok acc"
| "try_fold f acc (x # xs) = tryq (f acc x) (\<lambda>acc'. try_fold f acc' xs)"

text \<open>\<open>iter.try_for_each(f)\<close>, and the \<open>for x in xs { f(x)?; }\<close> loop.\<close>

fun try_for_each :: "('a \<Rightarrow> (unit, 'e) outcome) \<Rightarrow> 'a list \<Rightarrow> (unit, 'e) outcome" where
  "try_for_each f [] = Ok ()"
| "try_for_each f (x # xs) = tryq (f x) (\<lambda>_. try_for_each f xs)"

text \<open>\<open>iter.map(f).collect::<Result<Vec<_>, _>>()\<close>.\<close>

fun try_map :: "('a \<Rightarrow> ('b, 'e) outcome) \<Rightarrow> 'a list \<Rightarrow> ('b list, 'e) outcome" where
  "try_map f [] = Ok []"
| "try_map f (x # xs) = tryq (f x) (\<lambda>y. tryq (try_map f xs) (\<lambda>ys. Ok (y # ys)))"

text \<open>
  \<open>iter.all(|x| seen.insert(x))\<close>: \<open>HashSet::insert\<close> returns whether the element is
  new, and \<open>all\<close> stops at the first \<open>false\<close>.
\<close>

fun all_insert :: "'a set \<Rightarrow> 'a list \<Rightarrow> bool" where
  "all_insert seen [] = True"
| "all_insert seen (x # xs) = (x \<notin> seen \<and> all_insert (insert x seen) xs)"

text \<open>\<open>Vec::get\<close>: \<open>None\<close> out of range.\<close>

definition vec_get :: "'a list \<Rightarrow> nat \<Rightarrow> 'a option" where
  "vec_get xs i = (if i < length xs then Some (xs ! i) else None)"

text \<open>\<open>Iterator::any\<close> with a predicate that can fail.\<close>

fun try_any :: "('a \<Rightarrow> (bool, 'e) outcome) \<Rightarrow> 'a list \<Rightarrow> (bool, 'e) outcome" where
  "try_any p [] = Ok False"
| "try_any p (x # xs) = tryq (p x) (\<lambda>b. if b then Ok True else try_any p xs)"

lemma vec_get_eq_Some [simp]: "vec_get xs i = Some x \<longleftrightarrow> i < length xs \<and> xs ! i = x"
  by (auto simp: vec_get_def)

lemma vec_get_eq_None [simp]: "vec_get xs i = None \<longleftrightarrow> length xs \<le> i"
  by (auto simp: vec_get_def)

lemma all_insert_iff: "all_insert seen xs \<longleftrightarrow> distinct xs \<and> set xs \<inter> seen = {}"
  by (induction xs arbitrary: seen) auto

lemma all_insert_distinct [simp]: "all_insert {} xs \<longleftrightarrow> distinct xs"
  by (simp add: all_insert_iff)

lemma try_for_each_eq_Ok [outcome_simps]:
  "try_for_each f xs = Ok u \<longleftrightarrow> (\<forall>x\<in>set xs. f x = Ok ())"
  by (induction xs) (auto simp: outcome_simps)

lemma try_for_each_Panic: "try_for_each f xs = Panic \<Longrightarrow> \<exists>x\<in>set xs. f x = Panic"
  by (induction xs) (auto simp: outcome_simps)

lemma try_for_each_Err: "try_for_each f xs = Err e \<Longrightarrow> \<exists>x\<in>set xs. f x = Err e"
  by (induction xs) (auto simp: tryq_eq_Err)

lemma try_fold_Err: "try_fold f a xs = Err e \<Longrightarrow> \<exists>x\<in>set xs. \<exists>a'. f a' x = Err e"
  by (induction xs arbitrary: a) (auto simp: tryq_eq_Err)

lemma try_map_eq_Ok: "try_map f xs = Ok ys \<longleftrightarrow> list_all2 (\<lambda>x y. f x = Ok y) xs ys"
  by (induction xs arbitrary: ys) (auto simp: outcome_simps list_all2_Cons1)

lemma try_map_length: "try_map f xs = Ok ys \<Longrightarrow> length ys = length xs"
  by (auto simp: try_map_eq_Ok dest: list_all2_lengthD)

lemma try_map_Panic: "try_map f xs = Panic \<Longrightarrow> \<exists>x\<in>set xs. f x = Panic"
  by (induction xs) (auto simp: outcome_simps)

lemma try_any_eq_False [outcome_simps]: "try_any p xs = Ok False \<longleftrightarrow> (\<forall>x\<in>set xs. p x = Ok False)"
  by (induction xs) (auto simp: tryq_eq_Ok)

lemma try_any_True: "try_any p xs = Ok True \<Longrightarrow> \<exists>x\<in>set xs. p x = Ok True"
  by (induction xs) (auto simp: tryq_eq_Ok split: if_splits)

lemma try_any_not_Err: "\<forall>x\<in>set xs. \<forall>e. p x \<noteq> Err e \<Longrightarrow> try_any p xs \<noteq> Err e"
  by (induction xs) (auto simp: tryq_eq_Err split: if_splits)

text \<open>A fold whose steps keep an invariant succeeds when the condition of every step holds.\<close>

lemma try_fold_invariant:
  assumes "\<And>c x. x \<in> set xs \<Longrightarrow> I c \<Longrightarrow> (\<exists>c'. f c x = Ok c') \<longleftrightarrow> P x"
    and "\<And>c x c'. x \<in> set xs \<Longrightarrow> I c \<Longrightarrow> f c x = Ok c' \<Longrightarrow> I c'" and "I c"
  shows "(\<exists>c'. try_fold f c xs = Ok c') \<longleftrightarrow> (\<forall>x\<in>set xs. P x)"
  using assms
proof (induction xs arbitrary: c)
  case (Cons x xs)
  show ?case
  proof (cases "f c x")
    case (Ok d)
    then have "P x" "I d" using Cons.prems(1) [of x c] Cons.prems(2) [of x c d] Cons.prems(3) by auto
    moreover have "(\<exists>c'. try_fold f d xs = Ok c') \<longleftrightarrow> (\<forall>x\<in>set xs. P x)"
      by (rule Cons.IH [OF Cons.prems(1) Cons.prems(2) \<open>I d\<close>]) simp_all
    ultimately show ?thesis using Ok by simp
  qed (use Cons.prems(1) [of x c] Cons.prems(3) in auto)
qed simp

lemma try_fold_append:
  "try_fold f acc (xs @ ys) = tryq (try_fold f acc xs) (\<lambda>acc'. try_fold f acc' ys)"
  by (induction xs arbitrary: acc) (auto simp: tryq_assoc)

lemma try_fold_cong [fundef_cong]:
  assumes "xs = ys" and "a = b" and "\<And>acc x. x \<in> set ys \<Longrightarrow> f acc x = g acc x"
  shows "try_fold f a xs = try_fold g b ys"
proof -
  have "(\<forall>acc. \<forall>x\<in>set zs. f acc x = g acc x) \<Longrightarrow> try_fold f c zs = try_fold g c zs" for c zs
  proof (induction zs arbitrary: c)
    case Nil
    then show ?case by simp
  next
    case (Cons z zs)
    then have "f c z = g c z" and "\<And>d. try_fold f d zs = try_fold g d zs"
      by simp_all
    then show ?case by simp
  qed
  then show ?thesis using assms by blast
qed

section \<open>Accumulating with a checked addition\<close>

text \<open>
  Several components sum a list with an addition that fails on overflow. The interface of
  such an addition: \<open>amount\<close> reads a value, \<open>cap\<close> bounds it, and the addition is
  exact below \<open>cap\<close> and fails above.
\<close>

locale checked_adder =
  fixes add :: "'a \<Rightarrow> 'a \<Rightarrow> ('a, 'e) outcome"
    and amount :: "'a \<Rightarrow> nat"
    and cap :: nat
  assumes add_Ok: "add a b = Ok c \<Longrightarrow> amount c = amount a + amount b"
    and add_fits: "amount a + amount b < cap \<Longrightarrow> \<exists>c. add a b = Ok c"
    and amount_cap: "amount a < cap"
begin

lemma try_fold_sum:
  "try_fold add z xs = Ok c \<Longrightarrow> amount c = amount z + sum_list (map amount xs)"
  by (induction xs arbitrary: z) (auto simp: outcome_simps dest!: add_Ok)

lemma try_fold_map_sum:
  "try_fold (\<lambda>acc x. tryq (f x) (add acc)) z xs = Ok c \<Longrightarrow>
   \<exists>ys. list_all2 (\<lambda>x y. f x = Ok y) xs ys \<and> amount c = amount z + sum_list (map amount ys)"
proof (induction xs arbitrary: z)
  case (Cons x xs)
  then obtain y z' where y: "f x = Ok y" "add z y = Ok z'" "try_fold (\<lambda>acc x. tryq (f x) (add acc)) z' xs = Ok c"
    by (auto simp: tryq_eq_Ok)
  obtain ys where "list_all2 (\<lambda>x y. f x = Ok y) xs ys" "amount c = amount z' + sum_list (map amount ys)"
    using Cons.IH [OF y(3)] by blast
  then have "list_all2 (\<lambda>x y. f x = Ok y) (x # xs) (y # ys) \<and> amount c = amount z + sum_list (map amount (y # ys))"
    using y add_Ok [OF y(2)] by simp
  then show ?case by blast
qed simp

lemma try_fold_fits:
  "amount z + sum_list (map amount xs) < cap \<Longrightarrow> \<exists>c. try_fold add z xs = Ok c"
proof (induction xs arbitrary: z)
  case Nil
  then show ?case by simp
next
  case (Cons x xs)
  then obtain c where c: "add z x = Ok c"
    using add_fits [of z x] by auto
  then have "amount c + sum_list (map amount xs) < cap"
    using Cons.prems add_Ok [OF c] by simp
  then show ?case using Cons.IH c by auto
qed

lemma try_fold_Ok_iff:
  "(\<exists>c. try_fold add z xs = Ok c) \<longleftrightarrow> amount z + sum_list (map amount xs) < cap"
proof
  assume "\<exists>c. try_fold add z xs = Ok c"
  then obtain c where "try_fold add z xs = Ok c" ..
  then show "amount z + sum_list (map amount xs) < cap"
    using try_fold_sum [of z xs c] amount_cap [of c] by simp
qed (rule try_fold_fits)

end

section \<open>Little-endian integers\<close>

text \<open>
  \<open>to_le_bytes\<close> and \<open>from_le_bytes\<close> of the integer types; \<open>LittleEndian::write_u64\<close> and
  \<open>LittleEndian::read_u64\<close> are the same functions at 64 bits.
\<close>

definition to_le_bytes :: "'a::len word \<Rightarrow> bytes" where
  "to_le_bytes x = map (\<lambda>i. ucast (drop_bit (8 * i) x)) [0..<LENGTH('a) div 8]"

fun from_le_bytes :: "bytes \<Rightarrow> 'a::len word" where
  "from_le_bytes [] = 0"
| "from_le_bytes (b # bs) = or (ucast b) (push_bit 8 (from_le_bytes bs))"

lemma length_to_le_bytes [simp]: "length (to_le_bytes (x :: 'a::len word)) = LENGTH('a) div 8"
  by (simp add: to_le_bytes_def)

lemma bit_from_le_bytes:
  "bit (from_le_bytes bs :: 'a::len word) n \<longleftrightarrow>
     n < LENGTH('a) \<and> n div 8 < length bs \<and> bit (bs ! (n div 8)) (n mod 8)"
proof (induction bs arbitrary: n)
  case Nil
  then show ?case by simp
next
  case (Cons b bs)
  show ?case
  proof (cases "n < 8")
    case True
    then show ?thesis by (auto simp: bit_or_iff bit_push_bit_iff bit_ucast_iff)
  next
    case False
    then have "n div 8 = Suc ((n - 8) div 8)" and "n mod 8 = (n - 8) mod 8"
      by (simp_all add: le_div_geq le_mod_geq)
    moreover have "\<not> bit (ucast b :: 'a word) n"
      using False by (auto simp: bit_ucast_iff dest: bit_imp_le_length)
    ultimately show ?thesis
      using False Cons.IH [of "n - 8"]
      by (auto simp: bit_or_iff bit_push_bit_iff dest: bit_imp_le_length)
  qed
qed

lemma from_to_le_bytes:
  assumes "8 dvd LENGTH('a)"
  shows "from_le_bytes (to_le_bytes x) = (x :: 'a::len word)"
proof (rule bit_eqI)
  fix n
  show "bit (from_le_bytes (to_le_bytes x) :: 'a word) n \<longleftrightarrow> bit x n"
  proof (cases "n < LENGTH('a)")
    case True
    then have "n div 8 < LENGTH('a) div 8" using assms by auto
    moreover from this have "bit (to_le_bytes x ! (n div 8)) (n mod 8) = bit x (8 * (n div 8) + n mod 8)"
      by (simp add: to_le_bytes_def bit_ucast_iff bit_drop_bit_eq)
    ultimately show ?thesis using True by (simp add: bit_from_le_bytes)
  next
    case False
    then show ?thesis by (auto simp: bit_from_le_bytes dest: bit_imp_le_length)
  qed
qed

lemma to_from_le_bytes:
  assumes "8 dvd LENGTH('a)" and len: "length bs = LENGTH('a) div 8"
  shows "to_le_bytes (from_le_bytes bs :: 'a::len word) = bs"
proof (rule nth_equalityI)
  fix i
  assume "i < length (to_le_bytes (from_le_bytes bs :: 'a word))"
  then have i: "i < LENGTH('a) div 8" by simp
  show "to_le_bytes (from_le_bytes bs :: 'a word) ! i = bs ! i"
  proof (rule bit_eqI)
    fix n
    show "bit (to_le_bytes (from_le_bytes bs :: 'a word) ! i) n \<longleftrightarrow> bit (bs ! i) n"
    proof (cases "n < 8")
      case True
      then have "(8 * i + n) div 8 = i" and "(8 * i + n) mod 8 = n" and "8 * i + n < LENGTH('a)"
        using i by auto
      then show ?thesis
        using i len True
        by (simp add: to_le_bytes_def bit_ucast_iff bit_drop_bit_eq bit_from_le_bytes)
    next
      case False
      then show ?thesis by (auto dest: bit_imp_le_length)
    qed
  qed
qed (simp add: len)

end
