(* ===== verification/Capacity_Units.thy ===== *)
theory Capacity_Units
  imports Ckb_Prelude
begin

text \<open>
  Capacities, the amounts of the ledger (\<open>util/occupied-capacity/core/src/units.rs\<close>). The
  newtype \<open>Capacity(u64)\<close> counts shannons and is represented by its \<open>u64\<close>; every
  arithmetic operation on it returns \<open>Err Overflow\<close> instead of wrapping.
\<close>

type_synonym capacity = u64

datatype ratio = Ratio (numer: u64) (denom: u64)

datatype capacity_error = Overflow

type_synonym 'a capacity_result = "('a, capacity_error) outcome"

definition BYTE_SHANNONS :: u64 where
  "BYTE_SHANNONS = 100000000"

definition capacity_bytes :: "nat \<Rightarrow> capacity capacity_result" where
  "capacity_bytes val = ok_or Overflow (checked_mul (of_nat val) BYTE_SHANNONS)"

definition safe_add :: "capacity \<Rightarrow> capacity \<Rightarrow> capacity capacity_result" where
  "safe_add a rhs = ok_or Overflow (checked_add a rhs)"

definition safe_sub :: "capacity \<Rightarrow> capacity \<Rightarrow> capacity capacity_result" where
  "safe_sub a rhs = ok_or Overflow (checked_sub a rhs)"

definition safe_mul :: "capacity \<Rightarrow> capacity \<Rightarrow> capacity capacity_result" where
  "safe_mul a rhs = ok_or Overflow (checked_mul a rhs)"

definition safe_mul_ratio :: "capacity \<Rightarrow> ratio \<Rightarrow> capacity capacity_result" where
  "safe_mul_ratio a r =
     ok_or Overflow (Option.bind (checked_mul a (numer r)) (\<lambda>ret. checked_div ret (denom r)))"

section \<open>Exactness\<close>

lemma safe_add_eq_Ok [checked_simps]:
  "safe_add a b = Ok c \<longleftrightarrow> unat a + unat b < 2 ^ 64 \<and> unat c = unat a + unat b"
  by (simp add: safe_add_def outcome_simps checked_simps)

lemma safe_add_eq_Err [checked_simps]: "safe_add a b = Err e \<longleftrightarrow> 2 ^ 64 \<le> unat a + unat b"
  by (cases e) (simp add: safe_add_def outcome_simps checked_simps)

lemma safe_sub_eq_Ok [checked_simps]:
  "safe_sub a b = Ok c \<longleftrightarrow> unat b \<le> unat a \<and> unat c = unat a - unat b"
  by (auto simp: safe_sub_def outcome_simps checked_simps word_le_nat_alt)

lemma safe_sub_eq_Err [checked_simps]: "safe_sub a b = Err e \<longleftrightarrow> unat a < unat b"
  by (cases e) (simp add: safe_sub_def outcome_simps checked_simps word_less_nat_alt)

lemma safe_mul_eq_Ok [checked_simps]:
  "safe_mul a b = Ok c \<longleftrightarrow> unat a * unat b < 2 ^ 64 \<and> unat c = unat a * unat b"
  by (simp add: safe_mul_def outcome_simps checked_simps)

lemma safe_mul_ratio_eq_Ok [checked_simps]:
  "safe_mul_ratio a r = Ok c \<longleftrightarrow>
     unat a * unat (numer r) < 2 ^ 64 \<and> denom r \<noteq> 0 \<and>
     unat c = unat a * unat (numer r) div unat (denom r)"
  by (auto simp: safe_mul_ratio_def outcome_simps bind_eq_Some_conv checked_simps
      unat_mul_exact intro!: exI [of _ "a * numer r"])

lemma capacity_bytes_eq_Ok [checked_simps]:
  "val < 2 ^ 64 \<Longrightarrow> capacity_bytes val = Ok c \<longleftrightarrow>
     val * 100000000 < 2 ^ 64 \<and> unat c = val * 100000000"
  by (simp add: capacity_bytes_def outcome_simps checked_simps BYTE_SHANNONS_def
      unat_of_nat take_bit_eq_mod)

lemma safe_ops_not_Panic [outcome_simps, simp]:
  "safe_add a b \<noteq> Panic" "safe_sub a b \<noteq> Panic" "safe_mul a b \<noteq> Panic"
  "safe_mul_ratio a r \<noteq> Panic" "capacity_bytes n \<noteq> Panic"
  by (simp_all add: safe_add_def safe_sub_def safe_mul_def safe_mul_ratio_def
      capacity_bytes_def outcome_simps)

text \<open>\<open>safe_add\<close> is a checked addition of the prelude, so its sums are exact.\<close>

interpretation cap: checked_adder safe_add unat "2 ^ 64"
proof
  fix a b c :: capacity
  show "safe_add a b = Ok c \<Longrightarrow> unat c = unat a + unat b"
    by (simp add: checked_simps)
  show "unat a + unat b < 2 ^ 64 \<Longrightarrow> \<exists>c. safe_add a b = Ok c"
    by (rule exI [of _ "a + b"]) (simp add: checked_simps unat_add_exact)
  show "unat a < 2 ^ 64"
    using unat_bound [of a] by simp
qed

end
