(* ===== verification/Rational_U256.thy ===== *)
theory Rational_U256
  imports Ckb_Prelude "HOL-Library.Monad_Syntax"
begin

text \<open>
  Rational numbers over 256-bit integers (\<open>util/rational/src/lib.rs\<close>).

  The integers are the \<open>U256\<close> and \<open>U512\<close> of the crate \<open>numext-fixed-uint\<close>, which is not
  part of the repository. Its operations are the fields of the record \<open>numext\<close>, a
  parameter of every definition that uses them: \<open>None\<close> stands for a panic. What the
  development relies on is the predicate \<open>numext_ok\<close>: an operation whose exact result is
  representable returns it. Nothing is assumed about an operation that overflows or divides
  by zero. A \<open>U256\<close> itself is a \<open>256 word\<close>: its equality, its order, its constants, its
  conversion from a \<open>u32\<close> or a \<open>u64\<close> and its lowest limb are those of the word. The instance \<open>numext_word\<close> (the exact result, a panic where there is none)
  satisfies the predicate.
\<close>

section \<open>The integers\<close>

type_synonym u512 = "512 word"

fun bit_length :: "nat \<Rightarrow> nat" where
  "bit_length n = (if n = 0 then 0 else Suc (bit_length (n div 2)))"

declare bit_length.simps [simp del]

record numext =
  nx_add :: "u256 \<Rightarrow> u256 \<Rightarrow> u256 option"
  nx_sub :: "u256 \<Rightarrow> u256 \<Rightarrow> u256 option"
  nx_mul :: "u256 \<Rightarrow> u256 \<Rightarrow> u256 option"
  nx_div :: "u256 \<Rightarrow> u256 \<Rightarrow> u256 option"
  nx_gcd :: "u256 \<Rightarrow> u256 \<Rightarrow> u256"
  nx_overflowing_sub :: "u256 \<Rightarrow> u256 \<Rightarrow> u256 \<times> bool"
  nx_leading_zeros :: "u256 \<Rightarrow> nat"
  nx_shl :: "u256 \<Rightarrow> nat \<Rightarrow> u256"
  nx_shr :: "u256 \<Rightarrow> nat \<Rightarrow> u256"
  nx_div512 :: "u512 \<Rightarrow> u512 \<Rightarrow> u512 option"
  nx_to_u512 :: "u256 \<Rightarrow> u512 \<times> bool"
  nx_to_u256 :: "u512 \<Rightarrow> u256 \<times> bool"

definition numext_ok :: "'z numext_scheme \<Rightarrow> bool" where
  "numext_ok N \<longleftrightarrow>
     (\<forall>a b. unat a + unat b < 2 ^ 256 \<longrightarrow> nx_add N a b = Some (a + b)) \<and>
     (\<forall>a b. b \<le> a \<longrightarrow> nx_sub N a b = Some (a - b)) \<and>
     (\<forall>a b. unat a * unat b < 2 ^ 256 \<longrightarrow> nx_mul N a b = Some (a * b)) \<and>
     (\<forall>a b. b \<noteq> 0 \<longrightarrow> nx_div N a b = Some (a div b)) \<and>
     (\<forall>a b. unat (nx_gcd N a b) = gcd (unat a) (unat b)) \<and>
     (\<forall>a b. nx_overflowing_sub N a b = (a - b, a < b)) \<and>
     (\<forall>a. nx_leading_zeros N a = 256 - bit_length (unat a)) \<and>
     (\<forall>a n. n < 256 \<longrightarrow> nx_shl N a n = push_bit n a) \<and>
     (\<forall>a n. n < 256 \<longrightarrow> nx_shr N a n = drop_bit n a) \<and>
     (\<forall>a b. b \<noteq> 0 \<longrightarrow> nx_div512 N a b = Some (a div b)) \<and>
     (\<forall>a. nx_to_u512 N a = (ucast a, False)) \<and>
     (\<forall>a. unat a < 2 ^ 256 \<longrightarrow> nx_to_u256 N a = (ucast a, False))"

definition numext_word :: numext where
  "numext_word = \<lparr>
     nx_add = checked_add, nx_sub = checked_sub, nx_mul = checked_mul, nx_div = checked_div,
     nx_gcd = (\<lambda>a b. of_nat (gcd (unat a) (unat b))),
     nx_overflowing_sub = (\<lambda>a b. (a - b, a < b)),
     nx_leading_zeros = (\<lambda>a. 256 - bit_length (unat a)),
     nx_shl = (\<lambda>a n. push_bit n a), nx_shr = (\<lambda>a n. drop_bit n a),
     nx_div512 = checked_div, nx_to_u512 = (\<lambda>a. (ucast a, False)),
     nx_to_u256 = (\<lambda>a. (ucast a, 2 ^ 256 \<le> unat a))\<rparr>"

section \<open>Rationals\<close>

record rational_u256 =
  r_numer :: u256
  r_denom :: u256

datatype ordering = Less | Equal | Greater

definition cmp_u256 :: "u256 \<Rightarrow> u256 \<Rightarrow> ordering" where
  "cmp_u256 a b = (if a < b then Less else if a = b then Equal else Greater)"

definition new_raw :: "u256 \<Rightarrow> u256 \<Rightarrow> rational_u256" where
  "new_raw n d = \<lparr>r_numer = n, r_denom = d\<rparr>"

definition rat_reduce :: "'z numext_scheme \<Rightarrow> rational_u256 \<Rightarrow> rational_u256 option" where
  "rat_reduce N r =
     (let g = nx_gcd N (r_numer r) (r_denom r) in do {
        n \<leftarrow> nx_div N (r_numer r) g;
        d \<leftarrow> nx_div N (r_denom r) g;
        Some (new_raw n d) })"

definition rat_new :: "'z numext_scheme \<Rightarrow> u256 \<Rightarrow> u256 \<Rightarrow> rational_u256 option" where
  "rat_new N n d = (if d = 0 then None else rat_reduce N (new_raw n d))"

definition rat_from_u256 :: "u256 \<Rightarrow> rational_u256" where
  "rat_from_u256 t = new_raw t 1"

definition rat_is_zero :: "rational_u256 \<Rightarrow> bool" where
  "rat_is_zero r \<longleftrightarrow> r_numer r = 0"

definition rat_zero :: rational_u256 where
  "rat_zero = new_raw 0 1"

definition rat_one :: rational_u256 where
  "rat_one = new_raw 1 1"

definition into_u256 :: "'z numext_scheme \<Rightarrow> rational_u256 \<Rightarrow> u256 option" where
  "into_u256 N r = nx_div N (r_numer r) (r_denom r)"

text \<open>
  The common denominator and the two scaled numerators, as \<open>saturating_sub\<close>, \<open>add\<close> and
  \<open>sub\<close> compute them when the denominators differ.
\<close>

definition rat_align ::
  "'z numext_scheme \<Rightarrow> rational_u256 \<Rightarrow> rational_u256 \<Rightarrow> (u256 \<times> u256 \<times> u256) option" where
  "rat_align N a b =
     (let g = nx_gcd N (r_denom a) (r_denom b) in do {
        q \<leftarrow> nx_div N (r_denom b) g;
        lcm \<leftarrow> nx_mul N (r_denom a) q;
        la \<leftarrow> nx_div N lcm (r_denom a);
        lhs_numer \<leftarrow> nx_mul N (r_numer a) la;
        lb \<leftarrow> nx_div N lcm (r_denom b);
        rhs_numer \<leftarrow> nx_mul N (r_numer b) lb;
        Some (lcm, lhs_numer, rhs_numer) })"

definition rat_saturating_sub ::
  "'z numext_scheme \<Rightarrow> rational_u256 \<Rightarrow> rational_u256 \<Rightarrow> rational_u256 option" where
  "rat_saturating_sub N a b =
     (if r_denom a = r_denom b then
        (let (numer, overflowing) = nx_overflowing_sub N (r_numer a) (r_numer b) in
         if overflowing then Some rat_zero else rat_new N numer (r_denom a))
      else do {
        (lcm, lhs_numer, rhs_numer) \<leftarrow> rat_align N a b;
        (let (numer, overflowing) = nx_overflowing_sub N lhs_numer rhs_numer in
         if overflowing then Some rat_zero else rat_new N numer lcm) })"

definition rat_saturating_sub_u256 ::
  "'z numext_scheme \<Rightarrow> rational_u256 \<Rightarrow> u256 \<Rightarrow> rational_u256 option" where
  "rat_saturating_sub_u256 N a rhs = do {
     p \<leftarrow> nx_mul N (r_denom a) rhs;
     (let (numer, overflowing) = nx_overflowing_sub N (r_numer a) p in
      Some (if overflowing then rat_zero else new_raw numer (r_denom a))) }"

definition rat_mul ::
  "'z numext_scheme \<Rightarrow> rational_u256 \<Rightarrow> rational_u256 \<Rightarrow> rational_u256 option" where
  "rat_mul N a b =
     (let gcd_ad = nx_gcd N (r_numer a) (r_denom b);
          gcd_bc = nx_gcd N (r_denom a) (r_numer b) in do {
        n1 \<leftarrow> nx_div N (r_numer a) gcd_ad;
        n2 \<leftarrow> nx_div N (r_numer b) gcd_bc;
        n \<leftarrow> nx_mul N n1 n2;
        d1 \<leftarrow> nx_div N (r_denom a) gcd_bc;
        d2 \<leftarrow> nx_div N (r_denom b) gcd_ad;
        d \<leftarrow> nx_mul N d1 d2;
        Some (new_raw n d) })"

definition rat_mul_u256 ::
  "'z numext_scheme \<Rightarrow> rational_u256 \<Rightarrow> u256 \<Rightarrow> rational_u256 option" where
  "rat_mul_u256 N a rhs =
     (let g = nx_gcd N (r_denom a) rhs in do {
        q \<leftarrow> nx_div N rhs g;
        n \<leftarrow> nx_mul N (r_numer a) q;
        d \<leftarrow> nx_div N (r_denom a) g;
        Some (new_raw n d) })"

definition rat_div ::
  "'z numext_scheme \<Rightarrow> rational_u256 \<Rightarrow> rational_u256 \<Rightarrow> rational_u256 option" where
  "rat_div N a b =
     (let gcd_ac = nx_gcd N (r_numer a) (r_numer b);
          gcd_bd = nx_gcd N (r_denom a) (r_denom b) in do {
        n1 \<leftarrow> nx_div N (r_numer a) gcd_ac;
        n2 \<leftarrow> nx_div N (r_denom b) gcd_bd;
        n \<leftarrow> nx_mul N n1 n2;
        d1 \<leftarrow> nx_div N (r_denom a) gcd_bd;
        d2 \<leftarrow> nx_div N (r_numer b) gcd_ac;
        d \<leftarrow> nx_mul N d1 d2;
        Some (new_raw n d) })"

definition rat_div_u256 ::
  "'z numext_scheme \<Rightarrow> rational_u256 \<Rightarrow> u256 \<Rightarrow> rational_u256 option" where
  "rat_div_u256 N a rhs =
     (let g = nx_gcd N (r_numer a) rhs in do {
        n \<leftarrow> nx_div N (r_numer a) g;
        q \<leftarrow> nx_div N rhs g;
        d \<leftarrow> nx_mul N (r_denom a) q;
        Some (new_raw n d) })"

definition rat_add ::
  "'z numext_scheme \<Rightarrow> rational_u256 \<Rightarrow> rational_u256 \<Rightarrow> rational_u256 option" where
  "rat_add N a b =
     (if r_denom a = r_denom b then do {
        n \<leftarrow> nx_add N (r_numer a) (r_numer b);
        rat_new N n (r_denom a) }
      else do {
        (lcm, lhs_numer, rhs_numer) \<leftarrow> rat_align N a b;
        n \<leftarrow> nx_add N lhs_numer rhs_numer;
        rat_new N n lcm })"

definition rat_add_u256 ::
  "'z numext_scheme \<Rightarrow> rational_u256 \<Rightarrow> u256 \<Rightarrow> rational_u256 option" where
  "rat_add_u256 N a rhs = do {
     p \<leftarrow> nx_mul N (r_denom a) rhs;
     n \<leftarrow> nx_add N (r_numer a) p;
     Some (new_raw n (r_denom a)) }"

definition rat_sub ::
  "'z numext_scheme \<Rightarrow> rational_u256 \<Rightarrow> rational_u256 \<Rightarrow> rational_u256 option" where
  "rat_sub N a b =
     (if r_denom a = r_denom b then do {
        n \<leftarrow> nx_sub N (r_numer a) (r_numer b);
        rat_new N n (r_denom a) }
      else do {
        (lcm, lhs_numer, rhs_numer) \<leftarrow> rat_align N a b;
        n \<leftarrow> nx_sub N lhs_numer rhs_numer;
        rat_new N n lcm })"

definition rat_sub_u256 ::
  "'z numext_scheme \<Rightarrow> rational_u256 \<Rightarrow> u256 \<Rightarrow> rational_u256 option" where
  "rat_sub_u256 N a rhs = do {
     p \<leftarrow> nx_mul N (r_denom a) rhs;
     n \<leftarrow> nx_sub N (r_numer a) p;
     Some (new_raw n (r_denom a)) }"

definition rat_cmp ::
  "'z numext_scheme \<Rightarrow> rational_u256 \<Rightarrow> rational_u256 \<Rightarrow> ordering option" where
  "rat_cmp N a b =
     (let g = nx_gcd N (r_denom a) (r_denom b) in do {
        db \<leftarrow> nx_div N (r_denom b) g;
        lhs \<leftarrow> nx_mul N (r_numer a) db;
        da \<leftarrow> nx_div N (r_denom a) g;
        rhs \<leftarrow> nx_mul N (r_numer b) da;
        Some (cmp_u256 lhs rhs) })"

definition rat_lt ::
  "'z numext_scheme \<Rightarrow> rational_u256 \<Rightarrow> rational_u256 \<Rightarrow> bool option" where
  "rat_lt N a b = map_option (\<lambda>c. c = Less) (rat_cmp N a b)"

definition rat_gt ::
  "'z numext_scheme \<Rightarrow> rational_u256 \<Rightarrow> rational_u256 \<Rightarrow> bool option" where
  "rat_gt N a b = map_option (\<lambda>c. c = Greater) (rat_cmp N a b)"

section \<open>The integers are exact where the result fits\<close>

lemma numext_word_ok: "numext_ok numext_word"
proof -
  have g: "unat (of_nat (gcd (unat a) (unat b)) :: u256) = gcd (unat a) (unat b)" for a b :: u256
  proof -
    have "gcd (unat a) (unat b) < 2 ^ LENGTH(256)"
    proof (cases "unat a = 0")
      case True
      then show ?thesis using unat_bound [of b] by simp
    next
      case False
      then have "gcd (unat a) (unat b) \<le> unat a" by (simp add: gcd_le1_nat)
      then show ?thesis using unat_bound [of a] by simp
    qed
    then show ?thesis by (simp add: unat_of_nat take_bit_eq_mod)
  qed
  show ?thesis
    unfolding numext_ok_def numext_word_def
    by (simp add: g checked_add_def checked_sub_def checked_mul_def checked_div_def)
qed

lemma nx_add_exact: "numext_ok N \<Longrightarrow> unat a + unat b < 2 ^ 256 \<Longrightarrow> nx_add N a b = Some (a + b)"
  unfolding numext_ok_def by simp

lemma nx_sub_exact: "numext_ok N \<Longrightarrow> b \<le> a \<Longrightarrow> nx_sub N a b = Some (a - b)"
  unfolding numext_ok_def by simp

lemma nx_mul_exact: "numext_ok N \<Longrightarrow> unat a * unat b < 2 ^ 256 \<Longrightarrow> nx_mul N a b = Some (a * b)"
  unfolding numext_ok_def by simp

lemma nx_div_exact: "numext_ok N \<Longrightarrow> b \<noteq> 0 \<Longrightarrow> nx_div N a b = Some (a div b)"
  unfolding numext_ok_def by simp

lemma unat_nx_gcd: "numext_ok N \<Longrightarrow> unat (nx_gcd N a b) = gcd (unat a) (unat b)"
  unfolding numext_ok_def by blast

lemma nx_osub: "numext_ok N \<Longrightarrow> nx_overflowing_sub N a b = (a - b, a < b)"
  unfolding numext_ok_def by blast

lemma nx_gcd_nonzero: "numext_ok N \<Longrightarrow> nx_gcd N a b = 0 \<longleftrightarrow> a = 0 \<and> b = 0"
  by (metis unat_nx_gcd gcd_eq_0_iff unat_eq_zero)

lemma unat_mul256: "unat a * unat b < 2 ^ 256 \<Longrightarrow> unat (a * b) = unat a * unat (b :: u256)"
  using unat_mul_exact [of a b] by simp

lemma unat_add256: "unat a + unat b < 2 ^ 256 \<Longrightarrow> unat (a + b) = unat a + unat (b :: u256)"
  using unat_add_exact [of a b] by simp

lemmas unat256 = unat_mul256 unat_add256 unat_div unat_nx_gcd unat_sub_exact

section \<open>The value of a rational\<close>

definition rat_valid :: "rational_u256 \<Rightarrow> bool" where
  "rat_valid r \<longleftrightarrow> r_denom r \<noteq> 0"

definition rat_val :: "rational_u256 \<Rightarrow> rat" where
  "rat_val r = rat_of_nat (unat (r_numer r)) / rat_of_nat (unat (r_denom r))"

lemma new_raw_sel [simp]: "r_numer (new_raw n d) = n" "r_denom (new_raw n d) = d"
  by (simp_all add: new_raw_def)

lemma rat_validD: "rat_valid r \<Longrightarrow> 0 < unat (r_denom r)"
  by (simp add: rat_valid_def unat_gt_0)

lemma rat_val_nonneg [simp]: "0 \<le> rat_val r"
  by (simp add: rat_val_def)

lemma mult_div_le: "(g::nat) dvd b \<Longrightarrow> a * (b div g) \<le> a * b"
  by (simp add: div_le_dividend)

lemma rat_new_Some:
  assumes N: "numext_ok N" and d: "d \<noteq> 0"
  shows "\<exists>r. rat_new N n d = Some r \<and> rat_valid r \<and>
           rat_val r = rat_of_nat (unat n) / rat_of_nat (unat d) \<and>
           coprime (unat (r_numer r)) (unat (r_denom r)) \<and>
           unat (r_numer r) \<le> unat n \<and> unat (r_denom r) \<le> unat d"
proof -
  let ?g = "nx_gcd N n d"
  have g: "unat ?g = gcd (unat n) (unat d)" by (rule unat_nx_gcd [OF N])
  have dpos: "0 < unat d" using d by (simp add: unat_gt_0)
  then have gpos: "0 < unat ?g" using g by simp
  then have g0: "?g \<noteq> 0" by auto
  let ?r = "new_raw (n div ?g) (d div ?g)"
  have eq: "rat_new N n d = Some ?r"
    using d g0 by (simp add: rat_new_def rat_reduce_def Let_def nx_div_exact [OF N])
  obtain n' d' where n': "unat n = unat ?g * n'" and d': "unat d = unat ?g * d'"
    using g by (metis gcd_dvd1 gcd_dvd2 dvdE)
  have un: "unat (n div ?g) = n'" and ud: "unat (d div ?g) = d'"
    using gpos by (simp_all add: unat_div n' d')
  have d'pos: "0 < d'" using dpos d' by (cases d') auto
  have "coprime n' d'"
    using div_gcd_coprime [of "unat n" "unat d"] dpos un ud g by (simp add: unat_div)
  moreover have "rat_of_nat n' / rat_of_nat d' = rat_of_nat (unat n) / rat_of_nat (unat d)"
    using gpos by (simp add: n' d')
  moreover have "rat_valid ?r"
    using ud d'pos by (auto simp: rat_valid_def)
  moreover have "n' \<le> unat n" and "d' \<le> unat d"
    using gpos n' d' by simp_all
  ultimately show ?thesis
    using eq by (intro exI [of _ ?r]) (simp add: rat_val_def un ud)
qed

text \<open>Aligning two fractions on the least common denominator.\<close>

lemma align_frac:
  assumes "0 < b" and "0 < (d::nat)"
  shows "b * (d div gcd b d) div b = d div gcd b d"
    and "b * (d div gcd b d) div d = b div gcd b d"
    and "rat_of_nat (a * (d div gcd b d)) / rat_of_nat (b * (d div gcd b d)) = rat_of_nat a / rat_of_nat b"
    and "rat_of_nat (c * (b div gcd b d)) / rat_of_nat (b * (d div gcd b d)) = rat_of_nat c / rat_of_nat d"
    and "0 < b * (d div gcd b d)"
proof -
  define g where "g = gcd b d"
  have gpos: "0 < g" using assms by (simp add: g_def)
  obtain b' d' where b: "b = g * b'" and d: "d = g * d'"
    unfolding g_def by (metis gcd_dvd1 gcd_dvd2 dvdE)
  have pos: "0 < b'" "0 < d'" using assms b d by (auto intro: Nat.gr0I)
  have q: "d div g = d'" "b div g = b'" using gpos b d by simp_all
  show "b * (d div gcd b d) div b = d div gcd b d"
    using assms by simp
  show "b * (d div gcd b d) div d = b div gcd b d"
    unfolding g_def [symmetric] q using b d gpos pos by simp
  show "rat_of_nat (a * (d div gcd b d)) / rat_of_nat (b * (d div gcd b d)) = rat_of_nat a / rat_of_nat b"
    unfolding g_def [symmetric] q using pos by simp
  show "rat_of_nat (c * (b div gcd b d)) / rat_of_nat (b * (d div gcd b d)) = rat_of_nat c / rat_of_nat d"
    unfolding g_def [symmetric] q using b d gpos pos by simp
  show "0 < b * (d div gcd b d)"
    unfolding g_def [symmetric] q using assms pos by simp
qed

lemma rat_align_Some:
  assumes N: "numext_ok N" and va: "rat_valid a" and vb: "rat_valid b"
    and bd: "unat (r_denom a) * unat (r_denom b) < 2 ^ 256"
    and ad: "unat (r_numer a) * unat (r_denom b) < 2 ^ 256"
    and cb: "unat (r_numer b) * unat (r_denom a) < 2 ^ 256"
  shows "\<exists>l x y. rat_align N a b = Some (l, x, y) \<and> l \<noteq> 0 \<and>
           rat_of_nat (unat x) / rat_of_nat (unat l) = rat_val a \<and>
           rat_of_nat (unat y) / rat_of_nat (unat l) = rat_val b \<and>
           unat x \<le> unat (r_numer a) * unat (r_denom b) \<and>
           unat y \<le> unat (r_numer b) * unat (r_denom a)"
proof -
  let ?b = "r_denom a" and ?d = "r_denom b" and ?a = "r_numer a" and ?c = "r_numer b"
  let ?g = "nx_gcd N ?b ?d"
  have pos: "0 < unat ?b" "0 < unat ?d" using va vb by (simp_all add: rat_validD)
  then have nz: "?b \<noteq> 0" "?d \<noteq> 0" by auto
  have g: "unat ?g = gcd (unat ?b) (unat ?d)" by (rule unat_nx_gcd [OF N])
  have g0: "?g \<noteq> 0" using nz by (simp add: nx_gcd_nonzero [OF N])
  note al = align_frac [OF pos]
  have ule: "unat ?b * (unat ?d div unat ?g) < 2 ^ 256"
    using g by (intro le_less_trans [OF mult_div_le bd]) simp
  have ul: "unat (?b * (?d div ?g)) = unat ?b * (unat ?d div unat ?g)"
    using ule by (simp add: unat256)
  have q1: "unat (?b * (?d div ?g) div ?b) = unat ?d div unat ?g"
    using al(1) g by (simp add: unat_div ul)
  have q2: "unat (?b * (?d div ?g) div ?d) = unat ?b div unat ?g"
    using al(2) g by (simp add: unat_div ul)
  have xle: "unat ?a * (unat ?d div unat ?g) \<le> unat ?a * unat ?d"
    using g by (intro mult_div_le) simp
  have yle: "unat ?c * (unat ?b div unat ?g) \<le> unat ?c * unat ?b"
    using g by (intro mult_div_le) simp
  let ?l = "?b * (?d div ?g)"
  let ?x = "?a * (?l div ?b)" and ?y = "?c * (?l div ?d)"
  have ux: "unat ?x = unat ?a * (unat ?d div unat ?g)"
    using le_less_trans [OF xle ad] q1 by (simp add: unat_mul256)
  have uy: "unat ?y = unat ?c * (unat ?b div unat ?g)"
    using le_less_trans [OF yle cb] q2 by (simp add: unat_mul256)
  have ops: "nx_div N ?d ?g = Some (?d div ?g)" "nx_mul N ?b (?d div ?g) = Some ?l"
    "nx_div N ?l ?b = Some (?l div ?b)" "nx_mul N ?a (?l div ?b) = Some ?x"
    "nx_div N ?l ?d = Some (?l div ?d)" "nx_mul N ?c (?l div ?d) = Some ?y"
    using nz g0 ule le_less_trans [OF xle ad] le_less_trans [OF yle cb] q1 q2
    by (simp_all add: nx_div_exact [OF N] nx_mul_exact [OF N] unat_div [of ?d])
  have "rat_align N a b = Some (?l, ?x, ?y)"
    by (simp add: rat_align_def Let_def ops)
  moreover have "?l \<noteq> 0"
    using ul al(5) g by auto
  moreover have "rat_of_nat (unat ?x) / rat_of_nat (unat ?l) = rat_val a"
    unfolding ux ul rat_val_def g by (rule al(3))
  moreover have "rat_of_nat (unat ?y) / rat_of_nat (unat ?l) = rat_val b"
    unfolding uy ul rat_val_def g by (rule al(4))
  moreover have "unat ?x \<le> unat ?a * unat ?d" and "unat ?y \<le> unat ?c * unat ?b"
    unfolding ux uy by (rule xle, rule yle)
  ultimately show ?thesis by blast
qed

section \<open>The operations are exact where the result fits\<close>

text \<open>
  Every cross product of numerators and denominators that the operations form is
  representable.
\<close>

definition rat_fits :: "rational_u256 \<Rightarrow> rational_u256 \<Rightarrow> bool" where
  "rat_fits a b \<longleftrightarrow>
     unat (r_denom a) * unat (r_denom b) < 2 ^ 256 \<and>
     unat (r_numer a) * unat (r_denom b) + unat (r_numer b) * unat (r_denom a) < 2 ^ 256"

lemma rat_fits_align:
  assumes "numext_ok N" and "rat_valid a" and "rat_valid b" and "rat_fits a b"
  obtains l x y where "rat_align N a b = Some (l, x, y)" "l \<noteq> 0"
    "rat_of_nat (unat x) / rat_of_nat (unat l) = rat_val a"
    "rat_of_nat (unat y) / rat_of_nat (unat l) = rat_val b"
    "unat x + unat y < 2 ^ 256"
proof -
  have "\<exists>l x y. rat_align N a b = Some (l, x, y) \<and> l \<noteq> 0 \<and>
           rat_of_nat (unat x) / rat_of_nat (unat l) = rat_val a \<and>
           rat_of_nat (unat y) / rat_of_nat (unat l) = rat_val b \<and>
           unat x \<le> unat (r_numer a) * unat (r_denom b) \<and>
           unat y \<le> unat (r_numer b) * unat (r_denom a)"
    using assms by (intro rat_align_Some) (auto simp: rat_fits_def)
  then obtain l x y where *: "rat_align N a b = Some (l, x, y)" "l \<noteq> 0"
      "rat_of_nat (unat x) / rat_of_nat (unat l) = rat_val a"
      "rat_of_nat (unat y) / rat_of_nat (unat l) = rat_val b"
      "unat x \<le> unat (r_numer a) * unat (r_denom b)"
      "unat y \<le> unat (r_numer b) * unat (r_denom a)"
    by blast
  have "unat x + unat y < 2 ^ 256"
    using add_mono [OF *(5,6)] assms(4) by (simp add: rat_fits_def)
  with * show ?thesis by (blast intro: that)
qed

lemma unat_le_scaled: "0 < k \<Longrightarrow> unat w \<le> unat w * (k::nat)"
  by simp

lemma rat_fits_numer:
  assumes "rat_valid a" and "rat_valid b" and "rat_fits a b"
  shows "unat (r_numer a) + unat (r_numer b) < 2 ^ 256"
proof -
  have "unat (r_numer a) + unat (r_numer b)
      \<le> unat (r_numer a) * unat (r_denom b) + unat (r_numer b) * unat (r_denom a)"
    using assms by (intro add_mono unat_le_scaled rat_validD)
  then show ?thesis using assms(3) by (simp add: rat_fits_def)
qed

lemma rat_add_Some:
  assumes N: "numext_ok N" and va: "rat_valid a" and vb: "rat_valid b" and fit: "rat_fits a b"
  shows "\<exists>c. rat_add N a b = Some c \<and> rat_valid c \<and> rat_val c = rat_val a + rat_val b \<and>
     coprime (unat (r_numer c)) (unat (r_denom c))"
proof (cases "r_denom a = r_denom b")
  case True
  have lt: "unat (r_numer a) + unat (r_numer b) < 2 ^ 256"
    by (rule rat_fits_numer [OF va vb fit])
  obtain c where "rat_new N (r_numer a + r_numer b) (r_denom a) = Some c" "rat_valid c"
      "rat_val c = rat_of_nat (unat (r_numer a + r_numer b)) / rat_of_nat (unat (r_denom a))"
      "coprime (unat (r_numer c)) (unat (r_denom c))"
    using rat_new_Some [OF N] va unfolding rat_valid_def by blast
  then show ?thesis
    using True lt
    by (simp add: rat_add_def nx_add_exact [OF N] unat_add256 rat_val_def add_divide_distrib)
next
  case False
  obtain l x y where al: "rat_align N a b = Some (l, x, y)" "l \<noteq> 0"
      "rat_of_nat (unat x) / rat_of_nat (unat l) = rat_val a"
      "rat_of_nat (unat y) / rat_of_nat (unat l) = rat_val b"
      "unat x + unat y < 2 ^ 256"
    by (rule rat_fits_align [OF N va vb fit])
  obtain c where "rat_new N (x + y) l = Some c" "rat_valid c"
      "rat_val c = rat_of_nat (unat (x + y)) / rat_of_nat (unat l)"
      "coprime (unat (r_numer c)) (unat (r_denom c))"
    using rat_new_Some [OF N al(2)] by blast
  then show ?thesis
    using False al
    by (simp add: rat_add_def nx_add_exact [OF N] unat_add256 add_divide_distrib)
qed

text \<open>A reduced fraction has the least numerator and denominator.\<close>

lemma coprime_frac_le:
  assumes "coprime n d" and "0 < d" and "0 < q" and "rat_of_nat n / rat_of_nat d = rat_of_nat p / rat_of_nat q"
  shows "n \<le> p" and "d \<le> q"
proof -
  have "rat_of_nat (n * q) = rat_of_nat (p * d)" using assms by (simp add: frac_eq_eq)
  then have eq: "n * q = p * d" by (simp only: of_nat_eq_iff)
  then have "d dvd q" using assms(1) by (metis coprime_commute coprime_dvd_mult_right_iff dvd_triv_right)
  then show "d \<le> q" using assms(3) by (rule dvd_imp_le)
  have "n dvd p" using eq assms(1) by (metis coprime_dvd_mult_left_iff dvd_triv_left)
  then show "n \<le> p"
  proof (cases "p = 0")
    case True
    then show ?thesis using eq assms(3) by simp
  qed (simp add: dvd_imp_le)
qed

lemma frac_le_iff:
  "0 < unat l \<Longrightarrow>
   (rat_of_nat (unat x) / rat_of_nat (unat l) \<le> rat_of_nat (unat y) / rat_of_nat (unat l)) \<longleftrightarrow>
   x \<le> (y :: u256)"
  by (simp add: divide_le_cancel word_le_nat_alt)

lemma frac_diff:
  "y \<le> (x :: u256) \<Longrightarrow> rat_of_nat (unat (x - y)) / d =
     rat_of_nat (unat x) / d - rat_of_nat (unat y) / d"
  by (simp add: unat_sub_exact word_le_nat_alt of_nat_diff diff_divide_distrib)

lemma rat_saturating_sub_Some:
  assumes N: "numext_ok N" and va: "rat_valid a" and vb: "rat_valid b" and fit: "rat_fits a b"
  shows "\<exists>c. rat_saturating_sub N a b = Some c \<and> rat_valid c \<and>
           rat_val c = max 0 (rat_val a - rat_val b)"
proof -
  have zero: "rat_valid rat_zero" "rat_val rat_zero = 0"
    by (simp_all add: rat_valid_def rat_val_def rat_zero_def)
  have core: "\<exists>c. (if x < y then Some rat_zero else rat_new N (x - y) l) = Some c \<and> rat_valid c \<and>
           rat_val c = max 0 (rat_of_nat (unat x) / rat_of_nat (unat l) -
                              rat_of_nat (unat y) / rat_of_nat (unat l))"
    if l: "l \<noteq> 0" for x y l
  proof (cases "x < y")
    case True
    then have "rat_of_nat (unat x) / rat_of_nat (unat l) \<le> rat_of_nat (unat y) / rat_of_nat (unat l)"
      using l by (subst frac_le_iff) (auto simp: unat_gt_0)
    then show ?thesis using True zero by simp
  next
    case False
    then have le: "y \<le> x" by simp
    then have "rat_of_nat (unat y) / rat_of_nat (unat l) \<le> rat_of_nat (unat x) / rat_of_nat (unat l)"
      using l by (subst frac_le_iff) (auto simp: unat_gt_0)
    moreover obtain c where "rat_new N (x - y) l = Some c" "rat_valid c"
        "rat_val c = rat_of_nat (unat (x - y)) / rat_of_nat (unat l)"
      using rat_new_Some [OF N l] by blast
    ultimately show ?thesis using False by (simp add: frac_diff [OF le])
  qed
  show ?thesis
  proof (cases "r_denom a = r_denom b")
    case True
    then show ?thesis
      using core [of "r_denom a" "r_numer a" "r_numer b"] va
      by (simp add: rat_saturating_sub_def nx_osub [OF N] rat_valid_def rat_val_def)
  next
    case False
    obtain l x y where al: "rat_align N a b = Some (l, x, y)" "l \<noteq> 0"
        "rat_of_nat (unat x) / rat_of_nat (unat l) = rat_val a"
        "rat_of_nat (unat y) / rat_of_nat (unat l) = rat_val b"
        "unat x + unat y < 2 ^ 256"
      by (rule rat_fits_align [OF N va vb fit])
    show ?thesis
      using False core [OF al(2), of x y] al
      by (simp add: rat_saturating_sub_def nx_osub [OF N])
  qed
qed

lemma rat_sub_Some:
  assumes N: "numext_ok N" and va: "rat_valid a" and vb: "rat_valid b" and fit: "rat_fits a b"
    and le: "rat_val b \<le> rat_val a"
  shows "\<exists>c. rat_sub N a b = Some c \<and> rat_valid c \<and> rat_val c = rat_val a - rat_val b"
proof (cases "r_denom a = r_denom b")
  case True
  have dpos: "0 < unat (r_denom a)" using va by (rule rat_validD)
  have ge: "r_numer b \<le> r_numer a"
    using le True frac_le_iff [OF dpos] by (simp add: rat_val_def)
  obtain c where "rat_new N (r_numer a - r_numer b) (r_denom a) = Some c" "rat_valid c"
      "rat_val c = rat_of_nat (unat (r_numer a - r_numer b)) / rat_of_nat (unat (r_denom a))"
    using rat_new_Some [OF N] va unfolding rat_valid_def by blast
  then show ?thesis
    using True ge by (simp add: rat_sub_def nx_sub_exact [OF N] frac_diff rat_val_def)
next
  case False
  obtain l x y where al: "rat_align N a b = Some (l, x, y)" "l \<noteq> 0"
      "rat_of_nat (unat x) / rat_of_nat (unat l) = rat_val a"
      "rat_of_nat (unat y) / rat_of_nat (unat l) = rat_val b"
      "unat x + unat y < 2 ^ 256"
    by (rule rat_fits_align [OF N va vb fit])
  have ge: "y \<le> x"
    using le al frac_le_iff [of l y x] by (simp add: unat_gt_0)
  obtain c where "rat_new N (x - y) l = Some c" "rat_valid c"
      "rat_val c = rat_of_nat (unat (x - y)) / rat_of_nat (unat l)"
    using rat_new_Some [OF N al(2)] by blast
  then show ?thesis
    using False al ge by (simp add: rat_sub_def nx_sub_exact [OF N] frac_diff)
qed

text \<open>Cancelling a common factor before multiplying.\<close>

lemma cancel_gcd:
  assumes N: "numext_ok N" and "x \<noteq> 0 \<or> y \<noteq> 0"
  obtains x' y' where
    "nx_div N x (nx_gcd N x y) = Some x'" "nx_div N y (nx_gcd N x y) = Some y'"
    "unat x = gcd (unat x) (unat y) * unat x'" "unat y = gcd (unat x) (unat y) * unat y'"
    "0 < gcd (unat x) (unat y)" "unat x' \<le> unat x" "unat y' \<le> unat y"
proof -
  let ?g = "nx_gcd N x y"
  have g: "unat ?g = gcd (unat x) (unat y)" by (rule unat_nx_gcd [OF N])
  have g0: "?g \<noteq> 0" using assms(2) by (simp add: nx_gcd_nonzero [OF N])
  have pos: "0 < gcd (unat x) (unat y)" using assms(2) by (auto simp: unat_gt_0)
  have "nx_div N x ?g = Some (x div ?g)" "nx_div N y ?g = Some (y div ?g)"
    using g0 by (simp_all add: nx_div_exact [OF N])
  moreover have "unat x = gcd (unat x) (unat y) * unat (x div ?g)"
    "unat y = gcd (unat x) (unat y) * unat (y div ?g)"
    by (simp_all add: unat_div g)
  moreover have "unat (x div ?g) \<le> unat x" "unat (y div ?g) \<le> unat y"
    by (simp_all add: unat_div)
  ultimately show ?thesis using pos by (blast intro: that)
qed

lemma frac_cancel:
  "0 < k \<Longrightarrow> rat_of_nat (k * x) / rat_of_nat (k * y) = rat_of_nat x / rat_of_nat y"
  by simp

lemma rat_mul_Some:
  assumes N: "numext_ok N" and va: "rat_valid a" and vb: "rat_valid b"
    and nn: "unat (r_numer a) * unat (r_numer b) < 2 ^ 256"
    and dd: "unat (r_denom a) * unat (r_denom b) < 2 ^ 256"
  shows "\<exists>c. rat_mul N a b = Some c \<and> rat_valid c \<and> rat_val c = rat_val a * rat_val b \<and>
           unat (r_numer c) \<le> unat (r_numer a) * unat (r_numer b) \<and>
           unat (r_denom c) \<le> unat (r_denom a) * unat (r_denom b)"
proof -
  let ?g = "gcd (unat (r_numer a)) (unat (r_denom b))"
  let ?h = "gcd (unat (r_denom a)) (unat (r_numer b))"
  obtain na db where 1: "nx_div N (r_numer a) (nx_gcd N (r_numer a) (r_denom b)) = Some na"
      "nx_div N (r_denom b) (nx_gcd N (r_numer a) (r_denom b)) = Some db"
      "unat (r_numer a) = ?g * unat na" "unat (r_denom b) = ?g * unat db" "0 < ?g"
      "unat na \<le> unat (r_numer a)" "unat db \<le> unat (r_denom b)"
    using cancel_gcd [OF N, of "r_numer a" "r_denom b"] vb by (auto simp: rat_valid_def)
  obtain da nb where 2: "nx_div N (r_denom a) (nx_gcd N (r_denom a) (r_numer b)) = Some da"
      "nx_div N (r_numer b) (nx_gcd N (r_denom a) (r_numer b)) = Some nb"
      "unat (r_denom a) = ?h * unat da" "unat (r_numer b) = ?h * unat nb" "0 < ?h"
      "unat da \<le> unat (r_denom a)" "unat nb \<le> unat (r_numer b)"
    using cancel_gcd [OF N, of "r_denom a" "r_numer b"] va by (auto simp: rat_valid_def)
  have ln: "unat na * unat nb \<le> unat (r_numer a) * unat (r_numer b)"
    and ld: "unat da * unat db \<le> unat (r_denom a) * unat (r_denom b)"
    using 1(6,7) 2(6,7) by (simp_all add: mult_le_mono)
  have un: "unat (na * nb) = unat na * unat nb" and ud: "unat (da * db) = unat da * unat db"
    using le_less_trans [OF ln nn] le_less_trans [OF ld dd] by (simp_all add: unat_mul256)
  have pos: "0 < unat da" "0 < unat db"
    using rat_validD [OF va] rat_validD [OF vb] 1(4) 2(3) by (metis mult_0_right neq0_conv)+
  have "rat_mul N a b = Some (new_raw (na * nb) (da * db))"
    using 1 2 le_less_trans [OF ln nn] le_less_trans [OF ld dd]
    by (simp add: rat_mul_def Let_def nx_mul_exact [OF N])
  moreover have "rat_valid (new_raw (na * nb) (da * db))"
    using pos ud by (auto simp: rat_valid_def)
  moreover have "rat_val (new_raw (na * nb) (da * db)) = rat_val a * rat_val b"
  proof -
    have "rat_val a * rat_val b = rat_of_nat ((?g * ?h) * (unat na * unat nb)) /
        rat_of_nat ((?g * ?h) * (unat da * unat db))"
      unfolding rat_val_def by (subst 1(3), subst 1(4), subst 2(3), subst 2(4)) simp
    also have "\<dots> = rat_of_nat (unat na * unat nb) / rat_of_nat (unat da * unat db)"
      using 1(5) 2(5) by (intro frac_cancel) simp
    finally show ?thesis by (simp add: rat_val_def un ud)
  qed
  ultimately show ?thesis using un ud ln ld by auto
qed

lemma rat_div_as_mul: "rat_div N a b = rat_mul N a (new_raw (r_denom b) (r_numer b))"
  by (simp add: rat_div_def rat_mul_def Let_def)

lemma rat_div_Some:
  assumes N: "numext_ok N" and va: "rat_valid a" and vb: "rat_valid b" and nz: "r_numer b \<noteq> 0"
    and nd: "unat (r_numer a) * unat (r_denom b) < 2 ^ 256"
    and dn: "unat (r_denom a) * unat (r_numer b) < 2 ^ 256"
  shows "\<exists>c. rat_div N a b = Some c \<and> rat_valid c \<and> rat_val c = rat_val a / rat_val b"
proof -
  let ?i = "new_raw (r_denom b) (r_numer b)"
  have "rat_valid ?i" using nz by (simp add: rat_valid_def)
  moreover have "rat_val ?i = 1 / rat_val b" by (simp add: rat_val_def)
  ultimately show ?thesis
    using rat_mul_Some [OF N va, of ?i] nd dn by (auto simp: rat_div_as_mul)
qed

lemma rat_mul_u256_Some:
  assumes N: "numext_ok N" and va: "rat_valid a"
    and fit: "unat (r_numer a) * unat t < 2 ^ 256"
  shows "\<exists>c. rat_mul_u256 N a t = Some c \<and> rat_valid c \<and>
           rat_val c = rat_val a * rat_of_nat (unat t) \<and>
           unat (r_numer c) \<le> unat (r_numer a) * unat t \<and> unat (r_denom c) \<le> unat (r_denom a)"
proof -
  let ?g = "gcd (unat (r_denom a)) (unat t)"
  obtain d q where 1: "nx_div N (r_denom a) (nx_gcd N (r_denom a) t) = Some d"
      "nx_div N t (nx_gcd N (r_denom a) t) = Some q"
      "unat (r_denom a) = ?g * unat d" "unat t = ?g * unat q" "0 < ?g"
      "unat d \<le> unat (r_denom a)" "unat q \<le> unat t"
    using cancel_gcd [OF N, of "r_denom a" t] va by (auto simp: rat_valid_def)
  have le: "unat (r_numer a) * unat q \<le> unat (r_numer a) * unat t"
    using 1(7) by (rule mult_le_mono2)
  have un: "unat (r_numer a * q) = unat (r_numer a) * unat q"
    using le_less_trans [OF le fit] by (simp add: unat_mul256)
  have "rat_mul_u256 N a t = Some (new_raw (r_numer a * q) d)"
    using 1 le_less_trans [OF le fit] by (simp add: rat_mul_u256_def Let_def nx_mul_exact [OF N])
  moreover have "rat_valid (new_raw (r_numer a * q) d)"
    using rat_validD [OF va] 1(3) by (auto simp: rat_valid_def)
  moreover have "rat_val (new_raw (r_numer a * q) d) = rat_val a * rat_of_nat (unat t)"
  proof -
    have "rat_val a * rat_of_nat (unat t) =
        rat_of_nat (?g * (unat (r_numer a) * unat q)) / rat_of_nat (?g * unat d)"
      unfolding rat_val_def by (subst 1(3), subst 1(4)) simp
    also have "\<dots> = rat_of_nat (unat (r_numer a) * unat q) / rat_of_nat (unat d)"
      using 1(5) by (rule frac_cancel)
    finally show ?thesis by (simp add: rat_val_def un)
  qed
  ultimately show ?thesis using un le 1(6) by auto
qed

lemma rat_add_u256_Some:
  assumes N: "numext_ok N" and va: "rat_valid a"
    and fit: "unat (r_numer a) + unat (r_denom a) * unat t < 2 ^ 256"
  shows "\<exists>c. rat_add_u256 N a t = Some c \<and> rat_valid c \<and>
           rat_val c = rat_val a + rat_of_nat (unat t) \<and> r_denom c = r_denom a \<and>
           unat (r_numer c) = unat (r_numer a) + unat (r_denom a) * unat t"
proof -
  have m: "unat (r_denom a) * unat t < 2 ^ 256" using fit by simp
  have um: "unat (r_denom a * t) = unat (r_denom a) * unat t" using m by (rule unat_mul256)
  have ua: "unat (r_numer a + r_denom a * t) = unat (r_numer a) + unat (r_denom a) * unat t"
    using fit um by (simp add: unat_add256)
  have "rat_add_u256 N a t = Some (new_raw (r_numer a + r_denom a * t) (r_denom a))"
    using m fit by (simp add: rat_add_u256_def nx_mul_exact [OF N] nx_add_exact [OF N] um)
  moreover have "rat_val (new_raw (r_numer a + r_denom a * t) (r_denom a)) =
      rat_val a + rat_of_nat (unat t)"
    using rat_validD [OF va] by (simp add: rat_val_def ua add_divide_distrib)
  ultimately show ?thesis using va ua by (simp add: rat_valid_def)
qed

lemma rat_saturating_sub_u256_Some:
  assumes N: "numext_ok N" and va: "rat_valid a"
    and fit: "unat (r_denom a) * unat t < 2 ^ 256"
  shows "\<exists>c. rat_saturating_sub_u256 N a t = Some c \<and> rat_valid c \<and>
           rat_val c = max 0 (rat_val a - rat_of_nat (unat t))"
proof -
  let ?p = "r_denom a * t"
  have up: "unat ?p = unat (r_denom a) * unat t" using fit by (rule unat_mul256)
  have dpos: "0 < unat (r_denom a)" using va by (rule rat_validD)
  have tp: "rat_of_nat (unat t) = rat_of_nat (unat ?p) / rat_of_nat (unat (r_denom a))"
    using dpos by (simp add: up)
  have eq: "rat_saturating_sub_u256 N a t =
      Some (if r_numer a < ?p then rat_zero else new_raw (r_numer a - ?p) (r_denom a))"
    using fit by (simp add: rat_saturating_sub_u256_def nx_mul_exact [OF N] nx_osub [OF N])
  show ?thesis
  proof (cases "r_numer a < ?p")
    case True
    then have "rat_val a \<le> rat_of_nat (unat t)"
      unfolding tp rat_val_def using dpos by (subst frac_le_iff) auto
    then show ?thesis using True eq by (simp add: rat_valid_def rat_val_def rat_zero_def)
  next
    case False
    then have ge: "?p \<le> r_numer a" by simp
    then have "rat_of_nat (unat t) \<le> rat_val a"
      unfolding tp rat_val_def using dpos by (subst frac_le_iff) auto
    then show ?thesis
      using False eq va by (simp add: rat_valid_def rat_val_def frac_diff [OF ge] tp)
  qed
qed

lemma frac_less_eq_mult:
  "0 < (y::rat) \<Longrightarrow> 0 < w \<Longrightarrow> x / y < z / w \<longleftrightarrow> x * w < z * y"
  by (simp add: divide_less_eq pos_less_divide_eq mult.commute)

lemma frac_less_common:
  assumes "0 < g" "0 < c" "0 < d"
  shows "rat_of_nat a / (rat_of_nat g * rat_of_nat c) < rat_of_nat b / (rat_of_nat g * rat_of_nat d)
    \<longleftrightarrow> a * d < b * c"
proof -
  have "rat_of_nat a / (rat_of_nat g * rat_of_nat c) < rat_of_nat b / (rat_of_nat g * rat_of_nat d)
      \<longleftrightarrow> rat_of_nat a * (rat_of_nat g * rat_of_nat d) < rat_of_nat b * (rat_of_nat g * rat_of_nat c)"
    using assms by (intro frac_less_eq_mult) simp_all
  also have "\<dots> \<longleftrightarrow> rat_of_nat g * rat_of_nat (a * d) < rat_of_nat g * rat_of_nat (b * c)"
    by (simp add: algebra_simps)
  also have "\<dots> \<longleftrightarrow> a * d < b * c"
    using assms by (simp only: mult_less_cancel_left_pos of_nat_0_less_iff of_nat_less_iff)
  finally show ?thesis .
qed

lemma rat_cmp_Some:
  assumes N: "numext_ok N" and va: "rat_valid a" and vb: "rat_valid b"
    and ad: "unat (r_numer a) * unat (r_denom b) < 2 ^ 256"
    and cb: "unat (r_numer b) * unat (r_denom a) < 2 ^ 256"
  shows "rat_cmp N a b =
     Some (if rat_val a < rat_val b then Less else if rat_val a = rat_val b then Equal else Greater)"
proof -
  let ?g = "gcd (unat (r_denom a)) (unat (r_denom b))"
  obtain da db where 1: "nx_div N (r_denom a) (nx_gcd N (r_denom a) (r_denom b)) = Some da"
      "nx_div N (r_denom b) (nx_gcd N (r_denom a) (r_denom b)) = Some db"
      "unat (r_denom a) = ?g * unat da" "unat (r_denom b) = ?g * unat db" "0 < ?g"
      "unat da \<le> unat (r_denom a)" "unat db \<le> unat (r_denom b)"
    using cancel_gcd [OF N, of "r_denom a" "r_denom b"] va by (auto simp: rat_valid_def)
  have la: "unat (r_numer a) * unat db < 2 ^ 256" and lb: "unat (r_numer b) * unat da < 2 ^ 256"
    using le_less_trans [OF mult_le_mono2 ad] le_less_trans [OF mult_le_mono2 cb] 1(6,7) by auto
  have ua: "unat (r_numer a * db) = unat (r_numer a) * unat db"
    and ub: "unat (r_numer b * da) = unat (r_numer b) * unat da"
    using la lb by (simp_all add: unat_mul256)
  have pos: "0 < unat da" "0 < unat db"
    using rat_validD [OF va] rat_validD [OF vb] 1(3,4) by (metis mult_0_right neq0_conv)+
  have va': "rat_val a = rat_of_nat (unat (r_numer a)) / (rat_of_nat ?g * rat_of_nat (unat da))"
    unfolding rat_val_def by (subst 1(3)) simp
  have vb': "rat_val b = rat_of_nat (unat (r_numer b)) / (rat_of_nat ?g * rat_of_nat (unat db))"
    unfolding rat_val_def by (subst 1(4)) simp
  have lt: "rat_val a < rat_val b \<longleftrightarrow> r_numer a * db < r_numer b * da"
    unfolding va' vb' word_less_nat_alt ua ub using 1(5) pos by (rule frac_less_common)
  have gt: "rat_val b < rat_val a \<longleftrightarrow> r_numer b * da < r_numer a * db"
    unfolding va' vb' word_less_nat_alt ua ub using 1(5) pos(2,1) by (rule frac_less_common)
  have eq: "rat_val a = rat_val b \<longleftrightarrow> r_numer a * db = r_numer b * da"
    using lt gt by (metis linorder_neq_iff)
  show ?thesis
    using 1 la lb by (simp add: rat_cmp_def Let_def nx_mul_exact [OF N] cmp_u256_def lt eq)
qed

lemma into_u256_Some:
  assumes N: "numext_ok N" and va: "rat_valid a"
  shows "\<exists>t. into_u256 N a = Some t \<and> int (unat t) = \<lfloor>rat_val a\<rfloor>"
proof -
  have "into_u256 N a = Some (r_numer a div r_denom a)"
    using va by (simp add: into_u256_def nx_div_exact [OF N] rat_valid_def)
  moreover have "int (unat (r_numer a div r_denom a)) = \<lfloor>rat_val a\<rfloor>"
    using floor_divide_of_nat_eq [of "unat (r_numer a)" "unat (r_denom a)", where 'a = rat]
    by (simp add: unat_div rat_val_def)
  ultimately show ?thesis by blast
qed

end
