(* ===== verification/Difficulty.thy ===== *)
theory Difficulty
  imports Rational_U256
begin

text \<open>
  Targets, difficulties and the compact representation of a target
  (\<open>util/types/src/utilities/difficulty.rs\<close>). A compact target is a \<open>u32\<close> whose upper
  byte is an exponent of base 256 and whose lower three bytes are a mantissa.
\<close>

definition HSPACE :: u512 where
  "HSPACE = 2 ^ 256"

definition target_to_difficulty :: "'z numext_scheme \<Rightarrow> u256 \<Rightarrow> u256 option" where
  "target_to_difficulty N target =
     (if target = 1 then Some (-1)
      else map_option (\<lambda>q. fst (nx_to_u256 N q)) (nx_div512 N HSPACE (fst (nx_to_u512 N target))))"

definition difficulty_to_target :: "'z numext_scheme \<Rightarrow> u256 \<Rightarrow> u256 option" where
  "difficulty_to_target N difficulty =
     (if difficulty = 1 then Some (-1)
      else map_option (\<lambda>q. fst (nx_to_u256 N q)) (nx_div512 N HSPACE (fst (nx_to_u512 N difficulty))))"

definition get_low64 :: "u256 \<Rightarrow> u64" where
  "get_low64 target = ucast target"

definition target_to_compact :: "'z numext_scheme \<Rightarrow> u256 \<Rightarrow> u32" where
  "target_to_compact N target =
     (let bits = 256 - nx_leading_zeros N target;
          exponent = (bits + 7) div 8;
          compact' = (if exponent \<le> 3 then push_bit (8 * (3 - exponent)) (get_low64 target)
                     else get_low64 (nx_shr N target (8 * (exponent - 3))))
      in ucast (or compact' (push_bit 24 (of_nat exponent))))"

definition compact_to_target :: "'z numext_scheme \<Rightarrow> u32 \<Rightarrow> u256 \<times> bool" where
  "compact_to_target N compact' =
     (let exponent = unat (drop_bit 24 compact');
          mantissa = ucast (and compact' 0x00ffffff) :: u256
      in if exponent \<le> 3
         then (let m = nx_shr N mantissa (8 * (3 - exponent)) in (m, m \<noteq> 0 \<and> 32 < exponent))
         else (nx_shl N mantissa (8 * (exponent - 3)), mantissa \<noteq> 0 \<and> 32 < exponent))"

definition compact_to_difficulty :: "'z numext_scheme \<Rightarrow> u32 \<Rightarrow> u256 option" where
  "compact_to_difficulty N compact' =
     (let (target, overflow) = compact_to_target N compact' in
      if target = 0 \<or> overflow then Some 0 else target_to_difficulty N target)"

definition difficulty_to_compact :: "'z numext_scheme \<Rightarrow> u256 \<Rightarrow> u32 option" where
  "difficulty_to_compact N difficulty =
     map_option (target_to_compact N) (difficulty_to_target N difficulty)"

section \<open>The byte length of a target\<close>

lemma bit_length_bounds:
  "n < 2 ^ bit_length n" "0 < n \<Longrightarrow> 2 ^ (bit_length n - 1) \<le> n"
proof (induction n rule: bit_length.induct)
  case (1 n)
  { case 1 then show ?case
      using 1 \<open>n \<noteq> 0 \<Longrightarrow> n div 2 < 2 ^ bit_length (n div 2)\<close>
      by (subst bit_length.simps) auto }
  { case 2 then show ?case
    proof (cases "n div 2 = 0")
      case True
      then show ?thesis using 2 by (subst bit_length.simps) (simp add: bit_length.simps [of 0])
    next
      case False
      then have "2 ^ (bit_length (n div 2) - 1) \<le> n div 2" and "bit_length (n div 2) \<noteq> 0"
        using 2 \<open>n \<noteq> 0 \<Longrightarrow> 0 < n div 2 \<Longrightarrow> _\<close> by (auto simp: bit_length.simps [of "n div 2"])
      then show ?thesis
        using 2 by (subst bit_length.simps) (cases "bit_length (n div 2)"; auto)
    qed }
qed

lemma bit_length_le: "n < 2 ^ k \<Longrightarrow> bit_length n \<le> k"
proof (rule ccontr)
  assume lt: "n < 2 ^ k" and "\<not> bit_length n \<le> k"
  then have k: "k \<le> bit_length n - 1" and "0 < n"
    by (auto simp: bit_length.simps [of n] split: if_splits)
  then have "2 ^ k \<le> n"
    using bit_length_bounds(2) [of n] power_increasing [OF k, of "2::nat"] by linarith
  then show False using lt by simp
qed

definition byte_length :: "nat \<Rightarrow> nat" where
  "byte_length n = (bit_length n + 7) div 8"

lemma byte_length_0 [simp]: "byte_length 0 = 0"
  by (simp add: byte_length_def bit_length.simps [of 0])

lemma byte_length_upper: "n < 256 ^ byte_length n"
proof -
  have "bit_length n \<le> 8 * byte_length n" by (simp add: byte_length_def)
  then have "2 ^ bit_length n \<le> (2::nat) ^ (8 * byte_length n)" by (rule power_increasing) simp
  then show ?thesis using bit_length_bounds(1) [of n] by (simp add: power_mult)
qed

lemma byte_length_lower: "0 < n \<Longrightarrow> 256 ^ (byte_length n - 1) \<le> n"
proof -
  assume n: "0 < n"
  have "8 * (byte_length n - 1) \<le> bit_length n - 1" by (simp add: byte_length_def)
  then have "(2::nat) ^ (8 * (byte_length n - 1)) \<le> 2 ^ (bit_length n - 1)"
    by (rule power_increasing) simp
  then show ?thesis using bit_length_bounds(2) [OF n] by (simp add: power_mult)
qed

lemma byte_length_u256: "byte_length (unat (t :: u256)) \<le> 32"
  using bit_length_le [of "unat t" 256] unat_bound [of t] by (simp add: byte_length_def)

section \<open>Packing and unpacking a compact target\<close>

definition mantissa_of :: "nat \<Rightarrow> nat" where
  "mantissa_of t = (if byte_length t \<le> 3 then t * 256 ^ (3 - byte_length t)
                    else t div 256 ^ (byte_length t - 3))"

lemma mantissa_of_less: "mantissa_of t < 2 ^ 24"
proof (cases "byte_length t \<le> 3")
  case True
  have "t * 256 ^ (3 - byte_length t) < 256 ^ byte_length t * 256 ^ (3 - byte_length t)"
    using byte_length_upper [of t] by simp
  also have "\<dots> = 2 ^ 24" using True by (simp flip: power_add)
  finally show ?thesis using True by (simp add: mantissa_of_def)
next
  case False
  then have "(256::nat) ^ byte_length t = 256 ^ 3 * 256 ^ (byte_length t - 3)"
    by (subst power_add [symmetric]) simp
  then have "t < 2 ^ 24 * 256 ^ (byte_length t - 3)" using byte_length_upper [of t] by simp
  then show ?thesis using False by (simp add: mantissa_of_def less_mult_imp_div_less)
qed

lemma unat_pack_compact:
  assumes "unat c < 2 ^ 24" and "e < 256"
  shows "unat (ucast (or c (push_bit 24 (of_nat e :: u64))) :: u32) = unat c + 2 ^ 24 * e"
proof -
  have e: "unat (of_nat e :: u64) = e" using assms by (simp add: unat_of_nat take_bit_eq_mod)
  have "unat (push_bit 24 (of_nat e :: u64)) = 2 ^ 24 * e"
    using assms(2) e by (subst unat_push_bit) simp_all
  moreover have "unat c + 2 ^ 24 * e < 2 ^ 32" using assms by simp
  ultimately have "unat (or c (push_bit 24 (of_nat e))) = unat c + 2 ^ 24 * e"
    using assms(1) by (simp add: or_push_bit_add unat_word_ariths)
  then show ?thesis
    using assms by (simp add: unsigned_ucast_eq take_bit_eq_mod)
qed

lemma unat_get_low64: "unat t < 2 ^ 64 \<Longrightarrow> unat (get_low64 t) = unat t"
  by (simp add: get_low64_def unsigned_ucast_eq take_bit_eq_mod)

lemma nx_bits: "numext_ok N \<Longrightarrow> 256 - nx_leading_zeros N t = bit_length (unat t)"
  using bit_length_le [of "unat t" 256] unat_bound [of t] unfolding numext_ok_def by simp

lemma nx_shr_exact: "numext_ok N \<Longrightarrow> n < 256 \<Longrightarrow> unat (nx_shr N t n) = unat t div 2 ^ n"
  unfolding numext_ok_def by (simp add: unat_drop_bit)

lemma nx_shl_exact:
  "numext_ok N \<Longrightarrow> n < 256 \<Longrightarrow> unat t * 2 ^ n < 2 ^ 256 \<Longrightarrow> unat (nx_shl N t n) = unat t * 2 ^ n"
  unfolding numext_ok_def by (simp add: unat_push_bit)

lemma unat_target_to_compact:
  assumes N: "numext_ok N"
  shows "unat (target_to_compact N t) = mantissa_of (unat t) + 2 ^ 24 * byte_length (unat t)"
proof -
  let ?e = "byte_length (unat t)"
  let ?c = "if ?e \<le> 3 then push_bit (8 * (3 - ?e)) (get_low64 t)
            else get_low64 (nx_shr N t (8 * (?e - 3)))"
  have e: "?e \<le> 32" by (rule byte_length_u256)
  have m: "mantissa_of (unat t) < 2 ^ 64" using mantissa_of_less [of "unat t"] by simp
  have c: "unat ?c = mantissa_of (unat t)"
  proof (cases "?e \<le> 3")
    case True
    then have "unat t \<le> mantissa_of (unat t)" by (simp add: mantissa_of_def)
    then have "unat t < 2 ^ 64" using m by simp
    then have l: "unat (get_low64 t) = unat t" by (rule unat_get_low64)
    have "unat (push_bit (8 * (3 - ?e)) (get_low64 t)) = unat t * 2 ^ (8 * (3 - ?e))"
      using m True l
      by (simp add: unat_push_bit mantissa_of_def power_mult)
    then show ?thesis using True by (simp add: mantissa_of_def power_mult)
  next
    case False
    then have "unat (nx_shr N t (8 * (?e - 3))) = mantissa_of (unat t)"
      using e by (simp add: nx_shr_exact [OF N] mantissa_of_def power_mult)
    then show ?thesis using False m by (simp add: unat_get_low64)
  qed
  have "target_to_compact N t = ucast (or ?c (push_bit 24 (of_nat ?e)))"
    by (simp add: target_to_compact_def Let_def nx_bits [OF N] byte_length_def)
  moreover have "unat ?c < 2 ^ 24" using c mantissa_of_less [of "unat t"] by simp
  ultimately show ?thesis using unat_pack_compact [of ?c ?e] c e by simp
qed

lemma compact_to_target_parts:
  assumes N: "numext_ok N" and c: "unat c = m + 2 ^ 24 * e" "m < 2 ^ 24" "e \<le> 32"
  shows "\<exists>t. compact_to_target N c = (t, False) \<and>
     unat t = (if e \<le> 3 then m div 256 ^ (3 - e) else m * 256 ^ (e - 3))"
proof -
  have e: "unat (drop_bit 24 c) = e" using c by (simp add: unat_drop_bit)
  have "(0x00ffffff :: u32) = mask 24" by (simp add: mask_eq_exp_minus_1)
  then have "unat (and c 0x00ffffff) = m" using c by (simp only: unat_and_mask) simp
  then have m: "unat (ucast (and c 0x00ffffff) :: u256) = m"
    using c(2) by (simp add: unsigned_ucast_eq take_bit_eq_mod)
  show ?thesis
  proof (cases "e \<le> 3")
    case True
    then show ?thesis
      using e m by (simp add: compact_to_target_def Let_def nx_shr_exact [OF N] power_mult)
  next
    case False
    have "m * 256 ^ (e - 3) < 2 ^ 24 * 256 ^ (e - 3)" using c(2) by simp
    also have "(2::nat) ^ 24 * 256 ^ (e - 3) = 2 ^ (24 + 8 * (e - 3))"
      by (simp only: power_add power_mult) simp
    also have "\<dots> \<le> (2::nat) ^ 256" using c(3) by (intro power_increasing) auto
    finally have "m * 2 ^ (8 * (e - 3)) < 2 ^ 256" by (simp add: power_mult)
    then show ?thesis
      using False e m c(3)
      by (simp add: compact_to_target_def Let_def nx_shl_exact [OF N] power_mult)
  qed
qed

text \<open>The target a compact form denotes: the leading three bytes, the others cleared.\<close>

definition leading_bytes :: "nat \<Rightarrow> nat" where
  "leading_bytes t = t div 256 ^ (byte_length t - 3) * 256 ^ (byte_length t - 3)"

lemma compact_to_target_to_compact:
  assumes N: "numext_ok N"
  shows "\<exists>t'. compact_to_target N (target_to_compact N t) = (t', False) \<and>
     unat t' = leading_bytes (unat t)"
proof -
  let ?e = "byte_length (unat t)"
  have "?e \<le> 32" by (rule byte_length_u256)
  then obtain t' where t': "compact_to_target N (target_to_compact N t) = (t', False)"
      "unat t' = (if ?e \<le> 3 then mantissa_of (unat t) div 256 ^ (3 - ?e)
                  else mantissa_of (unat t) * 256 ^ (?e - 3))"
    using compact_to_target_parts [OF N unat_target_to_compact [OF N] mantissa_of_less] by blast
  then show ?thesis by (simp add: mantissa_of_def leading_bytes_def)
qed

lemma leading_bytes_le: "leading_bytes t \<le> t"
  by (simp add: leading_bytes_def)

lemma leading_bytes_error: "(t - leading_bytes t) * 2 ^ 16 \<le> t"
proof (cases "byte_length t \<le> 3")
  case True
  then show ?thesis by (simp add: leading_bytes_def)
next
  case False
  let ?k = "byte_length t - 3"
  have "0 < t" using False by (cases "t = 0") auto
  then have "256 ^ (byte_length t - 1) \<le> t" by (rule byte_length_lower)
  moreover have "(256::nat) ^ (byte_length t - 1) = 256 ^ ?k * 2 ^ 16"
  proof -
    have "byte_length t - 1 = ?k + 2" using False by simp
    then show ?thesis by (simp add: power_add)
  qed
  moreover have "t - leading_bytes t = t mod 256 ^ ?k"
    by (simp add: leading_bytes_def minus_div_mult_eq_mod)
  moreover have "t mod 256 ^ ?k \<le> 256 ^ ?k" by (simp add: less_imp_le)
  ultimately show ?thesis
    using mult_le_mono1 [of "t mod 256 ^ ?k" "256 ^ ?k" "2 ^ 16"] by (metis order_trans)
qed

lemma byte_length_unique:
  assumes "256 ^ (e - 1) \<le> n" "n < 256 ^ e"
  shows "byte_length n = e"
proof (rule antisym)
  have n: "0 < n" using assms(1) by (metis less_le_trans zero_less_power zero_less_numeral)
  have "(256::nat) ^ (byte_length n - 1) < 256 ^ e"
    using byte_length_lower [OF n] assms(2) by (rule le_less_trans)
  then have "byte_length n - 1 < e" by (rule power_less_imp_less_exp [rotated]) simp
  then show "byte_length n \<le> e" by simp
  have "(256::nat) ^ (e - 1) < 256 ^ byte_length n"
    using assms(1) byte_length_upper [of n] by (rule le_less_trans)
  then have "e - 1 < byte_length n" by (rule power_less_imp_less_exp [rotated]) simp
  then show "e \<le> byte_length n" by simp
qed

lemma byte_length_leading_bytes: "byte_length (leading_bytes t) = byte_length t"
proof (cases "byte_length t \<le> 3")
  case True
  then show ?thesis by (simp add: leading_bytes_def)
next
  case False
  let ?e = "byte_length t" and ?k = "byte_length t - 3"
  have "0 < t" using False by (cases "t = 0") auto
  then have "256 ^ (?e - 1) \<le> t" by (rule byte_length_lower)
  moreover have "(256::nat) ^ (?e - 1) = 256 ^ 2 * 256 ^ ?k"
  proof -
    have "?e - 1 = 2 + ?k" using False by simp
    then show ?thesis by (simp only: power_add)
  qed
  ultimately have "256 ^ 2 \<le> t div 256 ^ ?k"
    by (simp add: less_eq_div_iff_mult_less_eq)
  then have "256 ^ (?e - 1) \<le> leading_bytes t"
    using \<open>_ = 256 ^ 2 * 256 ^ ?k\<close> unfolding leading_bytes_def by (metis mult_le_mono1)
  moreover have "leading_bytes t < 256 ^ ?e"
    using leading_bytes_le [of t] byte_length_upper [of t] by simp
  ultimately show ?thesis by (rule byte_length_unique)
qed

lemma mantissa_of_leading_bytes: "mantissa_of (leading_bytes t) = mantissa_of t"
  unfolding mantissa_of_def byte_length_leading_bytes by (simp add: leading_bytes_def)

lemma target_to_compact_cong:
  assumes "numext_ok N" and "unat t' = leading_bytes (unat t)"
  shows "target_to_compact N t' = target_to_compact N t"
  using assms by (intro unat_eqI)
    (simp add: unat_target_to_compact byte_length_leading_bytes mantissa_of_leading_bytes)

section \<open>Difficulties\<close>

lemma unat_HSPACE: "unat HSPACE = 2 ^ 256"
  by (simp add: HSPACE_def)

lemma hspace_quotient:
  assumes N: "numext_ok N" and t: "t \<noteq> 0" "t \<noteq> 1"
  shows "\<exists>d. map_option (\<lambda>q. fst (nx_to_u256 N q)) (nx_div512 N HSPACE (fst (nx_to_u512 N t))) = Some d
           \<and> unat d = 2 ^ 256 div unat t"
proof -
  have "unat t \<noteq> 0" "unat t \<noteq> 1" using t unat_eqI [of t 1] unat_eqI [of t 0] by auto
  then have 2: "2 \<le> unat t" by simp
  have u: "unat (ucast t :: u512) = unat t"
    using unat_bound [of t] by (simp add: unsigned_ucast_eq take_bit_eq_mod)
  then have nz: "(ucast t :: u512) \<noteq> 0" using 2 by auto
  have q: "unat (HSPACE div ucast t) = 2 ^ 256 div unat t"
    by (simp only: unat_div u unat_HSPACE)
  have "2 ^ 256 div unat t \<le> 2 ^ 256 div 2" using 2 by (intro div_le_mono2) auto
  then have lt: "2 ^ 256 div unat t < 2 ^ 256" by simp
  have "nx_div512 N HSPACE (fst (nx_to_u512 N t)) = Some (HSPACE div ucast t)"
    using N nz unfolding numext_ok_def by simp
  moreover have "nx_to_u256 N (HSPACE div ucast t) = (ucast (HSPACE div ucast t), False)"
    using N q lt unfolding numext_ok_def by metis
  moreover have "unat (ucast (HSPACE div ucast t) :: u256) = 2 ^ 256 div unat t"
    unfolding unsigned_ucast_eq q using lt by (simp add: take_bit_eq_mod)
  ultimately show ?thesis by simp
qed

lemma target_to_difficulty_Some:
  assumes "numext_ok N" and "t \<noteq> 0"
  shows "\<exists>d. target_to_difficulty N t = Some d \<and>
     unat d = (if t = 1 then 2 ^ 256 - 1 else 2 ^ 256 div unat t)"
  using hspace_quotient [OF assms] by (auto simp: target_to_difficulty_def unsigned_minus_1_eq_mask mask_eq_exp_minus_1)

lemma difficulty_to_target_Some:
  assumes "numext_ok N" and "d \<noteq> 0"
  shows "\<exists>t. difficulty_to_target N d = Some t \<and>
     unat t = (if d = 1 then 2 ^ 256 - 1 else 2 ^ 256 div unat d)"
  using hspace_quotient [OF assms] by (auto simp: difficulty_to_target_def unsigned_minus_1_eq_mask mask_eq_exp_minus_1)

lemma leading_bytes_pos: "0 < t \<Longrightarrow> 0 < leading_bytes t"
  using byte_length_leading_bytes [of t] byte_length_upper [of t]
  by (cases "leading_bytes t = 0") auto

lemma div_div_ge: "0 < d \<Longrightarrow> 0 < t \<Longrightarrow> t \<le> (h::nat) div d \<Longrightarrow> d \<le> h div t"
  by (simp add: less_eq_div_iff_mult_less_eq mult.commute)

section \<open>Properties\<close>

text \<open>
  A target survives its compact form up to its three leading bytes: decoding never
  reports an overflow, the decoded target is at most the original one and less by at most a
  65536th of it, and it has the same compact form.
\<close>

theorem compact_target_round_trip:
  assumes "numext_ok N"
  shows "\<exists>t'. compact_to_target N (target_to_compact N t) = (t', False) \<and>
     t' \<le> t \<and> (unat t - unat t') * 2 ^ 16 \<le> unat t \<and>
     target_to_compact N t' = target_to_compact N t"
proof -
  obtain t' where t': "compact_to_target N (target_to_compact N t) = (t', False)"
      "unat t' = leading_bytes (unat t)"
    using compact_to_target_to_compact [OF assms] by blast
  then show ?thesis
    using leading_bytes_le [of "unat t"] leading_bytes_error [of "unat t"]
    by (auto simp: word_le_nat_alt intro!: target_to_compact_cong [OF assms])
qed

theorem compact_target_round_trip_witness:
  "\<exists>t'. compact_to_target numext_word (target_to_compact numext_word 0x123456789a) = (t', False) \<and>
     t' \<le> 0x123456789a \<and> (unat (0x123456789a :: u256) - unat t') * 2 ^ 16 \<le> unat (0x123456789a :: u256) \<and>
     target_to_compact numext_word t' = target_to_compact numext_word 0x123456789a"
  by (rule compact_target_round_trip [OF numext_word_ok])

text \<open>
  C38. Storing a positive difficulty in compact form and reading it back never panics and
  never yields a lower difficulty.
\<close>

theorem difficulty_round_trip_ge:
  assumes "numext_ok N" and "d \<noteq> 0"
  shows "\<exists>c d'. difficulty_to_compact N d = Some c \<and> compact_to_difficulty N c = Some d' \<and> d \<le> d'"
proof -
  obtain t where t: "difficulty_to_target N d = Some t"
      "unat t = (if d = 1 then 2 ^ 256 - 1 else 2 ^ 256 div unat d)"
    using difficulty_to_target_Some [OF assms] by blast
  obtain t' where t': "compact_to_target N (target_to_compact N t) = (t', False)"
      "unat t' = leading_bytes (unat t)"
    using compact_to_target_to_compact [OF assms(1)] by blast
  have dpos: "0 < unat d" using assms(2) by (simp add: unat_gt_0)
  have tle: "unat t \<le> 2 ^ 256 div unat d" using t(2) by auto
  have "unat d \<le> 2 ^ 256" using unat_bound [of d] by simp
  then have "0 < unat t" using t(2) dpos by (auto simp: div_greater_zero_iff)
  then have pos: "0 < unat t'" using t'(2) leading_bytes_pos by simp
  then have nz: "t' \<noteq> 0" by auto
  obtain d' where d': "target_to_difficulty N t' = Some d'"
      "unat d' = (if t' = 1 then 2 ^ 256 - 1 else 2 ^ 256 div unat t')"
    using target_to_difficulty_Some [OF assms(1) nz] by blast
  have "unat t' \<le> 2 ^ 256 div unat d"
    unfolding t'(2) by (rule le_trans [OF leading_bytes_le tle])
  then have "unat d \<le> 2 ^ 256 div unat t'" by (rule div_div_ge [OF dpos pos])
  moreover have "unat d \<le> 2 ^ 256 - 1" using unat_bound [of d] by simp
  ultimately have "unat d \<le> unat d'" unfolding d'(2) by presburger
  then have "d \<le> d'" by (simp add: word_le_nat_alt)
  then show ?thesis
    using t(1) t'(1) d'(1) nz by (simp add: difficulty_to_compact_def compact_to_difficulty_def)
qed

theorem difficulty_round_trip_ge_witness:
  "\<exists>c d'. difficulty_to_compact numext_word 1000 = Some c \<and>
     compact_to_difficulty numext_word c = Some d' \<and> 1000 \<le> d'"
  by (rule difficulty_round_trip_ge [OF numext_word_ok]) simp

end
