(* ===== verification/Chain_Types.thy ===== *)
theory Chain_Types
  imports Capacity_Units Difficulty
begin

text \<open>
  The data of the chain: the types of \<open>util/types/schemas/blockchain.mol\<close> as records, the
  views that carry cached hashes (\<open>util/types/src/core/views.rs\<close>) as record extensions,
  and the small operations of \<open>util/types/src/extension/{shortcuts,capacity,check_data}.rs\<close>.
  A view extends the record of its data, so the getters of a view are the selectors of its
  data. The byte-level representation of the records is in the theory \<open>Molecule\<close>.

  The record \<open>ext\<close> extends \<open>numext\<close> with the other functions of crates outside the
  repository that the code calls: the Blake2b and Eaglesong digests, the numbers and the byte
  of the \<open>molecule\<close> runtime (reading a number from a short slice panics, the value
  \<open>None\<close>), the big-endian reading of a \<open>U256\<close>, and the complete binary Merkle tree. The errors of the runtime are those the generated code
  raises.
\<close>

datatype verification_error =
    HeaderIsBroken nat nat
  | TotalSizeNotMatch nat nat
  | OffsetsNotMatch
  | FieldCountNotMatch nat nat

record ext = numext +
  x_blake2b :: "bytes \<Rightarrow> byte32"
  x_pack_number :: "u32 \<Rightarrow> bytes"
  x_unpack_number :: "bytes \<Rightarrow> u32 option"
  x_byte_verify :: "bytes \<Rightarrow> (unit, verification_error) outcome"
  x_eaglesong :: "bytes \<Rightarrow> bytes"
  x_u256_from_big_endian :: "bytes \<Rightarrow> u256 option"
  x_build_merkle_root :: "(byte32 \<Rightarrow> byte32 \<Rightarrow> byte32) \<Rightarrow> byte32 list \<Rightarrow> byte32"

section \<open>Packed types\<close>

record script =
  sc_code_hash :: byte32
  sc_hash_type :: u8
  sc_args :: bytes

record out_point =
  op_tx_hash :: byte32
  op_index :: u32

record cell_input =
  ci_since :: u64
  ci_previous_output :: out_point

record cell_output =
  co_capacity :: capacity
  co_lock :: script
  co_type :: "script option"

record cell_dep =
  cd_out_point :: out_point
  cd_dep_type :: u8

record raw_transaction =
  tx_version :: u32
  tx_cell_deps :: "cell_dep list"
  tx_header_deps :: "byte32 list"
  tx_inputs :: "cell_input list"
  tx_outputs :: "cell_output list"
  tx_outputs_data :: "bytes list"

record transaction = raw_transaction +
  tx_witnesses :: "bytes list"

record raw_header =
  h_version :: u32
  h_compact_target :: u32
  h_timestamp :: u64
  h_number :: u64
  h_epoch :: u64
  h_parent_hash :: byte32
  h_transactions_root :: byte32
  h_proposals_hash :: byte32
  h_uncles_hash :: byte32
  h_dao :: byte32

record header = raw_header +
  h_nonce :: u128

type_synonym proposal_short_id = "u8 list"

record uncle_block =
  ub_header :: header
  ub_proposals :: "proposal_short_id list"

record block =
  b_header :: header
  b_uncles :: "uncle_block list"
  b_transactions :: "transaction list"
  b_proposals :: "proposal_short_id list"

record cellbase_witness =
  cw_lock :: script
  cw_message :: bytes

record witness_args =
  wa_lock :: "bytes option"
  wa_input_type :: "bytes option"
  wa_output_type :: "bytes option"

section \<open>Views\<close>

record transaction_view = transaction +
  tx_hash :: byte32
  tx_witness_hash :: byte32

record header_view = header +
  h_hash :: byte32

record uncle_block_view = uncle_block +
  uv_hash :: byte32

record block_view = block +
  bv_hash :: byte32
  bv_uncle_hashes :: "byte32 list"
  bv_tx_hashes :: "byte32 list"
  bv_tx_witness_hashes :: "byte32 list"

definition tx_view :: "transaction \<Rightarrow> byte32 \<Rightarrow> byte32 \<Rightarrow> transaction_view" where
  "tx_view d h w = transaction.extend d \<lparr>tx_hash = h, tx_witness_hash = w\<rparr>"

definition header_view_of :: "header \<Rightarrow> byte32 \<Rightarrow> header_view" where
  "header_view_of d h = header.extend d \<lparr>h_hash = h\<rparr>"

definition uncle_view_of :: "uncle_block \<Rightarrow> byte32 \<Rightarrow> uncle_block_view" where
  "uncle_view_of d h = uncle_block.extend d \<lparr>uv_hash = h\<rparr>"

definition bv_header :: "block_view \<Rightarrow> header_view" where
  "bv_header b = header_view_of (b_header b) (bv_hash b)"

definition uv_header :: "uncle_block_view \<Rightarrow> header_view" where
  "uv_header u = header_view_of (ub_header u) (uv_hash u)"

definition bv_uncles :: "block_view \<Rightarrow> uncle_block_view list" where
  "bv_uncles b = map (\<lambda>(d, h). uncle_view_of d h) (zip (b_uncles b) (bv_uncle_hashes b))"

definition bv_as_uncle :: "block_view \<Rightarrow> uncle_block_view" where
  "bv_as_uncle b =
     uncle_view_of \<lparr>ub_header = b_header b, ub_proposals = b_proposals b\<rparr> (bv_hash b)"

definition bv_transactions :: "block_view \<Rightarrow> transaction_view list" where
  "bv_transactions b =
     map (\<lambda>((d, h), w). tx_view d h w)
       (zip (zip (b_transactions b) (bv_tx_hashes b)) (bv_tx_witness_hashes b))"

definition union_proposal_ids_iter :: "block_view \<Rightarrow> proposal_short_id list" where
  "union_proposal_ids_iter b = b_proposals b @ concat (map ub_proposals (b_uncles b))"

definition union_proposal_ids :: "block_view \<Rightarrow> proposal_short_id set" where
  "union_proposal_ids b = set (union_proposal_ids_iter b)"

definition bv_number :: "'a block_scheme \<Rightarrow> u64" where
  "bv_number b = h_number (b_header b)"

definition bv_is_genesis :: "block_view \<Rightarrow> bool" where
  "bv_is_genesis b \<longleftrightarrow> bv_number b = 0"

section \<open>Shortcuts\<close>

definition byte32_zero :: byte32 where
  "byte32_zero = replicate 32 0"

definition byte32_is_zero :: "byte32 \<Rightarrow> bool" where
  "byte32_is_zero h \<longleftrightarrow> list_all (\<lambda>x. x = 0) h"

definition proposal_short_id_from_tx_hash :: "byte32 \<Rightarrow> proposal_short_id" where
  "proposal_short_id_from_tx_hash h = take 10 h"

definition proposal_short_id :: "transaction_view \<Rightarrow> proposal_short_id" where
  "proposal_short_id tx = proposal_short_id_from_tx_hash (tx_hash tx)"

definition out_point_new :: "byte32 \<Rightarrow> u32 \<Rightarrow> out_point" where
  "out_point_new h i = \<lparr>op_tx_hash = h, op_index = i\<rparr>"

definition out_point_null :: out_point where
  "out_point_null = \<lparr>op_tx_hash = byte32_zero, op_index = -1\<rparr>"

definition out_point_is_null :: "out_point \<Rightarrow> bool" where
  "out_point_is_null p \<longleftrightarrow> byte32_is_zero (op_tx_hash p) \<and> op_index p = -1"

definition cell_input_new :: "out_point \<Rightarrow> u64 \<Rightarrow> cell_input" where
  "cell_input_new p n = \<lparr>ci_since = n, ci_previous_output = p\<rparr>"

definition new_cellbase_input :: "u64 \<Rightarrow> cell_input" where
  "new_cellbase_input n = cell_input_new out_point_null n"

definition tx_is_cellbase :: "'a transaction_scheme \<Rightarrow> bool" where
  "tx_is_cellbase tx \<longleftrightarrow>
     length (tx_inputs tx) = 1 \<and> length (tx_witnesses tx) = 1 \<and>
     out_point_is_null (ci_previous_output (tx_inputs tx ! 0))"

definition raw_header_difficulty :: "'z numext_scheme \<Rightarrow> 'a raw_header_scheme \<Rightarrow> u256 option" where
  "raw_header_difficulty N h = compact_to_difficulty N (h_compact_target h)"

definition output_pts :: "transaction_view \<Rightarrow> out_point list" where
  "output_pts tx = map (\<lambda>i. out_point_new (tx_hash tx) (of_nat i)) [0..<length (tx_outputs tx)]"

definition input_pts :: "transaction_view \<Rightarrow> out_point list" where
  "input_pts tx = map ci_previous_output (tx_inputs tx)"

definition output_with_data ::
  "transaction_view \<Rightarrow> nat \<Rightarrow> ((cell_output \<times> bytes) option, 'e) outcome" where
  "output_with_data tx i =
     (case vec_get (tx_outputs tx) i of
        None \<Rightarrow> Ok None
      | Some out \<Rightarrow> tryq (expect (vec_get (tx_outputs_data tx) i)) (\<lambda>d. Ok (Some (out, d))))"

definition outputs_with_data :: "transaction_view \<Rightarrow> (cell_output \<times> bytes) list" where
  "outputs_with_data tx = zip (tx_outputs tx) (tx_outputs_data tx)"

section \<open>Capacities of cells\<close>

definition script_occupied_capacity :: "script \<Rightarrow> capacity capacity_result" where
  "script_occupied_capacity s = capacity_bytes (length (sc_args s) + 32 + 1)"

definition cell_occupied_capacity :: "cell_output \<Rightarrow> capacity \<Rightarrow> capacity capacity_result" where
  "cell_occupied_capacity out data_capacity =
     tryq (capacity_bytes 8) (\<lambda>x.
     tryq (safe_add x data_capacity) (\<lambda>x.
     tryq (script_occupied_capacity (co_lock out)) (\<lambda>y.
     tryq (safe_add y x) (\<lambda>x.
     tryq (case co_type out of None \<Rightarrow> Ok 0 | Some t \<Rightarrow> script_occupied_capacity t) (\<lambda>y.
     safe_add y x)))))"

definition is_lack_of_capacity :: "cell_output \<Rightarrow> capacity \<Rightarrow> bool capacity_result" where
  "is_lack_of_capacity out data_capacity =
     map_ok (\<lambda>cap. co_capacity out < cap) (cell_occupied_capacity out data_capacity)"

definition total_capacity :: "cell_output list \<Rightarrow> capacity capacity_result" where
  "total_capacity outs = try_fold safe_add 0 (map co_capacity outs)"

definition outputs_capacity :: "'a raw_transaction_scheme \<Rightarrow> capacity capacity_result" where
  "outputs_capacity tx = total_capacity (tx_outputs tx)"

section \<open>Data checks\<close>

definition script_hash_type_verify_value :: "u8 \<Rightarrow> bool" where
  "script_hash_type_verify_value v \<longleftrightarrow> v \<le> 1"

definition dep_type_verify_value :: "u8 \<Rightarrow> bool" where
  "dep_type_verify_value v \<longleftrightarrow> v \<le> 1"

definition script_check_data :: "script \<Rightarrow> bool" where
  "script_check_data s \<longleftrightarrow> script_hash_type_verify_value (sc_hash_type s)"

definition script_opt_check_data :: "script option \<Rightarrow> bool" where
  "script_opt_check_data s \<longleftrightarrow>
     (case s of None \<Rightarrow> True | Some i \<Rightarrow> script_hash_type_verify_value (sc_hash_type i))"

definition cell_output_check_data :: "cell_output \<Rightarrow> bool" where
  "cell_output_check_data out \<longleftrightarrow>
     script_check_data (co_lock out) \<and> script_opt_check_data (co_type out)"

definition cell_dep_check_data :: "cell_dep \<Rightarrow> bool" where
  "cell_dep_check_data d \<longleftrightarrow> dep_type_verify_value (cd_dep_type d)"

definition tx_check_data :: "'a raw_transaction_scheme \<Rightarrow> bool" where
  "tx_check_data tx \<longleftrightarrow>
     length (tx_outputs tx) = length (tx_outputs_data tx) \<and>
     list_all cell_dep_check_data (tx_cell_deps tx) \<and>
     list_all cell_output_check_data (tx_outputs tx)"

definition block_check_data :: "'a block_scheme \<Rightarrow> bool" where
  "block_check_data b \<longleftrightarrow> list_all tx_check_data (b_transactions b)"

section \<open>Lemmas\<close>

lemma tx_view_sel [simp]:
  "tx_hash (tx_view d h w) = h" "tx_witness_hash (tx_view d h w) = w"
  "tx_version (tx_view d h w) = tx_version d" "tx_inputs (tx_view d h w) = tx_inputs d"
  "tx_outputs (tx_view d h w) = tx_outputs d" "tx_outputs_data (tx_view d h w) = tx_outputs_data d"
  "tx_cell_deps (tx_view d h w) = tx_cell_deps d" "tx_header_deps (tx_view d h w) = tx_header_deps d"
  "tx_witnesses (tx_view d h w) = tx_witnesses d" "transaction.truncate (tx_view d h w) = d"
  by (simp_all add: tx_view_def transaction.defs)

lemma header_view_of_sel [simp]:
  "h_hash (header_view_of d h) = h" "h_version (header_view_of d h) = h_version d"
  "h_compact_target (header_view_of d h) = h_compact_target d"
  "h_timestamp (header_view_of d h) = h_timestamp d" "h_number (header_view_of d h) = h_number d"
  "h_epoch (header_view_of d h) = h_epoch d" "h_parent_hash (header_view_of d h) = h_parent_hash d"
  "h_transactions_root (header_view_of d h) = h_transactions_root d"
  "h_proposals_hash (header_view_of d h) = h_proposals_hash d"
  "h_uncles_hash (header_view_of d h) = h_uncles_hash d" "h_dao (header_view_of d h) = h_dao d"
  "h_nonce (header_view_of d h) = h_nonce d" "header.truncate (header_view_of d h) = d"
  by (simp_all add: header_view_of_def header.defs)

lemma uncle_view_of_sel [simp]:
  "uv_hash (uncle_view_of d h) = h" "ub_header (uncle_view_of d h) = ub_header d"
  "ub_proposals (uncle_view_of d h) = ub_proposals d"
  by (simp_all add: uncle_view_of_def uncle_block.defs)

lemma total_capacity_eq_Ok:
  "total_capacity outs = Ok c \<Longrightarrow> unat c = sum_list (map (\<lambda>out. unat (co_capacity out)) outs)"
  by (auto simp: total_capacity_def o_def dest!: cap.try_fold_sum)

lemma total_capacity_Ok_iff:
  "(\<exists>c. total_capacity outs = Ok c) \<longleftrightarrow> sum_list (map (\<lambda>out. unat (co_capacity out)) outs) < 2 ^ 64"
  using cap.try_fold_Ok_iff [of 0 "map co_capacity outs"] by (simp add: total_capacity_def o_def)

end
