(* ===== verification/Ckb_Errors.thy ===== *)
theory Ckb_Errors
  imports Chain_Types
begin

text \<open>
  The errors of the node. \<open>ckb_error\<close> mirrors \<open>Error\<close> of \<open>error/src/lib.rs\<close>: its
  constructors are the kinds of \<open>ErrorKind\<close> that the modelled code produces, each carrying
  the error that the code gives as the cause. The conversions of \<open>verification/src/convert.rs\<close>
  and \<open>error/src/convert.rs\<close> are the constructors and \<open>capacity_err\<close>.
\<close>

datatype out_point_error =
    Dead out_point
  | Unknown "out_point list"
  | OutOfOrder out_point
  | InvalidDepGroup out_point
  | InvalidHeader byte32
  | ImmatureHeader byte32

datatype transaction_error =
    InsufficientCellCapacity
  | OutputsSumOverflow
  | TxEmpty
  | DuplicateDeps
  | OutputsDataLengthMismatch
  | OutputDataHashMismatch
  | InvalidSince
  | Immature
  | CellbaseImmaturity
  | MismatchedVersion
  | TxExceededMaximumBlockBytes

datatype script_error =
    InvalidCodeHash
  | ScriptExceededMaximumCycles
  | MultipleMatches
  | ValidationFailure "8 word"
  | EncounteredKnownBugs string nat

datatype pow_error =
    Boundary byte32 byte32
  | InvalidNonce

datatype timestamp_error =
    BlockTimeTooOld (too_old_min: u64) (too_old_actual: u64)
  | BlockTimeTooNew (too_new_max: u64) (too_new_actual: u64)

datatype epoch_error =
    TargetMismatch u32 u32
  | NumberMismatch u64 u64

datatype header_error =
    InvalidParentError byte32
  | PowError pow_error
  | TimestampError timestamp_error
  | NumberError u64 u64
  | EpochError epoch_error

datatype commit_error = AncestorNotFound | CommitInvalid

datatype cellbase_error =
    InvalidInput
  | InvalidRewardAmount
  | InvalidRewardTarget
  | InvalidWitness
  | InvalidTypeScript
  | InvalidOutputQuantity
  | InvalidQuantity
  | InvalidPosition
  | InvalidOutputData

datatype uncles_error =
    OverCount u32 u32
  | InvalidDepth u64 u64 u64
  | InvalidHash byte32 byte32
  | InvalidNumber
  | InvalidTarget
  | InvalidDifficultyEpoch
  | ProposalsHash
  | ProposalDuplicate
  | Duplicate byte32
  | DoubleInclusion byte32
  | DescendantLimit
  | UncleExceededMaximumProposalsLimit

datatype block_error_kind =
    ProposalTransactionDuplicate
  | CommitTransactionDuplicate
  | ProposalTransactionsHash
  | TransactionsRoot
  | InvalidDAO
  | ExceededMaximumProposalsLimit
  | ExceededMaximumCycles
  | ExceededMaximumBlockBytes
  | BlockVersion

datatype internal_error = CapacityOverflow | DataCorrupted | Database | VM | System

datatype dao_error =
    DaoInvalidHeader
  | DaoInvalidOutPoint
  | InvalidDaoFormat
  | DaoOverflow
  | ZeroC

datatype ckb_error =
    OutPoint out_point_error
  | Transaction transaction_error
  | Script script_error
  | Header header_error
  | Block block_error
  | Internal internal_error
  | DaoErr dao_error
and block_error =
    BlockErr block_error_kind
  | BlockTransactionsError nat ckb_error
  | UnknownParentError byte32
  | CommitError commit_error
  | CellbaseError cellbase_error
  | UnclesError uncles_error

type_synonym 'a result = "('a, ckb_error) outcome"

text \<open>\<open>From<ckb_occupied_capacity::Error>\<close>.\<close>

fun capacity_err :: "capacity_error \<Rightarrow> ckb_error" where
  "capacity_err Overflow = Internal CapacityOverflow"

fun is_malformed_tx :: "transaction_error \<Rightarrow> bool" where
  "is_malformed_tx OutputsSumOverflow = True"
| "is_malformed_tx DuplicateDeps = True"
| "is_malformed_tx TxEmpty = True"
| "is_malformed_tx InsufficientCellCapacity = True"
| "is_malformed_tx InvalidSince = True"
| "is_malformed_tx TxExceededMaximumBlockBytes = True"
| "is_malformed_tx OutputsDataLengthMismatch = True"
| "is_malformed_tx OutputDataHashMismatch = True"
| "is_malformed_tx Immature = False"
| "is_malformed_tx CellbaseImmaturity = False"
| "is_malformed_tx MismatchedVersion = False"

text \<open>A capacity computation under \<open>?\<close> in a function that returns the node's error.\<close>

definition cap_result :: "'a capacity_result \<Rightarrow> 'a result" where
  "cap_result r = map_err capacity_err r"

lemma cap_result_eq_Ok [outcome_simps]: "cap_result r = Ok x \<longleftrightarrow> r = Ok x"
  by (simp add: cap_result_def outcome_simps)

lemma cap_result_eq_Panic [outcome_simps]: "cap_result r = Panic \<longleftrightarrow> r = Panic"
  by (simp add: cap_result_def outcome_simps)

lemma cap_result_Ok [simp]: "cap_result (Ok x) = Ok x"
  by (simp add: cap_result_def)

text \<open>Sums of capacities in functions that return the node's error, with both orders of the operands.\<close>

lemma cap_result_eq_Err [outcome_simps]: "cap_result r = Err e \<longleftrightarrow> (\<exists>d. r = Err d \<and> e = capacity_err d)"
  by (simp add: cap_result_def outcome_simps)

interpretation rcap: checked_adder "\<lambda>a b. cap_result (safe_add a b)" unat "2 ^ 64"
proof
  fix a b c :: capacity
  show "cap_result (safe_add a b) = Ok c \<Longrightarrow> unat c = unat a + unat b" by (simp add: cap_result_eq_Ok cap.add_Ok)
  show "unat a + unat b < 2 ^ 64 \<Longrightarrow> \<exists>c. cap_result (safe_add a b) = Ok c" using cap.add_fits [of a b] by (simp add: cap_result_eq_Ok)
  show "unat a < 2 ^ 64" by (rule cap.amount_cap)
qed

interpretation rcap_flip: checked_adder "\<lambda>a b. cap_result (safe_add b a)" unat "2 ^ 64"
proof
  fix a b c :: capacity
  show "cap_result (safe_add b a) = Ok c \<Longrightarrow> unat c = unat a + unat b" using rcap.add_Ok [of b a c] by simp
  show "unat a + unat b < 2 ^ 64 \<Longrightarrow> \<exists>c. cap_result (safe_add b a) = Ok c" using rcap.add_fits [of b a] by (simp add: add.commute)
  show "unat a < 2 ^ 64" by (rule cap.amount_cap)
qed

end
