(* ===== verification/Epoch.thy ===== *)
theory Epoch
  imports Ckb_Errors
begin

text \<open>
  Epochs (\<open>util/types/src/core/extras.rs\<close>): \<open>EpochNumberWithFraction\<close>, a position inside an
  epoch packed in 64 bits, with its order and its conversion to a rational, and
  \<open>EpochExt\<close>, the parameters of an epoch with the block rewards and issuances it fixes.
  \<open>None\<close> stands for a panic of the \<open>U256\<close> arithmetic.
\<close>

section \<open>Epoch numbers with fraction\<close>

type_synonym epoch_fraction = u64

definition NUMBER_MASK :: u64 where "NUMBER_MASK = push_bit 24 1 - 1"
definition INDEX_MASK :: u64 where "INDEX_MASK = push_bit 16 1 - 1"
definition LENGTH_MASK :: u64 where "LENGTH_MASK = push_bit 16 1 - 1"

definition ef_new_unchecked :: "u64 \<Rightarrow> u64 \<Rightarrow> u64 \<Rightarrow> epoch_fraction" where
  "ef_new_unchecked number index len = or (or (push_bit 40 len) (push_bit 24 index)) (push_bit 0 number)"

definition ef_new :: "u64 \<Rightarrow> u64 \<Rightarrow> u64 \<Rightarrow> epoch_fraction" where
  "ef_new number index len = ef_new_unchecked number index len"

definition ef_number :: "epoch_fraction \<Rightarrow> u64" where
  "ef_number e = and (drop_bit 0 e) NUMBER_MASK"

definition ef_index :: "epoch_fraction \<Rightarrow> u64" where
  "ef_index e = and (drop_bit 24 e) INDEX_MASK"

definition ef_length :: "epoch_fraction \<Rightarrow> u64" where
  "ef_length e = and (drop_bit 40 e) LENGTH_MASK"

definition ef_from_full_value :: "u64 \<Rightarrow> epoch_fraction" where
  "ef_from_full_value v = (if ef_length v = 0 then ef_new (ef_number v) 0 1 else v)"

definition cmp_u64 :: "u64 \<Rightarrow> u64 \<Rightarrow> ordering" where
  "cmp_u64 a b = (if a < b then Less else if a = b then Equal else Greater)"

definition ef_cmp :: "epoch_fraction \<Rightarrow> epoch_fraction \<Rightarrow> ordering option" where
  "ef_cmp a b =
     (case cmp_u64 (ef_number a) (ef_number b) of
        Less \<Rightarrow> Some Less
      | Greater \<Rightarrow> Some Greater
      | Equal \<Rightarrow> do {
          x \<leftarrow> checked_mul (ef_index a) (ef_length b);
          y \<leftarrow> checked_mul (ef_index b) (ef_length a);
          Some (cmp_u64 x y) })"

definition ef_to_rational :: "'z numext_scheme \<Rightarrow> epoch_fraction \<Rightarrow> rational_u256 option" where
  "ef_to_rational N e = do {
     r \<leftarrow> rat_new N (ucast (ef_index e)) (ucast (ef_length e));
     rat_add_u256 N r (ucast (ef_number e)) }"

section \<open>Epoch parameters\<close>

record epoch_ext =
  ee_number :: u64
  ee_base_block_reward :: capacity
  ee_remainder_reward :: capacity
  ee_previous_epoch_hash_rate :: u256
  ee_last_block_hash_in_previous_epoch :: byte32
  ee_start_number :: u64
  ee_length :: u64
  ee_compact_target :: u32

definition ee_primary_reward :: "epoch_ext \<Rightarrow> capacity result" where
  "ee_primary_reward e =
     tryq (p_mul (ee_base_block_reward e) (ee_length e)) (\<lambda>p. p_add p (ee_remainder_reward e))"

definition ee_set_primary_reward :: "epoch_ext \<Rightarrow> capacity \<Rightarrow> epoch_ext result" where
  "ee_set_primary_reward e primary_reward =
     tryq (p_div primary_reward (ee_length e)) (\<lambda>b.
     tryq (p_mod primary_reward (ee_length e)) (\<lambda>r.
     Ok (e\<lparr>ee_base_block_reward := b, ee_remainder_reward := r\<rparr>)))"

definition ee_is_genesis :: "epoch_ext \<Rightarrow> bool" where
  "ee_is_genesis e \<longleftrightarrow> ee_number e = 0"

definition ee_block_reward :: "epoch_ext \<Rightarrow> u64 \<Rightarrow> capacity result" where
  "ee_block_reward e number =
     (if ee_start_number e \<le> number then
        tryq (p_add (ee_start_number e) (ee_remainder_reward e)) (\<lambda>bound.
        if number < bound then cap_result (safe_add (ee_base_block_reward e) 1)
        else Ok (ee_base_block_reward e))
      else Ok (ee_base_block_reward e))"

definition ee_number_with_fraction :: "epoch_ext \<Rightarrow> u64 \<Rightarrow> epoch_fraction result" where
  "ee_number_with_fraction e number =
     tryq (p_sub number (ee_start_number e)) (\<lambda>i. Ok (ef_new (ee_number e) i (ee_length e)))"

definition ee_secondary_block_issuance :: "epoch_ext \<Rightarrow> u64 \<Rightarrow> capacity \<Rightarrow> capacity result" where
  "ee_secondary_block_issuance e block_number secondary_epoch_issuance =
     tryq (p_div secondary_epoch_issuance (ee_length e)) (\<lambda>g2.
     tryq (p_mod secondary_epoch_issuance (ee_length e)) (\<lambda>remainder.
     if ee_start_number e \<le> block_number then
       tryq (p_add (ee_start_number e) remainder) (\<lambda>bound.
       if block_number < bound then cap_result (safe_add g2 1) else Ok g2)
     else Ok g2))"

section \<open>The fields of an epoch number\<close>

lemma masks: "NUMBER_MASK = mask 24" "INDEX_MASK = mask 16" "LENGTH_MASK = mask 16"
  by (simp_all add: NUMBER_MASK_def INDEX_MASK_def LENGTH_MASK_def mask_eq_exp_minus_1 push_bit_of_1)

lemma unat_ef_fields:
  "unat (ef_number e) = unat e mod 2 ^ 24"
  "unat (ef_index e) = unat e div 2 ^ 24 mod 2 ^ 16"
  "unat (ef_length e) = unat e div 2 ^ 40 mod 2 ^ 16"
  by (simp_all only: ef_number_def ef_index_def ef_length_def masks unat_and_mask unat_drop_bit) simp_all

lemma ef_field_bounds:
  "unat (ef_number e) < 2 ^ 24" "unat (ef_index e) < 2 ^ 16" "unat (ef_length e) < 2 ^ 16"
  by (simp_all add: unat_ef_fields)

lemma unat_ef_new:
  assumes "unat number < 2 ^ 24" "unat index < 2 ^ 16" "unat len < 2 ^ 16"
  shows "unat (ef_new number index len) = unat number + (unat index + unat len * 2 ^ 16) * 2 ^ 24"
proof -
  have i: "unat (push_bit 24 index) = unat index * 2 ^ 24"
    using assms(2) by (intro unat_push_bit) simp
  have l: "unat (push_bit 16 len) = unat len * 2 ^ 16"
    using assms(3) by (intro unat_push_bit) simp
  have il: "or index (push_bit 16 len) = index + push_bit 16 len"
    using assms(2) by (rule or_push_bit_add)
  have uil: "unat (index + push_bit 16 len) = unat index + unat len * 2 ^ 16"
    using assms l by (simp add: unat_word_ariths)
  have "or (push_bit 40 len) (push_bit 24 index) = push_bit 24 (or index (push_bit 16 len))"
    by (simp add: push_bit_or or.commute)
  then have "ef_new number index len = or number (push_bit 24 (or index (push_bit 16 len)))"
    by (simp add: ef_new_def ef_new_unchecked_def or.commute)
  also have "\<dots> = number + push_bit 24 (index + push_bit 16 len)"
    unfolding il using assms(1) by (rule or_push_bit_add)
  finally show ?thesis
    using assms uil by (simp add: unat_word_ariths unat_push_bit)
qed

lemma low_digit: "a < k \<Longrightarrow> (a + b * k) mod k = (a::nat)"
  by simp

lemma high_digits: "a < k \<Longrightarrow> (a + b * k) div k = (b::nat)"
  by simp

lemma ef_fields_new:
  assumes "unat number < 2 ^ 24" "unat index < 2 ^ 16" "unat len < 2 ^ 16"
  shows "ef_number (ef_new number index len) = number"
    and "ef_index (ef_new number index len) = index"
    and "ef_length (ef_new number index len) = len"
proof -
  let ?e = "unat number + (unat index + unat len * 2 ^ 16) * 2 ^ 24"
  have "?e mod 2 ^ 24 = unat number" using assms(1) by (rule low_digit)
  moreover have d: "?e div 2 ^ 24 = unat index + unat len * 2 ^ 16" using assms(1) by (rule high_digits)
  moreover have "(unat index + unat len * 2 ^ 16) mod 2 ^ 16 = unat index" using assms(2) by (rule low_digit)
  moreover have "?e div 2 ^ 40 = unat len"
  proof -
    have "?e div 2 ^ 40 = ?e div 2 ^ 24 div 2 ^ 16" by (simp only: div_mult2_eq [symmetric]) simp
    then show ?thesis unfolding d using assms(2) by (simp only: high_digits)
  qed
  ultimately show "ef_number (ef_new number index len) = number"
    "ef_index (ef_new number index len) = index" "ef_length (ef_new number index len) = len"
    using assms(3) by (intro unat_eqI; simp only: unat_ef_fields unat_ef_new [OF assms] mod_less)+
qed

section \<open>The position an epoch number denotes\<close>

definition ef_val :: "epoch_fraction \<Rightarrow> rat" where
  "ef_val e = rat_of_nat (unat (ef_number e)) +
     rat_of_nat (unat (ef_index e)) / rat_of_nat (unat (ef_length e))"

lemma unat_ucast_256 [simp]: "unat (ucast (x :: u64) :: u256) = unat x"
  using unat_bound [of x] by (simp add: unsigned_ucast_eq take_bit_eq_mod)

lemma ucast_256_eq_0 [simp]: "(ucast (x :: u64) :: u256) = 0 \<longleftrightarrow> x = 0"
proof -
  have "(ucast x :: u256) = 0 \<longleftrightarrow> unat (ucast x :: u256) = 0" by (simp only: unat_eq_zero)
  then show ?thesis by (simp add: unat_eq_zero)
qed

lemma ef_to_rational_Some:
  assumes N: "numext_ok N" and nz: "ef_length e \<noteq> 0"
  shows "\<exists>r. ef_to_rational N e = Some r \<and> rat_valid r \<and> rat_val r = ef_val e \<and>
     unat (r_numer r) < 2 ^ 41 \<and> unat (r_denom r) < 2 ^ 16"
proof -
  have nz': "(ucast (ef_length e) :: u256) \<noteq> 0" using nz by simp
  obtain r where r: "rat_new N (ucast (ef_index e)) (ucast (ef_length e)) = Some r" "rat_valid r"
      "rat_val r = rat_of_nat (unat (ef_index e)) / rat_of_nat (unat (ef_length e))"
      "unat (r_numer r) \<le> unat (ef_index e)" "unat (r_denom r) \<le> unat (ef_length e)"
    using rat_new_Some [OF N nz', of "ucast (ef_index e)"] by auto
  have b: "unat (r_numer r) < 2 ^ 16" "unat (r_denom r) < 2 ^ 16"
    using le_less_trans [OF r(4)] le_less_trans [OF r(5)] ef_field_bounds [of e] by blast+
  have m: "unat (r_denom r) * unat (ef_number e) \<le> 2 ^ 16 * 2 ^ 24"
    using b(2) ef_field_bounds(1) [of e] by (intro mult_le_mono) simp_all
  then have sum: "unat (r_numer r) + unat (r_denom r) * unat (ef_number e) < 2 ^ 41"
    using b(1) by simp
  then have "unat (r_numer r) + unat (r_denom r) * unat (ucast (ef_number e) :: u256) < 2 ^ 256"
    by simp
  from rat_add_u256_Some [OF N r(2) this] obtain c where
      c: "rat_add_u256 N r (ucast (ef_number e)) = Some c" "rat_valid c"
      "rat_val c = rat_val r + rat_of_nat (unat (ef_number e))" "r_denom c = r_denom r"
      "unat (r_numer c) = unat (r_numer r) + unat (r_denom r) * unat (ef_number e)"
    by auto
  then show ?thesis using r b sum by (simp add: ef_to_rational_def ef_val_def add.commute)
qed

text \<open>Comparing an epoch with the sum of two others is exact.\<close>

lemma rat_sum_bound:
  assumes "a < 2 ^ 41" "b < 2 ^ 16" "c < 2 ^ 41" "d < (2::nat) ^ 16"
  shows "a * d + c * b < 2 ^ 58" and "b * d < 2 ^ 32"
proof -
  have "a * d \<le> 2 ^ 41 * 2 ^ 16" "c * b \<le> 2 ^ 41 * 2 ^ 16" using assms by (intro mult_le_mono; simp)+
  moreover have "a * d < 2 ^ 41 * 2 ^ 16" using assms by (intro mult_strict_mono) auto
  ultimately show "a * d + c * b < 2 ^ 58" by simp
  show "b * d < 2 ^ 32" using mult_strict_mono [OF assms(2,4)] by simp
qed

lemma epoch_sum_less:
  assumes N: "numext_ok N" and nz: "ef_length a \<noteq> 0" "ef_length b \<noteq> 0" "ef_length c \<noteq> 0"
  shows "\<exists>ra rb r rc. ef_to_rational N a = Some ra \<and> ef_to_rational N b = Some rb \<and> rat_add N ra rb = Some r \<and>
     ef_to_rational N c = Some rc \<and> rat_lt N rc r = Some (ef_val c < ef_val a + ef_val b)"
proof -
  obtain ra where a: "ef_to_rational N a = Some ra" "rat_valid ra" "rat_val ra = ef_val a"
      "unat (r_numer ra) < 2 ^ 41" "unat (r_denom ra) < 2 ^ 16"
    using ef_to_rational_Some [OF N nz(1)] by blast
  obtain rb where b: "ef_to_rational N b = Some rb" "rat_valid rb" "rat_val rb = ef_val b"
      "unat (r_numer rb) < 2 ^ 41" "unat (r_denom rb) < 2 ^ 16"
    using ef_to_rational_Some [OF N nz(2)] by blast
  obtain rc where c: "ef_to_rational N c = Some rc" "rat_valid rc" "rat_val rc = ef_val c"
      "unat (r_numer rc) < 2 ^ 41" "unat (r_denom rc) < 2 ^ 16"
    using ef_to_rational_Some [OF N nz(3)] by blast
  let ?p = "unat (r_numer ra) * unat (r_denom rb) + unat (r_numer rb) * unat (r_denom ra)"
  let ?q = "unat (r_denom ra) * unat (r_denom rb)"
  have pq: "?p < 2 ^ 58" "?q < 2 ^ 32" using rat_sum_bound [OF a(4,5) b(4,5)] by simp_all
  have "rat_fits ra rb" unfolding rat_fits_def using pq by simp
  then obtain r where r: "rat_add N ra rb = Some r" "rat_valid r" "rat_val r = ef_val a + ef_val b"
      "coprime (unat (r_numer r)) (unat (r_denom r))"
    using rat_add_Some [OF N a(2) b(2)] a(3) b(3) by auto
  have pos: "0 < unat (r_denom ra)" "0 < unat (r_denom rb)" "0 < unat (r_denom r)" using a(2) b(2) r(2) by (auto dest: rat_validD)
  have "rat_of_nat ?p / rat_of_nat ?q = rat_val ra + rat_val rb" using pos by (simp add: rat_val_def add_frac_eq)
  then have "rat_of_nat (unat (r_numer r)) / rat_of_nat (unat (r_denom r)) = rat_of_nat ?p / rat_of_nat ?q"
    using r(3) a(3) b(3) by (simp add: rat_val_def)
  from coprime_frac_le [OF r(4) pos(3) _ this] pos have "unat (r_numer r) < 2 ^ 58" "unat (r_denom r) < 2 ^ 32"
    using pq by simp_all
  then have "unat (r_numer rc) * unat (r_denom r) < 2 ^ 41 * 2 ^ 32" "unat (r_numer r) * unat (r_denom rc) < 2 ^ 58 * 2 ^ 16"
    using c(4,5) by (intro mult_strict_mono; simp)+
  then have "rat_cmp N rc r = Some (if rat_val rc < rat_val r then Less else if rat_val rc = rat_val r then Equal else Greater)"
    by (intro rat_cmp_Some [OF N c(2) r(2)]) simp_all
  then show ?thesis using a b c r by (simp add: rat_lt_def)
qed

lemma ef_from_full_value_length: "ef_length (ef_from_full_value v) \<noteq> 0"
  using ef_fields_new(3) [of "ef_number v" 0 1] ef_field_bounds(1) [of v]
  by (simp add: ef_from_full_value_def)

lemma frac_less_one: "i < l \<Longrightarrow> rat_of_nat i / rat_of_nat l < 1"
  by (simp add: divide_less_eq)

lemma nat_frac_less:
  assumes "i < l" "j < k" "m < (n::nat)"
  shows "rat_of_nat m + rat_of_nat i / rat_of_nat l < rat_of_nat n + rat_of_nat j / rat_of_nat k"
proof -
  have "rat_of_nat m + rat_of_nat i / rat_of_nat l < rat_of_nat m + 1" using frac_less_one [OF assms(1)] by simp
  also have "\<dots> \<le> rat_of_nat n" using assms(3) by (metis Suc_leI of_nat_Suc of_nat_le_iff add.commute)
  also have "\<dots> \<le> rat_of_nat n + rat_of_nat j / rat_of_nat k" by simp
  finally show ?thesis .
qed

lemma ef_mul_exact:
  "\<exists>x. checked_mul (ef_index a) (ef_length b) = Some x \<and> unat x = unat (ef_index a) * unat (ef_length b)"
proof -
  have "unat (ef_index a) * unat (ef_length b) \<le> 2 ^ 16 * 2 ^ 16"
    using ef_field_bounds [of a] ef_field_bounds [of b] by (intro mult_le_mono) simp_all
  then have "unat (ef_index a) * unat (ef_length b) < 2 ^ 64" by simp
  then show ?thesis by (simp add: checked_mul_def unat_mul_exact)
qed

lemma frac_cross:
  "0 < l \<Longrightarrow> 0 < k \<Longrightarrow> rat_of_nat i / rat_of_nat l < rat_of_nat j / rat_of_nat k \<longleftrightarrow> i * k < j * l"
  using frac_less_common [of 1 l k i j] by simp

section \<open>Rewards of an epoch\<close>

lemma sum_quotient:
  "sum_list (map (\<lambda>i. q + (if i < r then 1 else 0)) [0..<n]) = q * n + min r (n::nat)"
  by (induction n) (auto simp: min_def)

text \<open>
  An amount split over the blocks of an epoch: a quotient for each block and one more for the
  first blocks, as many as the remainder.
\<close>

definition share :: "u64 \<Rightarrow> u64 \<Rightarrow> nat \<Rightarrow> u64" where
  "share amount len i = (if i < unat amount mod unat len then amount div len + 1 else amount div len)"

lemma share_no_overflow:
  assumes "(len :: u64) \<noteq> 0" and "0 < unat amount mod unat len"
  shows "unat (amount div len) + 1 < 2 ^ 64"
proof -
  have "unat len \<noteq> 1" using assms(2) by (intro notI) simp
  then have "2 \<le> unat len" using assms(1) by (metis One_nat_def Suc_1 Suc_leI le_neq_implies_less
        unat_eq_zero less_one not_less)
  then have "unat amount div unat len \<le> unat amount div 2" by (intro div_le_mono2) auto
  moreover have "unat amount < 2 ^ 64" using unat_bound [of amount] by simp
  ultimately show ?thesis by (simp add: unat_div)
qed

lemma unat_share:
  assumes "len \<noteq> 0"
  shows "unat (share amount len i) =
     unat amount div unat len + (if i < unat amount mod unat len then 1 else 0)"
proof (cases "i < unat amount mod unat len")
  case True
  then have "unat (amount div len) + unat (1::u64) < 2 ^ LENGTH(64)"
    using share_no_overflow [OF assms, of amount] by simp
  then show ?thesis using True by (simp only: share_def unat_add_exact if_True) (simp add: unat_div)
qed (simp add: share_def unat_div)

lemma sum_share:
  assumes "len \<noteq> 0"
  shows "sum_list (map (\<lambda>i. unat (share amount len i)) [0..<unat len]) = unat amount"
proof -
  have "unat amount mod unat len < unat len" using assms by (simp add: unat_gt_0)
  then show ?thesis by (simp only: unat_share [OF assms] sum_quotient) (simp add: min_absorb1)
qed

lemma safe_add_one_share:
  assumes "len \<noteq> 0" and "i < unat amount mod unat len"
  shows "safe_add (amount div len) 1 = Ok (share amount len i)"
proof -
  have "unat (amount div len) + 1 < 2 ^ 64"
    using share_no_overflow [OF assms(1), of amount] assms(2) by simp
  then show ?thesis using assms(2) by (simp add: safe_add_eq_Ok share_def unat_word_ariths)
qed

lemma block_in_epoch:
  assumes "unat start + unat len < 2 ^ 64" and "i < unat (len :: u64)" and "r < len"
  shows "unat (start + of_nat i :: u64) = unat start + i"
    and "start \<le> start + of_nat i"
    and "\<exists>b. checked_add start r = Some b \<and> (start + of_nat i < b \<longleftrightarrow> i < unat (r :: u64))"
proof -
  have i: "unat (of_nat i :: u64) = i"
    using assms(2) unat_bound [of len] by (simp add: unat_of_nat take_bit_eq_mod)
  show u: "unat (start + of_nat i :: u64) = unat start + i"
    using assms(1,2) i by (simp add: unat_word_ariths)
  then show "start \<le> start + of_nat i" by (simp add: word_le_nat_alt)
  have "unat start + unat r < 2 ^ 64" using assms(1,3) by (simp add: word_less_nat_alt)
  then show "\<exists>b. checked_add start r = Some b \<and> (start + of_nat i < b \<longleftrightarrow> i < unat r)"
    using u by (simp add: checked_add_def word_less_nat_alt unat_add_exact)
qed

lemma ee_block_reward_share:
  assumes e: "ee_set_primary_reward e p = Ok e'" and fit: "unat (ee_start_number e) + unat (ee_length e) < 2 ^ 64"
    and i: "i < unat (ee_length e)"
  shows "ee_block_reward e' (ee_start_number e + of_nat i) = Ok (share p (ee_length e) i)"
proof -
  let ?r = "p mod ee_length e"
  have nz: "ee_length e \<noteq> 0" using i by auto
  have e': "e' = e\<lparr>ee_base_block_reward := p div ee_length e, ee_remainder_reward := ?r\<rparr>"
    using e nz by (simp add: ee_set_primary_reward_def p_ops_defs checked_div_def checked_rem_def)
  have r: "?r < ee_length e" using nz by (simp add: word_less_nat_alt unat_mod unat_gt_0)
  obtain b where b: "checked_add (ee_start_number e) ?r = Some b"
      "ee_start_number e + of_nat i < b \<longleftrightarrow> i < unat ?r"
    using block_in_epoch(3) [OF fit i r] by blast
  show ?thesis
  proof (cases "i < unat ?r")
    case True
    then show ?thesis
      using b block_in_epoch(2) [OF fit i r] safe_add_one_share [OF nz, of i p]
      by (simp add: ee_block_reward_def e' p_ops_defs unat_mod)
  next
    case False
    then show ?thesis
      using b block_in_epoch(2) [OF fit i r] by (simp add: ee_block_reward_def e' p_ops_defs unat_mod share_def)
  qed
qed

lemma ee_secondary_share:
  assumes fit: "unat (ee_start_number e) + unat (ee_length e) < 2 ^ 64"
    and i: "i < unat (ee_length e)"
  shows "ee_secondary_block_issuance e (ee_start_number e + of_nat i) s = Ok (share s (ee_length e) i)"
proof -
  let ?r = "s mod ee_length e"
  have nz: "ee_length e \<noteq> 0" using i by auto
  have r: "?r < ee_length e" using nz by (simp add: word_less_nat_alt unat_mod unat_gt_0)
  obtain b where b: "checked_add (ee_start_number e) ?r = Some b"
      "ee_start_number e + of_nat i < b \<longleftrightarrow> i < unat ?r"
    using block_in_epoch(3) [OF fit i r] by blast
  show ?thesis
  proof (cases "i < unat ?r")
    case True
    then show ?thesis
      using b nz block_in_epoch(2) [OF fit i r] safe_add_one_share [OF nz, of i s]
      by (simp add: ee_secondary_block_issuance_def p_ops_defs checked_div_def checked_rem_def unat_mod)
  next
    case False
    then show ?thesis
      using b nz block_in_epoch(2) [OF fit i r]
      by (simp add: ee_secondary_block_issuance_def p_ops_defs checked_div_def checked_rem_def unat_mod
          share_def)
  qed
qed

lemma sum_of_shares:
  assumes "\<And>i. i < unat len \<Longrightarrow> f i = Ok (share amount len i)" and "len \<noteq> 0"
  shows "\<exists>rs. try_map f [0..<unat len] = Ok rs \<and> sum_list (map unat rs) = unat amount"
proof -
  have "try_map f [0..<unat len] = Ok (map (share amount len) [0..<unat len])"
    using assms(1) by (auto simp: try_map_eq_Ok list_all2_conv_all_nth)
  then show ?thesis using sum_share [OF assms(2), of amount] by (simp add: o_def)
qed

section \<open>Examples\<close>

definition example_epoch :: epoch_ext where
  "example_epoch = \<lparr>ee_number = 1, ee_base_block_reward = 0, ee_remainder_reward = 0,
     ee_previous_epoch_hash_rate = 1, ee_last_block_hash_in_previous_epoch = byte32_zero,
     ee_start_number = 1000, ee_length = 3, ee_compact_target = 0x20800000\<rparr>"

section \<open>Properties\<close>

text \<open>
  The packing of an epoch position is lossless: number, index and length within their bit
  widths are read back.
\<close>

theorem epoch_fraction_round_trip:
  assumes "unat number < 2 ^ 24" and "unat index < 2 ^ 16" and "unat len < 2 ^ 16"
  shows "ef_number (ef_new number index len) = number \<and> ef_index (ef_new number index len) = index \<and>
     ef_length (ef_new number index len) = len"
  using ef_fields_new [OF assms] by blast

theorem epoch_fraction_round_trip_witness:
  "ef_number (ef_new 1 2 3) = 1 \<and> ef_index (ef_new 1 2 3) = 2 \<and> ef_length (ef_new 1 2 3) = 3"
  by (rule epoch_fraction_round_trip) simp_all

text \<open>
  The order of epoch positions is the order of the rationals they stand for: for
  positions whose index is below their length, comparison never overflows and agrees with the
  comparison of \<open>number + index / length\<close>.
\<close>

theorem epoch_order_is_rational_order:
  assumes "ef_index a < ef_length a" and "ef_index b < ef_length b"
  shows "ef_cmp a b = Some (if ef_val a < ef_val b then Less else if ef_val a = ef_val b then Equal else Greater)"
proof -
  have ia: "unat (ef_index a) < unat (ef_length a)" and ib: "unat (ef_index b) < unat (ef_length b)"
    using assms by (simp_all add: word_less_nat_alt)
  consider "ef_number a < ef_number b" | "ef_number b < ef_number a" | "ef_number a = ef_number b"
    by fastforce
  then show ?thesis
  proof cases
    case 1
    then show ?thesis
      using nat_frac_less [OF ia ib] by (simp add: ef_cmp_def cmp_u64_def ef_val_def word_less_nat_alt)
  next
    case 2
    then have "ef_val b < ef_val a"
      using nat_frac_less [OF ib ia] by (simp add: ef_val_def word_less_nat_alt)
    moreover have "cmp_u64 (ef_number a) (ef_number b) = Greater" using 2 by (auto simp: cmp_u64_def)
    ultimately show ?thesis by (simp add: ef_cmp_def)
  next
    case 3
    obtain x where x: "checked_mul (ef_index a) (ef_length b) = Some x"
        "unat x = unat (ef_index a) * unat (ef_length b)"
      using ef_mul_exact by blast
    obtain y where y: "checked_mul (ef_index b) (ef_length a) = Some y"
        "unat y = unat (ef_index b) * unat (ef_length a)"
      using ef_mul_exact by blast
    have lt: "ef_val a < ef_val b \<longleftrightarrow> x < y" and gt: "ef_val b < ef_val a \<longleftrightarrow> y < x"
      using 3 x(2) y(2) ia ib frac_cross [of "unat (ef_length a)" "unat (ef_length b)"]
        frac_cross [of "unat (ef_length b)" "unat (ef_length a)"]
      by (simp_all add: ef_val_def word_less_nat_alt)
    have eq: "ef_val a = ef_val b \<longleftrightarrow> x = y" using lt gt by (metis linorder_neq_iff)
    show ?thesis using 3 x(1) y(1) lt eq by (simp add: ef_cmp_def cmp_u64_def)
  qed
qed

theorem epoch_order_is_rational_order_witness:
  "ef_cmp (ef_new 1 1 2) (ef_new 1 2 3) =
     Some (if ef_val (ef_new 1 1 2) < ef_val (ef_new 1 2 3) then Less
           else if ef_val (ef_new 1 1 2) = ef_val (ef_new 1 2 3) then Equal else Greater)"
  by (rule epoch_order_is_rational_order) (simp_all add: ef_fields_new)

text \<open>
  An epoch position read from an untrusted 64-bit value converts to a rational without a
  panic, whatever the value is, and the rational is its position.
\<close>

theorem epoch_from_full_value_to_rational:
  assumes "numext_ok N"
  shows "\<exists>r. ef_to_rational N (ef_from_full_value v) = Some r \<and> rat_valid r \<and>
     rat_val r = ef_val (ef_from_full_value v)"
  using ef_to_rational_Some [OF assms ef_from_full_value_length] by blast

theorem epoch_from_full_value_to_rational_witness:
  "\<exists>r. ef_to_rational numext_word (ef_from_full_value 0xffff000000000001) = Some r \<and> rat_valid r \<and>
     rat_val r = ef_val (ef_from_full_value 0xffff000000000001)"
  by (rule epoch_from_full_value_to_rational [OF numext_word_ok])

text \<open>
  C33. The primary issuance is conserved: after the reward of an epoch is set, the rewards of
  its blocks are all defined and add up to exactly that reward.
\<close>

theorem primary_reward_conserved:
  assumes "ee_set_primary_reward e p = Ok e'"
    and "unat (ee_start_number e) + unat (ee_length e) < 2 ^ 64" and "ee_length e \<noteq> 0"
  shows "\<exists>rs. try_map (\<lambda>i. ee_block_reward e' (ee_start_number e + of_nat i)) [0..<unat (ee_length e)] = Ok rs \<and>
     sum_list (map unat rs) = unat p"
  using ee_block_reward_share [OF assms(1,2)] assms(3) by (rule sum_of_shares)

theorem primary_reward_conserved_witness:
  "\<exists>rs. try_map (\<lambda>i. ee_block_reward (example_epoch\<lparr>ee_base_block_reward := 33, ee_remainder_reward := 1\<rparr>)
       (ee_start_number example_epoch + of_nat i)) [0..<unat (ee_length example_epoch)] = Ok rs \<and>
     sum_list (map unat rs) = unat (100 :: u64)"
  by (rule primary_reward_conserved)
    (simp_all add: example_epoch_def ee_set_primary_reward_def p_ops_defs checked_div_def checked_rem_def)

text \<open>
  The secondary issuance is conserved: the secondary issuances of the blocks of an epoch
  are all defined and add up to exactly the secondary issuance of the epoch.
\<close>

theorem secondary_issuance_conserved:
  assumes "unat (ee_start_number e) + unat (ee_length e) < 2 ^ 64" and "ee_length e \<noteq> 0"
  shows "\<exists>rs. try_map (\<lambda>i. ee_secondary_block_issuance e (ee_start_number e + of_nat i) s)
        [0..<unat (ee_length e)] = Ok rs \<and> sum_list (map unat rs) = unat s"
  using ee_secondary_share [OF assms(1)] assms(2) by (rule sum_of_shares)

theorem secondary_issuance_conserved_witness:
  "\<exists>rs. try_map (\<lambda>i. ee_secondary_block_issuance example_epoch (ee_start_number example_epoch + of_nat i) 1000)
        [0..<unat (ee_length example_epoch)] = Ok rs \<and> sum_list (map unat rs) = unat (1000 :: u64)"
  by (rule secondary_issuance_conserved) (simp_all add: example_epoch_def)

end
