(* ===== verification/Molecule_Core.thy ===== *)
theory Molecule_Core
  imports Chain_Types
begin

text \<open>
  The molecule layouts of the generated code (\<open>util/types/src/generated/blockchain.rs\<close>):
  fixed-size arrays and structs, vectors of fixed-size items, vectors of variable-size items,
  tables and options. Every generated type of a layout repeats the same code, so each layout
  is one group of definitions: \<open>_write\<close> is the builder, \<open>_verify\<close> the check that
  \<open>from_slice\<close> runs on untrusted bytes, and the remaining operations are the accessors. All
  slicing is checked: a range outside the slice is a panic.

  What is used of the runtime is the predicate \<open>molecule_ok\<close>: a number is four bytes, and
  packing and unpacking are inverse. The locale \<open>codec\<close> is the contract of a packed type:
  written values verify and read back, and bytes that pass the strict check are the writing of
  exactly one value. The combinators for vectors and options are proved inside it.
\<close>

section \<open>Numbers and slices\<close>

definition NUMBER_SIZE :: nat where
  "NUMBER_SIZE = 4"

definition molecule_ok :: "'z ext_scheme \<Rightarrow> bool" where
  "molecule_ok X \<longleftrightarrow>
     (\<forall>n. length (x_pack_number X n) = NUMBER_SIZE) \<and>
     (\<forall>n bs. x_unpack_number X (x_pack_number X n @ bs) = Some n) \<and>
     (\<forall>bs. NUMBER_SIZE \<le> length bs \<longrightarrow>
        (\<exists>n. x_unpack_number X bs = Some n \<and> x_pack_number X n = take NUMBER_SIZE bs)) \<and>
     (\<forall>bs. x_byte_verify X bs \<noteq> Panic \<and> (x_byte_verify X bs = Ok () \<longleftrightarrow> length bs = 1))"

definition unpack_number :: "'z ext_scheme \<Rightarrow> bytes \<Rightarrow> (nat, verification_error) outcome" where
  "unpack_number X bs = map_ok unat (expect (x_unpack_number X bs))"

definition pack_nat :: "'z ext_scheme \<Rightarrow> nat \<Rightarrow> bytes" where
  "pack_nat X n = x_pack_number X (of_nat n)"

definition slice_range :: "bytes \<Rightarrow> nat \<Rightarrow> nat \<Rightarrow> (bytes, verification_error) outcome" where
  "slice_range bs a b =
     (if a \<le> b \<and> b \<le> length bs then Ok (take (b - a) (drop a bs)) else Panic)"

definition slice_from :: "bytes \<Rightarrow> nat \<Rightarrow> (bytes, verification_error) outcome" where
  "slice_from bs a = (if a \<le> length bs then Ok (drop a bs) else Panic)"

definition number_at :: "'z ext_scheme \<Rightarrow> bytes \<Rightarrow> nat \<Rightarrow> (nat, verification_error) outcome" where
  "number_at X bs a = tryq (slice_from bs a) (unpack_number X)"

fun windows2 :: "'a list \<Rightarrow> ('a \<times> 'a) list" where
  "windows2 (a # b # xs) = (a, b) # windows2 (b # xs)"
| "windows2 xs = []"

section \<open>Fixed-size layouts\<close>

definition array_verify :: "nat \<Rightarrow> bytes \<Rightarrow> bool \<Rightarrow> (unit, verification_error) outcome" where
  "array_verify total_size sl compatible =
     (if length sl \<noteq> total_size then Err (TotalSizeNotMatch total_size (length sl)) else Ok ())"

section \<open>Vectors of fixed-size items\<close>

definition fixvec_write :: "'z ext_scheme \<Rightarrow> bytes list \<Rightarrow> bytes" where
  "fixvec_write X items = pack_nat X (length items) @ concat items"

definition fixvec_verify ::
  "'z ext_scheme \<Rightarrow> nat \<Rightarrow> bytes \<Rightarrow> bool \<Rightarrow> (unit, verification_error) outcome" where
  "fixvec_verify X item_size sl compatible =
     (let slice_len = length sl in
      if slice_len < NUMBER_SIZE then Err (HeaderIsBroken NUMBER_SIZE slice_len)
      else tryq (unpack_number X sl) (\<lambda>item_count.
        if item_count = 0
        then (if slice_len \<noteq> NUMBER_SIZE then Err (TotalSizeNotMatch NUMBER_SIZE slice_len) else Ok ())
        else (let total_size = NUMBER_SIZE + item_size * item_count in
          if slice_len \<noteq> total_size then Err (TotalSizeNotMatch total_size slice_len) else Ok ())))"

definition fixvec_item_count :: "'z ext_scheme \<Rightarrow> bytes \<Rightarrow> (nat, verification_error) outcome" where
  "fixvec_item_count X bs = unpack_number X bs"

definition fixvec_total_size :: "'z ext_scheme \<Rightarrow> bytes \<Rightarrow> (nat, verification_error) outcome" where
  "fixvec_total_size X bs = map_ok (\<lambda>n. NUMBER_SIZE * (n + 1)) (fixvec_item_count X bs)"

definition fixvec_get_unchecked :: "nat \<Rightarrow> bytes \<Rightarrow> nat \<Rightarrow> (bytes, verification_error) outcome" where
  "fixvec_get_unchecked item_size bs idx =
     (let start = NUMBER_SIZE + item_size * idx; end = start + item_size in slice_range bs start end)"

definition fixvec_items :: "'z ext_scheme \<Rightarrow> nat \<Rightarrow> bytes \<Rightarrow> (bytes list, verification_error) outcome" where
  "fixvec_items X item_size bs =
     tryq (fixvec_item_count X bs) (\<lambda>n. try_map (fixvec_get_unchecked item_size bs) [0..<n])"

section \<open>Tables and vectors of variable-size items\<close>

fun offsets_from :: "nat \<Rightarrow> bytes list \<Rightarrow> nat list" where
  "offsets_from start [] = []"
| "offsets_from start (x # xs) = start # offsets_from (start + length x) xs"

definition table_write :: "'z ext_scheme \<Rightarrow> bytes list \<Rightarrow> bytes" where
  "table_write X fs =
     (let start = NUMBER_SIZE * (length fs + 1) in
      pack_nat X (start + length (concat fs)) @
      concat (map (pack_nat X) (offsets_from start fs)) @ concat fs)"

definition dynvec_write :: "'z ext_scheme \<Rightarrow> bytes list \<Rightarrow> bytes" where
  "dynvec_write X items = (if items = [] then pack_nat X NUMBER_SIZE else table_write X items)"

text \<open>The offsets in the header of a table or vector, followed by the total size.\<close>

definition read_offsets ::
  "'z ext_scheme \<Rightarrow> bytes \<Rightarrow> nat \<Rightarrow> nat \<Rightarrow> (nat list, verification_error) outcome" where
  "read_offsets X sl count total_size =
     tryq (try_map (\<lambda>i. unpack_number X (take NUMBER_SIZE (drop (NUMBER_SIZE + NUMBER_SIZE * i) sl)))
             [0..<count])
       (\<lambda>offsets. Ok (offsets @ [total_size]))"

fun verify_fields ::
  "bytes \<Rightarrow> bool \<Rightarrow> (bytes \<Rightarrow> bool \<Rightarrow> (unit, verification_error) outcome) list \<Rightarrow> nat list \<Rightarrow>
   (unit, verification_error) outcome" where
  "verify_fields sl compatible [] offsets = Ok ()"
| "verify_fields sl compatible (v # vs) (a # b # offsets) =
     tryq (slice_range sl a b) (\<lambda>s.
     tryq (v s compatible) (\<lambda>_. verify_fields sl compatible vs (b # offsets)))"
| "verify_fields sl compatible (v # vs) offsets = Panic"

definition table_verify ::
  "'z ext_scheme \<Rightarrow> (bytes \<Rightarrow> bool \<Rightarrow> (unit, verification_error) outcome) list \<Rightarrow> bytes \<Rightarrow> bool \<Rightarrow>
   (unit, verification_error) outcome" where
  "table_verify X vs sl compatible =
     (let slice_len = length sl; FIELD_COUNT = length vs in
      if slice_len < NUMBER_SIZE then Err (HeaderIsBroken NUMBER_SIZE slice_len)
      else tryq (unpack_number X sl) (\<lambda>total_size.
      if slice_len \<noteq> total_size then Err (TotalSizeNotMatch total_size slice_len)
      else if slice_len = NUMBER_SIZE \<and> FIELD_COUNT = 0 then Ok ()
      else if slice_len < NUMBER_SIZE * 2 then Err (HeaderIsBroken (NUMBER_SIZE * 2) slice_len)
      else tryq (number_at X sl NUMBER_SIZE) (\<lambda>offset_first.
      if offset_first mod 4 \<noteq> 0 \<or> offset_first < NUMBER_SIZE * 2 then Err OffsetsNotMatch
      else (let field_count = offset_first div 4 - 1 in
      if field_count < FIELD_COUNT then Err (FieldCountNotMatch FIELD_COUNT field_count)
      else if \<not> compatible \<and> FIELD_COUNT < field_count
        then Err (FieldCountNotMatch FIELD_COUNT field_count)
      else (let header_size = NUMBER_SIZE * (field_count + 1) in
      if slice_len < header_size then Err (HeaderIsBroken header_size slice_len)
      else tryq (read_offsets X sl field_count total_size) (\<lambda>offsets.
      if list_ex (\<lambda>(a, b). b < a) (windows2 offsets) then Err OffsetsNotMatch
      else verify_fields sl compatible vs offsets))))))"

definition dynvec_verify ::
  "'z ext_scheme \<Rightarrow> (bytes \<Rightarrow> bool \<Rightarrow> (unit, verification_error) outcome) \<Rightarrow> bytes \<Rightarrow> bool \<Rightarrow>
   (unit, verification_error) outcome" where
  "dynvec_verify X v sl compatible =
     (let slice_len = length sl in
      if slice_len < NUMBER_SIZE then Err (HeaderIsBroken NUMBER_SIZE slice_len)
      else tryq (unpack_number X sl) (\<lambda>total_size.
      if slice_len \<noteq> total_size then Err (TotalSizeNotMatch total_size slice_len)
      else if slice_len = NUMBER_SIZE then Ok ()
      else if slice_len < NUMBER_SIZE * 2 then Err (TotalSizeNotMatch (NUMBER_SIZE * 2) slice_len)
      else tryq (number_at X sl NUMBER_SIZE) (\<lambda>offset_first.
      if offset_first mod 4 \<noteq> 0 \<or> offset_first < NUMBER_SIZE * 2 then Err OffsetsNotMatch
      else (let item_count = offset_first div 4 - 1;
                header_size = NUMBER_SIZE * (item_count + 1) in
      if slice_len < header_size then Err (HeaderIsBroken header_size slice_len)
      else tryq (read_offsets X sl item_count total_size) (\<lambda>offsets.
      if list_ex (\<lambda>(a, b). b < a) (windows2 offsets) then Err OffsetsNotMatch
      else try_for_each (\<lambda>(a, b). tryq (slice_range sl a b) (\<lambda>s. v s compatible))
             (windows2 offsets))))))"

definition table_field_count :: "'z ext_scheme \<Rightarrow> bytes \<Rightarrow> (nat, verification_error) outcome" where
  "table_field_count X bs =
     tryq (unpack_number X bs) (\<lambda>total_size.
     if total_size = NUMBER_SIZE then Ok 0
     else tryq (number_at X bs NUMBER_SIZE) (\<lambda>n. if n div 4 = 0 then Panic else Ok (n div 4 - 1)))"

definition table_has_extra_fields :: "'z ext_scheme \<Rightarrow> nat \<Rightarrow> bytes \<Rightarrow> (bool, verification_error) outcome" where
  "table_has_extra_fields X FIELD_COUNT bs = map_ok (\<lambda>n. FIELD_COUNT \<noteq> n) (table_field_count X bs)"

text \<open>Field \<open>i\<close> of a table; the last one ends at the end of the slice unless there are more.\<close>

definition table_field :: "'z ext_scheme \<Rightarrow> nat \<Rightarrow> nat \<Rightarrow> bytes \<Rightarrow> (bytes, verification_error) outcome" where
  "table_field X FIELD_COUNT i bs =
     tryq (number_at X bs (NUMBER_SIZE * (i + 1))) (\<lambda>start.
     if i + 1 < FIELD_COUNT
     then tryq (number_at X bs (NUMBER_SIZE * (i + 2))) (slice_range bs start)
     else tryq (table_has_extra_fields X FIELD_COUNT bs) (\<lambda>extra.
       if extra then tryq (number_at X bs (NUMBER_SIZE * (i + 2))) (slice_range bs start)
       else slice_from bs start))"

definition dynvec_get_unchecked :: "'z ext_scheme \<Rightarrow> bytes \<Rightarrow> nat \<Rightarrow> (bytes, verification_error) outcome" where
  "dynvec_get_unchecked X bs idx =
     (let start_idx = NUMBER_SIZE * (1 + idx) in
      tryq (number_at X bs start_idx) (\<lambda>start.
      tryq (table_field_count X bs) (\<lambda>len.
      if len = 0 then Panic
      else if idx = len - 1 then slice_from bs start
      else tryq (number_at X bs (start_idx + NUMBER_SIZE)) (slice_range bs start))))"

definition dynvec_items :: "'z ext_scheme \<Rightarrow> bytes \<Rightarrow> (bytes list, verification_error) outcome" where
  "dynvec_items X bs =
     tryq (table_field_count X bs) (\<lambda>n. try_map (dynvec_get_unchecked X bs) [0..<n])"

section \<open>Options\<close>

definition option_write :: "('a \<Rightarrow> bytes) \<Rightarrow> 'a option \<Rightarrow> bytes" where
  "option_write w x = (case x of None \<Rightarrow> [] | Some y \<Rightarrow> w y)"

definition option_verify ::
  "(bytes \<Rightarrow> bool \<Rightarrow> (unit, verification_error) outcome) \<Rightarrow> bytes \<Rightarrow> bool \<Rightarrow>
   (unit, verification_error) outcome" where
  "option_verify v sl compatible = (if sl \<noteq> [] then v sl compatible else Ok ())"

definition option_read :: "(bytes \<Rightarrow> ('a, verification_error) outcome) \<Rightarrow> bytes \<Rightarrow> ('a option, verification_error) outcome" where
  "option_read r bs = (if bs = [] then Ok None else map_ok Some (r bs))"

section \<open>Reading untrusted bytes\<close>

text \<open>\<open>Entity::from_slice\<close>: the strict check, and the value read with the accessors.\<close>

definition from_slice ::
  "(bytes \<Rightarrow> bool \<Rightarrow> (unit, verification_error) outcome) \<Rightarrow> (bytes \<Rightarrow> ('a, verification_error) outcome) \<Rightarrow>
   bytes \<Rightarrow> ('a, verification_error) outcome" where
  "from_slice v r bs = tryq (v bs False) (\<lambda>_. r bs)"

section \<open>Numbers\<close>

lemma length_pack_nat [simp]: "molecule_ok X \<Longrightarrow> length (pack_nat X n) = 4"
  by (simp add: molecule_ok_def pack_nat_def NUMBER_SIZE_def)

lemma unpack_pack_nat:
  "molecule_ok X \<Longrightarrow> n < 2 ^ 32 \<Longrightarrow> unpack_number X (pack_nat X n @ bs) = Ok n"
  by (simp add: molecule_ok_def pack_nat_def unpack_number_def unat_of_nat take_bit_eq_mod)

lemma unpack_number_Ok:
  assumes "molecule_ok X" and "4 \<le> length bs"
  shows "\<exists>n. unpack_number X bs = Ok n \<and> n < 2 ^ 32 \<and> pack_nat X n = take 4 bs"
proof -
  obtain n where "x_unpack_number X bs = Some n" "x_pack_number X n = take 4 bs"
    using assms by (auto simp: molecule_ok_def NUMBER_SIZE_def)
  then show ?thesis
    using unat_bound [of n] by (auto simp: unpack_number_def pack_nat_def)
qed

lemma number_at_Ok:
  assumes "molecule_ok X" and "a + 4 \<le> length bs"
  shows "\<exists>n. number_at X bs a = Ok n \<and> n < 2 ^ 32 \<and> pack_nat X n = take 4 (drop a bs)"
  using unpack_number_Ok [of X "drop a bs"] assms by (simp add: number_at_def slice_from_def)

lemma length_concat_pack [simp]:
  "molecule_ok X \<Longrightarrow> length (concat (map (pack_nat X) ns)) = 4 * length ns"
  by (induction ns) auto

lemma drop_concat_pack:
  "molecule_ok X \<Longrightarrow> i \<le> length ns \<Longrightarrow>
     drop (4 * i) (concat (map (pack_nat X) ns)) = concat (map (pack_nat X) (drop i ns))"
proof (induction ns arbitrary: i)
  case Nil
  then show ?case by simp
next
  case (Cons n ns)
  then show ?case by (cases i) (auto simp: drop_append)
qed

lemma number_at_pack:
  assumes X: "molecule_ok X" and i: "i < length ns" and lt: "ns ! i < 2 ^ 32"
  shows "number_at X (concat (map (pack_nat X) ns) @ bs) (4 * i) = Ok (ns ! i)"
proof -
  have ns: "drop i ns = ns ! i # drop (Suc i) ns" using i by (simp add: Cons_nth_drop_Suc)
  have "drop (4 * i) (concat (map (pack_nat X) ns) @ bs) =
      pack_nat X (ns ! i) @ concat (map (pack_nat X) (drop (Suc i) ns)) @ bs"
    using X i by (simp add: drop_concat_pack ns)
  then show ?thesis using X i lt by (simp add: number_at_def slice_from_def unpack_pack_nat)
qed

section \<open>Offsets\<close>

lemma sorted_windows2: "list_ex (\<lambda>(a, b). b < a) (windows2 xs) \<longleftrightarrow> \<not> sorted (xs :: nat list)"
  by (induction xs rule: windows2.induct) (fastforce simp: not_less)+

lemma length_offsets_from [simp]: "length (offsets_from s xs) = length xs"
  by (induction xs arbitrary: s) auto

lemma offsets_from_nth:
  "i < length xs \<Longrightarrow> offsets_from s xs ! i = s + length (concat (take i xs))"
proof (induction xs arbitrary: s i)
  case (Cons x xs)
  then show ?case by (cases i) auto
qed simp

lemma sorted_offsets_from: "sorted (offsets_from s xs @ [s + length (concat xs)])"
proof (induction xs arbitrary: s)
  case (Cons x xs)
  have "s \<le> y" if "y \<in> set (offsets_from (s + length x) xs)" for y
    using that by (auto simp: in_set_conv_nth offsets_from_nth)
  then show ?case using Cons [of "s + length x"] by (auto simp: add.assoc)
qed simp

text \<open>The pieces of a slice between consecutive offsets.\<close>

definition cut :: "bytes \<Rightarrow> nat list \<Rightarrow> bytes list" where
  "cut sl offsets = map (\<lambda>(a, b). take (b - a) (drop a sl)) (windows2 offsets)"

lemma cut_simps [simp]:
  "cut sl [] = []" "cut sl [a] = []"
  "cut sl (a # b # os) = take (b - a) (drop a sl) # cut sl (b # os)"
  by (simp_all add: cut_def)

lemma length_cut [simp]: "length (cut sl os) = length os - 1"
  by (induction os rule: windows2.induct) auto

lemma sorted_last: "sorted (a # os) \<Longrightarrow> a \<le> last (a # (os :: nat list))"
  by (induction os arbitrary: a) auto

lemma cut_pieces:
  assumes "sorted (a # os)" and "last (a # os) \<le> length sl"
  shows "offsets_from a (cut sl (a # os)) = butlast (a # os)"
    and "concat (cut sl (a # os)) = take (last (a # os) - a) (drop a sl)"
  using assms
proof (induction os arbitrary: a)
  case (Cons b os)
  { case 1
    then have "b \<le> length sl" using sorted_last [of b os] by simp
    then have "length (take (b - a) (drop a sl)) = b - a" by simp
    then show ?case using 1 Cons.IH(1) [of b] by auto }
  { case 2
    then have ab: "a \<le> b" "b \<le> last (b # os)" using sorted_last [of b os] by auto
    have "concat (cut sl (b # os)) = take (last (b # os) - b) (drop b sl)"
      using 2 by (intro Cons.IH(2)) auto
    moreover have "take (b - a) (drop a sl) @ take (last (b # os) - b) (drop b sl) =
        take (last (b # os) - a) (drop a sl)"
    proof -
      have "last (b # os) - a = (b - a) + (last (b # os) - b)" using ab by simp
      moreover have "drop b sl = drop (b - a) (drop a sl)" using ab by simp
      ultimately show ?thesis by (simp only: take_add)
    qed
    ultimately show ?case using ab by simp }
qed auto

section \<open>Written tables\<close>

definition table_size :: "bytes list \<Rightarrow> nat" where
  "table_size fs = 4 * (length fs + 1) + length (concat fs)"

definition table_offsets :: "bytes list \<Rightarrow> nat list" where
  "table_offsets fs = offsets_from (4 * (length fs + 1)) fs"

lemma length_table_offsets [simp]: "length (table_offsets fs) = length fs"
  by (simp add: table_offsets_def)

lemma table_offsets_0: "fs \<noteq> [] \<Longrightarrow> table_offsets fs ! 0 = 4 * (length fs + 1)"
  by (cases fs) (simp_all add: table_offsets_def)

lemma sorted_table_offsets: "sorted (table_offsets fs @ [table_size fs])"
  unfolding table_offsets_def table_size_def by (rule sorted_offsets_from)

lemma table_write_numbers:
  "table_write X fs = concat (map (pack_nat X) (table_size fs # table_offsets fs)) @ concat fs"
  by (simp add: table_write_def NUMBER_SIZE_def Let_def table_size_def table_offsets_def)

lemma length_table_write [simp]: "molecule_ok X \<Longrightarrow> length (table_write X fs) = table_size fs"
  unfolding table_write_numbers by (simp only: length_append length_concat_pack) (simp add: table_size_def)

lemma table_offset_le: "i < length fs \<Longrightarrow> table_offsets fs ! i \<le> table_size fs"
proof -
  assume "i < length fs"
  moreover have "length (concat (take i fs)) \<le> length (concat fs)"
    by (metis append_take_drop_id concat_append le_add1 length_append)
  ultimately show ?thesis by (simp add: offsets_from_nth table_offsets_def table_size_def)
qed

lemma table_number_at:
  assumes "molecule_ok X" and "i \<le> length fs" and "table_size fs < 2 ^ 32"
  shows "number_at X (table_write X fs) (4 * i) = Ok ((table_size fs # table_offsets fs) ! i)"
proof -
  have "(table_size fs # table_offsets fs) ! i < 2 ^ 32"
    using assms(2,3) table_offset_le [of "i - 1" fs] by (cases i) auto
  then show ?thesis
    unfolding table_write_numbers using assms(1,2) by (intro number_at_pack) simp_all
qed

lemma table_total:
  assumes "molecule_ok X" and "table_size fs < 2 ^ 32"
  shows "unpack_number X (table_write X fs) = Ok (table_size fs)"
  using table_number_at [OF assms(1) _ assms(2), of 0] by (simp add: number_at_def slice_from_def)

lemma table_chunk:
  assumes X: "molecule_ok X" and i: "i < length fs"
  shows "take 4 (drop (4 + 4 * i) (table_write X fs)) = pack_nat X (table_offsets fs ! i)"
proof -
  let ?ns = "table_size fs # table_offsets fs"
  have "drop (4 * Suc i) (concat (map (pack_nat X) ?ns)) = concat (map (pack_nat X) (drop (Suc i) ?ns))"
    using i by (intro drop_concat_pack [OF X]) simp
  moreover have "drop (Suc i) ?ns = table_offsets fs ! i # drop (Suc i) (table_offsets fs)"
    using i by (simp add: Cons_nth_drop_Suc)
  moreover have "4 * Suc i \<le> length (concat (map (pack_nat X) ?ns))"
    using i by (simp only: length_concat_pack [OF X]) simp
  ultimately show ?thesis
    unfolding table_write_numbers using X by (simp add: drop_append)
qed

lemma read_offsets_table:
  assumes X: "molecule_ok X" and lt: "table_size fs < 2 ^ 32"
  shows "read_offsets X (table_write X fs) (length fs) tot = Ok (table_offsets fs @ [tot])"
proof -
  have "unpack_number X (take 4 (drop (4 + 4 * i) (table_write X fs))) = Ok (table_offsets fs ! i)"
    if "i < length fs" for i
    using that lt table_offset_le [OF that] unpack_pack_nat [OF X, of "table_offsets fs ! i" "[]"]
    by (simp add: table_chunk [OF X that])
  then have "try_map (\<lambda>i. unpack_number X (take 4 (drop (4 + 4 * i) (table_write X fs)))) [0..<length fs]
      = Ok (table_offsets fs)"
    by (auto simp: try_map_eq_Ok list_all2_conv_all_nth)
  then show ?thesis by (simp add: read_offsets_def NUMBER_SIZE_def)
qed

lemma cut_append:
  "length hdr = s \<Longrightarrow> cut (hdr @ concat fs) (offsets_from s fs @ [s + length (concat fs)]) = fs"
proof (induction fs arbitrary: hdr s)
  case (Cons f fs)
  have "cut ((hdr @ f) @ concat fs) (offsets_from (s + length f) fs @ [s + length f + length (concat fs)]) = fs"
    using Cons.prems by (intro Cons.IH) simp
  then show ?case
    using Cons.prems by (cases fs) (auto simp: add.assoc)
qed simp

lemma cut_table:
  assumes "molecule_ok X"
  shows "cut (table_write X fs) (table_offsets fs @ [table_size fs]) = fs"
  unfolding table_write_numbers table_offsets_def [of fs] table_size_def [of fs]
  by (rule cut_append) (simp only: length_concat_pack [OF assms], simp)

section \<open>Verified tables\<close>

lemma slice_range_Ok:
  "a \<le> b \<Longrightarrow> b \<le> length sl \<Longrightarrow> slice_range sl a b = Ok (take (b - a) (drop a sl))"
  by (simp add: slice_range_def)

lemma verify_fields_iff:
  assumes "sorted os" and "last os \<le> length sl" and "length vs < length os"
  shows "verify_fields sl c vs os = Ok () \<longleftrightarrow> (\<forall>i<length vs. (vs ! i) (cut sl os ! i) c = Ok ())"
  using assms
proof (induction sl c vs os rule: verify_fields.induct)
  case (2 sl c v vs a b os)
  have b: "b \<le> length sl" using "2.prems"(1,2) sorted_last [of b os] by auto
  then have sr: "slice_range sl a b = Ok (take (b - a) (drop a sl))"
    using "2.prems"(1) by (simp add: slice_range_Ok)
  show ?case
  proof (cases "v (take (b - a) (drop a sl)) c = Ok ()")
    case True
    then have "verify_fields sl c vs (b # os) = Ok () \<longleftrightarrow>
        (\<forall>i<length vs. (vs ! i) (cut sl (b # os) ! i) c = Ok ())"
      using "2.prems" by (intro "2.IH") (auto simp: sr)
    then show ?thesis using True by (auto simp: sr less_Suc_eq_0_disj)
  next
    case False
    then have "verify_fields sl c (v # vs) (a # b # os) \<noteq> Ok ()"
      by (auto simp: sr outcome_simps)
    then show ?thesis using False by auto
  qed
qed auto

lemma verify_fields_not_Panic:
  assumes "sorted os" and "last os \<le> length sl" and "length vs < length os"
    and "\<forall>v\<in>set vs. \<forall>s. v s c \<noteq> Panic"
  shows "verify_fields sl c vs os \<noteq> Panic"
  using assms
proof (induction sl c vs os rule: verify_fields.induct)
  case (2 sl c v vs a b os)
  have b: "b \<le> length sl" using "2.prems"(1,2) sorted_last [of b os] by auto
  then have sr: "slice_range sl a b = Ok (take (b - a) (drop a sl))"
    using "2.prems"(1) by (simp add: slice_range_Ok)
  have "verify_fields sl c vs (b # os) \<noteq> Panic" if "v (take (b - a) (drop a sl)) c = Ok ()"
    using "2.prems" that by (intro "2.IH") (auto simp: sr)
  then show ?case using "2.prems"(4) by (auto simp: sr outcome_simps)
qed auto

text \<open>
  A header whose first offset is consistent with the number of offsets: the offsets can be
  read, and if they are sorted the slice is the table of the pieces between them.
\<close>

lemma read_offsets_Ok:
  assumes X: "molecule_ok X" and len: "4 * (n + 1) \<le> length sl"
  shows "\<exists>os. read_offsets X sl n tot = Ok (os @ [tot]) \<and> length os = n \<and>
     concat (map (pack_nat X) os) = take (4 * n) (drop 4 sl) \<and>
     (\<forall>i<n. number_at X sl (4 + 4 * i) = Ok (os ! i))"
proof -
  let ?c = "\<lambda>i. take 4 (drop (4 + 4 * i) sl)"
  have ex: "\<exists>m. unpack_number X (?c i) = Ok m \<and> number_at X sl (4 + 4 * i) = Ok m \<and> pack_nat X m = ?c i"
    if "i < n" for i
  proof -
    have "4 + 4 * i + 4 \<le> length sl" using that len by auto
    then obtain m where m: "number_at X sl (4 + 4 * i) = Ok m" "m < 2 ^ 32" "pack_nat X m = ?c i"
      using number_at_Ok [OF X] by blast
    have "unpack_number X (pack_nat X m @ []) = Ok m" by (rule unpack_pack_nat [OF X m(2)])
    then have "unpack_number X (?c i) = Ok m" by (simp only: append_Nil2 m(3))
    then show ?thesis using m(1,3) by blast
  qed
  then obtain num where num: "\<And>i. i < n \<Longrightarrow> unpack_number X (?c i) = Ok (num i) \<and>
      number_at X sl (4 + 4 * i) = Ok (num i) \<and> pack_nat X (num i) = ?c i"
    by metis
  let ?os = "map num [0..<n]"
  have "try_map (\<lambda>i. unpack_number X (take 4 (drop (4 + 4 * i) sl))) [0..<n] = Ok ?os"
    using num by (auto simp: try_map_eq_Ok list_all2_conv_all_nth)
  moreover have "concat (map (pack_nat X) (map num [0..<k])) = take (4 * k) (drop 4 sl)" if "k \<le> n" for k
    using that
  proof (induction k)
    case (Suc k)
    then show ?case using num [of k] take_add [of "4 * k" 4 "drop 4 sl"] by (simp add: add.commute)
  qed simp
  ultimately show ?thesis
    using num by (intro exI [of _ ?os]) (auto simp: read_offsets_def NUMBER_SIZE_def)
qed

lemma sorted_table:
  assumes X: "molecule_ok X" and total: "unpack_number X sl = Ok (length sl)"
    and len: "4 * (n + 1) \<le> length sl" and n: "0 < n"
    and first: "number_at X sl 4 = Ok (4 * (n + 1))"
    and os: "read_offsets X sl n (length sl) = Ok (os @ [length sl])" "sorted (os @ [length sl])"
  shows "sl = table_write X (cut sl (os @ [length sl]))" and "length os = n"
proof -
  let ?fs = "cut sl (os @ [length sl])"
  obtain os' where os': "read_offsets X sl n (length sl) = Ok (os' @ [length sl])" "length os' = n"
      "concat (map (pack_nat X) os') = take (4 * n) (drop 4 sl)"
      "\<forall>i<n. number_at X sl (4 + 4 * i) = Ok (os' ! i)"
    using read_offsets_Ok [OF X len] by blast
  then have eq: "os' = os" using os(1) by simp
  then show lo: "length os = n" using os'(2) by simp
  have lf: "length ?fs = n" using lo by simp
  obtain o1 os1 where o1: "os = o1 # os1" using lo n by (cases os) auto
  have "o1 = 4 * (n + 1)" using first os'(4) n eq o1 by force
  then have pieces: "table_offsets ?fs = os"
      "concat ?fs = drop (4 * (n + 1)) sl"
    using cut_pieces [of o1 "os1 @ [length sl]" sl] os(2) len lf by (simp_all add: o1 table_offsets_def)
  have t4: "pack_nat X (length sl) = take 4 sl"
    using unpack_number_Ok [OF X, of sl] total len by auto
  have "table_write X ?fs = take 4 sl @ take (4 * n) (drop 4 sl) @ drop (4 * (n + 1)) sl"
    using pieces os'(3) eq len t4 lf by (simp add: table_write_numbers table_size_def)
  also have "\<dots> = sl"
    by (metis append_assoc append_take_drop_id drop_drop mult_Suc_right Suc_eq_plus1 add.commute)
  finally show "sl = table_write X ?fs" ..
qed

lemma table_verify_strict:
  assumes X: "molecule_ok X" and vs: "vs \<noteq> []" and ok: "table_verify X vs sl False = Ok ()"
  shows "\<exists>fs. sl = table_write X fs \<and> length fs = length vs \<and> table_size fs < 2 ^ 32 \<and>
     (\<forall>i<length vs. (vs ! i) (fs ! i) False = Ok ())"
proof -
  let ?n = "length vs"
  have n: "0 < ?n" using vs by simp
  obtain first offsets where h: "4 \<le> length sl" "unpack_number X sl = Ok (length sl)" "8 \<le> length sl"
      "number_at X sl 4 = Ok first" "first mod 4 = 0" "8 \<le> first" "first div 4 - 1 = ?n"
      "4 * (?n + 1) \<le> length sl" "read_offsets X sl ?n (length sl) = Ok offsets" "sorted offsets"
      "verify_fields sl False vs offsets = Ok ()"
    using ok vs
    by (auto simp: table_verify_def Let_def NUMBER_SIZE_def outcome_simps sorted_windows2
        not_less split: if_splits)
  have first: "first = 4 * (?n + 1)" using h(5-7) by presburger
  obtain os where os: "read_offsets X sl ?n (length sl) = Ok (os @ [length sl])" "length os = ?n"
    using read_offsets_Ok [OF X h(8)] by blast
  then have offs: "offsets = os @ [length sl]" using h(9) by simp
  let ?fs = "cut sl (os @ [length sl])"
  have tab: "sl = table_write X ?fs"
    using sorted_table [OF X h(2) h(8) n _ os(1)] h(4,10) first offs by simp
  have "length sl < 2 ^ 32" using unpack_number_Ok [OF X h(1)] h(2) by auto
  moreover have "length sl = table_size ?fs" by (subst tab) (rule length_table_write [OF X])
  ultimately have "table_size ?fs < 2 ^ 32" by simp
  moreover have "\<forall>i<?n. (vs ! i) (?fs ! i) False = Ok ()"
    using h(10,11) os(2) unfolding offs by (subst verify_fields_iff [symmetric]) auto
  ultimately show ?thesis using tab os(2) by (intro exI [of _ ?fs]) simp
qed

lemma table_verify_write:
  assumes X: "molecule_ok X" and len: "length fs = length vs" and vs: "vs \<noteq> []"
    and lt: "table_size fs < 2 ^ 32" and ok: "\<And>i. i < length vs \<Longrightarrow> (vs ! i) (fs ! i) c = Ok ()"
  shows "table_verify X vs (table_write X fs) c = Ok ()"
proof -
  let ?sl = "table_write X fs" and ?n = "length vs"
  have n: "0 < ?n" using vs by simp
  have fs: "fs \<noteq> []" using len vs by auto
  have l: "length ?sl = table_size fs" by (rule length_table_write [OF X])
  have first: "number_at X ?sl 4 = Ok (4 * (?n + 1))"
    using table_number_at [OF X _ lt, of 1] table_offsets_0 [OF fs] n len by simp
  have "\<forall>i<?n. (vs ! i) (cut ?sl (table_offsets fs @ [table_size fs]) ! i) c = Ok ()"
    unfolding cut_table [OF X] using ok by blast
  then have "verify_fields ?sl c vs (table_offsets fs @ [table_size fs]) = Ok ()"
    by (subst verify_fields_iff [OF sorted_table_offsets]) (simp_all add: l len)
  moreover have ge: "4 * (?n + 1) \<le> table_size fs" using len by (simp add: table_size_def)
  moreover have ge8: "\<not> table_size fs < 8" using n by (intro leD le_trans [OF _ ge]) (cases vs, auto)
  moreover have "read_offsets X ?sl ?n (table_size fs) = Ok (table_offsets fs @ [table_size fs])"
    using read_offsets_table [OF X lt] len by simp
  ultimately show ?thesis
    using n
    by (simp add: table_verify_def Let_def NUMBER_SIZE_def l table_total [OF X lt] first
        sorted_windows2 sorted_table_offsets ge8)
qed

lemma read_offsets_div:
  assumes "molecule_ok X" and "4 dvd f" "8 \<le> f" "f \<le> length sl"
  shows "\<exists>os. read_offsets X sl (f div 4 - Suc 0) tot = Ok (os @ [tot]) \<and> length os = f div 4 - Suc 0"
  using read_offsets_Ok [OF assms(1), of "f div 4 - Suc 0" sl tot] assms by (auto elim!: dvdE)

lemma table_verify_not_Panic:
  assumes X: "molecule_ok X" and vs: "\<And>v s. v \<in> set vs \<Longrightarrow> v s c \<noteq> Panic"
  shows "table_verify X vs sl c \<noteq> Panic"
proof
  assume panic: "table_verify X vs sl c = Panic"
  have u: "unpack_number X sl \<noteq> Panic" if "4 \<le> length sl"
    using unpack_number_Ok [OF X that] by auto
  have na: "number_at X sl 4 \<noteq> Panic" if "8 \<le> length sl"
    using number_at_Ok [OF X, of 4 sl] that by auto
  have np: "read_offsets X sl (f div 4 - Suc 0) tot \<noteq> Panic"
    if "4 dvd f" "8 \<le> f" "f \<le> length sl" for f tot
    using read_offsets_div [OF X that, of tot] by auto
  obtain f offsets where h: "4 dvd f" "8 \<le> f" "f \<le> length sl" "length vs \<le> f div 4 - Suc 0"
      "read_offsets X sl (f div 4 - Suc 0) (length sl) = Ok offsets" "sorted offsets"
      "verify_fields sl c vs offsets = Panic"
    using panic u na np
    by (fastforce simp: table_verify_def Let_def NUMBER_SIZE_def outcome_simps sorted_windows2
        not_less split: if_splits)
  obtain os where os: "offsets = os @ [length sl]" "length os = f div 4 - Suc 0"
    using read_offsets_div [OF X h(1-3), of "length sl"] h(5) by auto
  have "verify_fields sl c vs offsets \<noteq> Panic"
    using h(4,6) os vs by (intro verify_fields_not_Panic) auto
  then show False using h(7) by simp
qed

lemma table_field_write:
  assumes X: "molecule_ok X" and i: "i < length fs" and lt: "table_size fs < 2 ^ 32"
  shows "table_field X (length fs) i (table_write X fs) = Ok (fs ! i)"
proof -
  let ?sl = "table_write X fs" and ?os = "table_offsets fs @ [table_size fs]"
  have l: "length ?sl = table_size fs" by (rule length_table_write [OF X])
  have at: "number_at X ?sl (4 * (j + 1)) = Ok (table_offsets fs ! j)" if "j < length fs" for j
    using table_number_at [OF X _ lt, of "j + 1"] that by simp
  have "cut ?sl ?os ! i = fs ! i" by (simp add: cut_table [OF X])
  moreover have "cut ?sl os ! j = take (os ! Suc j - os ! j) (drop (os ! j) ?sl)" if "Suc j < length os" for j os
    using that
  proof (induction os arbitrary: j rule: windows2.induct)
    case (1 a b xs)
    then show ?case by (cases j) auto
  qed auto
  ultimately have piece: "take (?os ! Suc i - ?os ! i) (drop (?os ! i) ?sl) = fs ! i"
    using i by simp
  have le: "?os ! i \<le> ?os ! Suc i"
    using i by (intro sorted_nth_mono [OF sorted_table_offsets]) auto
  show ?thesis
  proof (cases "i + 1 < length fs")
    case True
    then have "slice_range ?sl (?os ! i) (?os ! Suc i) = Ok (fs ! i)"
      using piece le table_offset_le [OF True] i by (simp add: slice_range_Ok l nth_append)
    then show ?thesis
      using True i at [of i] at [of "i + 1"] by (simp add: table_field_def NUMBER_SIZE_def nth_append)
  next
    case False
    then have last: "i + 1 = length fs" using i by simp
    have extra: "table_has_extra_fields X (length fs) ?sl = Ok False"
      using table_total [OF X lt] at [of 0] i table_offsets_0 [of fs]
      by (auto simp: table_has_extra_fields_def table_field_count_def NUMBER_SIZE_def table_size_def)
    have "slice_from ?sl (table_offsets fs ! i) = Ok (fs ! i)"
      using piece i last table_offset_le [OF i] by (simp add: slice_from_def l nth_append)
    then show ?thesis
      using last i at [of i] extra by (simp add: table_field_def NUMBER_SIZE_def)
  qed
qed

section \<open>Vectors of variable-size items\<close>

lemma windows2_bounds:
  "(a, b) \<in> set (windows2 os) \<Longrightarrow> sorted os \<Longrightarrow> last os \<le> n \<Longrightarrow> a \<le> b \<and> b \<le> (n::nat)"
proof (induction os rule: windows2.induct)
  case (1 x y xs)
  have "y \<le> last (y # xs)" using 1(3) by (intro sorted_last) auto
  then have "y \<le> n" using 1(4) by auto
  then show ?case using 1 by auto
qed auto

lemma verify_items_iff:
  assumes "sorted os" and "last os \<le> length sl"
  shows "try_for_each (\<lambda>(a, b). tryq (slice_range sl a b) (\<lambda>s. v s c)) (windows2 os) = Ok () \<longleftrightarrow>
     (\<forall>s\<in>set (cut sl os). v s c = Ok ())"
proof -
  have "tryq (slice_range sl a b) (\<lambda>s. v s c) = v (take (b - a) (drop a sl)) c"
    if "(a, b) \<in> set (windows2 os)" for a b
    using windows2_bounds [OF that assms] by (simp add: slice_range_Ok)
  then show ?thesis by (auto simp: try_for_each_eq_Ok cut_def)
qed

lemma verify_items_not_Panic:
  assumes "sorted os" and "last os \<le> length sl" and "\<And>s. v s c \<noteq> Panic"
  shows "try_for_each (\<lambda>(a, b). tryq (slice_range sl a b) (\<lambda>s. v s c)) (windows2 os) \<noteq> Panic"
  using windows2_bounds [OF _ assms(1,2)] assms(3)
  by (auto simp: slice_range_Ok dest!: try_for_each_Panic)

lemma length_dynvec_write:
  "molecule_ok X \<Longrightarrow> length (dynvec_write X items) = table_size items"
  by (simp add: dynvec_write_def table_size_def)

lemma table_size_gt: "items \<noteq> [] \<Longrightarrow> 8 \<le> table_size items"
  by (cases items) (simp_all add: table_size_def)

lemma table_count:
  assumes "molecule_ok X" and "table_size fs < 2 ^ 32" and "fs \<noteq> []"
  shows "table_field_count X (table_write X fs) = Ok (length fs)"
  using assms table_total [OF assms(1,2)] table_number_at [OF assms(1) _ assms(2), of 1]
    table_offsets_0 [OF assms(3)] table_size_gt [OF assms(3)]
  by (cases fs) (auto simp: table_field_count_def NUMBER_SIZE_def)

lemma dynvec_items_write:
  assumes X: "molecule_ok X" and lt: "length (dynvec_write X items) < 2 ^ 32"
  shows "dynvec_items X (dynvec_write X items) = Ok items"
proof (cases "items = []")
  case True
  then show ?thesis
    using unpack_pack_nat [OF X, of 4 "[]"]
    by (simp add: dynvec_items_def dynvec_write_def table_field_count_def NUMBER_SIZE_def)
next
  case False
  have sz: "table_size items < 2 ^ 32" using lt length_dynvec_write [OF X] by simp
  have n: "table_field_count X (table_write X items) = Ok (length items)"
    using table_count [OF X sz False] .
  have "dynvec_get_unchecked X (table_write X items) i = Ok (items ! i)" if "i < length items" for i
  proof -
    have "dynvec_get_unchecked X (table_write X items) i =
        table_field X (length items) i (table_write X items)"
    proof (cases "i = length items - 1")
      case True
      then show ?thesis
        using that n False
        by (simp add: dynvec_get_unchecked_def table_field_def table_has_extra_fields_def Let_def
            NUMBER_SIZE_def)
    next
      case last: False
      then have "Suc i < length items" using that by simp
      then show ?thesis
        using that n False last
        by (simp add: dynvec_get_unchecked_def table_field_def Let_def NUMBER_SIZE_def algebra_simps)
    qed
    then show ?thesis using table_field_write [OF X that sz] by simp
  qed
  then show ?thesis
    using n False by (auto simp: dynvec_items_def dynvec_write_def try_map_eq_Ok list_all2_conv_all_nth)
qed

lemma dynvec_verify_write:
  assumes X: "molecule_ok X" and lt: "length (dynvec_write X items) < 2 ^ 32"
    and ok: "\<And>s. s \<in> set items \<Longrightarrow> v s c = Ok ()"
  shows "dynvec_verify X v (dynvec_write X items) c = Ok ()"
proof (cases "items = []")
  case True
  then show ?thesis
    using unpack_pack_nat [OF X, of 4 "[]"] X
    by (simp add: dynvec_verify_def dynvec_write_def NUMBER_SIZE_def Let_def)
next
  case False
  let ?sl = "table_write X items" and ?os = "table_offsets items @ [table_size items]"
  have sz: "table_size items < 2 ^ 32" using lt length_dynvec_write [OF X] by simp
  have l: "length ?sl = table_size items" by (rule length_table_write [OF X])
  have first: "number_at X ?sl 4 = Ok (4 * (length items + 1))"
    using table_number_at [OF X _ sz, of 1] table_offsets_0 [OF False] False by (cases items) auto
  have "try_for_each (\<lambda>(a, b). tryq (slice_range ?sl a b) (\<lambda>s. v s c)) (windows2 ?os) = Ok ()"
    using ok by (subst verify_items_iff [OF sorted_table_offsets]) (simp_all add: l cut_table [OF X])
  moreover have "read_offsets X ?sl (length items) (table_size items) = Ok ?os"
    by (rule read_offsets_table [OF X sz])
  moreover have "4 * (length items + 1) \<le> table_size items" by (simp add: table_size_def)
  moreover have "8 \<le> table_size items" by (rule table_size_gt [OF False])
  ultimately show ?thesis
    using False
    by (simp add: dynvec_verify_def dynvec_write_def Let_def NUMBER_SIZE_def l table_total [OF X sz]
        first sorted_windows2 sorted_table_offsets)
qed

lemma dynvec_verify_strict:
  assumes X: "molecule_ok X" and ok: "dynvec_verify X v sl c = Ok ()"
  shows "\<exists>items. sl = dynvec_write X items \<and> length sl < 2 ^ 32 \<and> (\<forall>s\<in>set items. v s c = Ok ())"
proof (cases "length sl = 4")
  case True
  then have "unpack_number X sl = Ok 4"
    using ok by (auto simp: dynvec_verify_def Let_def NUMBER_SIZE_def outcome_simps split: if_splits)
  then have "pack_nat X 4 = sl" using unpack_number_Ok [OF X, of sl] True by auto
  then show ?thesis using True by (intro exI [of _ "[]"]) (simp add: dynvec_write_def NUMBER_SIZE_def)
next
  case False
  obtain first offsets where h: "4 \<le> length sl" "unpack_number X sl = Ok (length sl)"
      "number_at X sl 4 = Ok first" "4 dvd first" "8 \<le> first" "first \<le> length sl"
      "read_offsets X sl (first div 4 - Suc 0) (length sl) = Ok offsets" "sorted offsets"
      "try_for_each (\<lambda>(a, b). tryq (slice_range sl a b) (\<lambda>s. v s c)) (windows2 offsets) = Ok ()"
    using ok False
    by (auto simp: dynvec_verify_def Let_def NUMBER_SIZE_def outcome_simps sorted_windows2
        not_less split: if_splits)
  define n where "n = first div 4 - Suc 0"
  have first: "first = 4 * (n + 1)" "0 < n" using h(4,5) by (auto simp: n_def elim!: dvdE)
  obtain os where os: "read_offsets X sl n (length sl) = Ok (os @ [length sl])" "length os = n"
    using read_offsets_div [OF X h(4-6)] unfolding n_def by blast
  then have offs: "offsets = os @ [length sl]" using h(7) by (simp add: n_def)
  let ?fs = "cut sl (os @ [length sl])"
  have len: "4 * (n + 1) \<le> length sl" using h(6) first by simp
  have "number_at X sl 4 = Ok (4 * (n + 1))" using h(3) first by simp
  then have tab: "sl = table_write X ?fs"
    using sorted_table [OF X h(2) len first(2) _ os(1)] h(8) offs by simp
  moreover have "length sl < 2 ^ 32" using unpack_number_Ok [OF X h(1)] h(2) by auto
  moreover have "\<forall>s\<in>set ?fs. v s c = Ok ()"
    using h(8,9) unfolding offs by (subst (asm) verify_items_iff) auto
  moreover have "?fs \<noteq> []" using os(2) first(2) by (metis length_cut length_append_singleton diff_Suc_1 length_0_conv less_not_refl)
  ultimately show ?thesis by (intro exI [of _ ?fs]) (simp add: dynvec_write_def)
qed

lemma dynvec_verify_not_Panic:
  assumes X: "molecule_ok X" and v: "\<And>s. v s c \<noteq> Panic"
  shows "dynvec_verify X v sl c \<noteq> Panic"
proof
  assume panic: "dynvec_verify X v sl c = Panic"
  have u: "unpack_number X sl \<noteq> Panic" if "4 \<le> length sl"
    using unpack_number_Ok [OF X that] by auto
  have na: "number_at X sl 4 \<noteq> Panic" if "8 \<le> length sl"
    using number_at_Ok [OF X, of 4 sl] that by auto
  have np: "read_offsets X sl (f div 4 - Suc 0) tot \<noteq> Panic"
    if "4 dvd f" "8 \<le> f" "f \<le> length sl" for f tot
    using read_offsets_div [OF X that, of tot] by auto
  obtain f offsets where h: "4 dvd f" "8 \<le> f" "f \<le> length sl"
      "read_offsets X sl (f div 4 - Suc 0) (length sl) = Ok offsets" "sorted offsets"
      "try_for_each (\<lambda>(a, b). tryq (slice_range sl a b) (\<lambda>s. v s c)) (windows2 offsets) = Panic"
    using panic u na np
    by (fastforce simp: dynvec_verify_def Let_def NUMBER_SIZE_def outcome_simps sorted_windows2
        not_less split: if_splits)
  obtain os where "offsets = os @ [length sl]"
    using read_offsets_div [OF X h(1-3), of "length sl"] h(4) by auto
  then show False using verify_items_not_Panic [OF h(5), of sl v c] v h(6) by auto
qed

section \<open>Vectors of fixed-size items\<close>

lemma concat_chunks:
  "k * n \<le> length bs \<Longrightarrow>
     concat (map (\<lambda>i. take k (drop (k * i) bs)) [0..<n]) = take (k * n) bs"
proof (induction n)
  case (Suc n)
  then show ?case using take_add [of "k * n" k bs] by (simp add: add.commute)
qed simp

lemma drop_concat_items:
  "\<forall>s\<in>set items. length s = k \<Longrightarrow> i \<le> length items \<Longrightarrow>
     drop (k * i) (concat items) = concat (drop i items)"
proof (induction items arbitrary: i)
  case (Cons x items)
  then show ?case by (cases i) (auto simp: drop_append)
qed simp

lemma fixvec_items_write:
  assumes X: "molecule_ok X" and lt: "length items < 2 ^ 32" and sz: "\<forall>s\<in>set items. length s = k"
  shows "fixvec_items X k (fixvec_write X items) = Ok items"
proof -
  have cl: "length (concat items) = k * length items"
    using sz by (induction items) simp_all
  have "fixvec_get_unchecked k (fixvec_write X items) i = Ok (items ! i)" if "i < length items" for i
  proof -
    have "k * i + k \<le> k * length items"
      using that by (metis Suc_leI mult_Suc_right mult_le_mono2 add.commute)
    moreover have "drop (4 + k * i) (fixvec_write X items) = concat (drop i items)"
      using X drop_concat_items [OF sz, of i] that by (simp add: fixvec_write_def)
    moreover have "drop i items = items ! i # drop (Suc i) items" using that by (simp add: Cons_nth_drop_Suc)
    ultimately show ?thesis
      using X that sz
      by (simp add: fixvec_get_unchecked_def slice_range_def NUMBER_SIZE_def fixvec_write_def cl)
  qed
  then show ?thesis
    using unpack_pack_nat [OF X lt, of "concat items"]
    by (auto simp: fixvec_items_def fixvec_item_count_def fixvec_write_def try_map_eq_Ok
        list_all2_conv_all_nth)
qed

lemma fixvec_verify_write:
  assumes X: "molecule_ok X" and lt: "length items < 2 ^ 32" and sz: "\<forall>s\<in>set items. length s = k"
  shows "fixvec_verify X k (fixvec_write X items) c = Ok ()"
proof -
  have "length (concat items) = k * length items"
    using sz by (induction items) simp_all
  then show ?thesis
    using unpack_pack_nat [OF X lt, of "concat items"] X
    by (simp add: fixvec_verify_def fixvec_write_def NUMBER_SIZE_def Let_def)
qed

lemma fixvec_verify_strict:
  assumes X: "molecule_ok X" and ok: "fixvec_verify X k sl c = Ok ()"
  shows "\<exists>items. sl = fixvec_write X items \<and> length items < 2 ^ 32 \<and> (\<forall>s\<in>set items. length s = k)"
proof -
  obtain n where n: "4 \<le> length sl" "unpack_number X sl = Ok n" "length sl = 4 + k * n"
    using ok by (auto simp: fixvec_verify_def Let_def NUMBER_SIZE_def outcome_simps split: if_splits)
  have nn: "n < 2 ^ 32" "pack_nat X n = take 4 sl" using unpack_number_Ok [OF X n(1)] n(2) by auto
  let ?items = "map (\<lambda>i. take k (drop (k * i) (drop 4 sl))) [0..<n]"
  have "concat ?items = drop 4 sl" using n(3) concat_chunks [of k n "drop 4 sl"] by simp
  then have "sl = fixvec_write X ?items" using nn by (simp add: fixvec_write_def)
  moreover have "length s = k" if "s \<in> set ?items" for s
  proof -
    obtain i where i: "i < n" "s = take k (drop (k * i) (drop 4 sl))" using \<open>s \<in> set ?items\<close> by auto
    then have "k * i + k \<le> k * n"
      by (metis Suc_leI mult_Suc_right mult_le_mono2 add.commute)
    then show ?thesis using i n(3) by simp
  qed
  moreover have "length ?items < 2 ^ 32" using nn by simp
  ultimately show ?thesis by blast
qed

lemma fixvec_verify_not_Panic: "molecule_ok X \<Longrightarrow> fixvec_verify X k sl c \<noteq> Panic"
  using unpack_number_Ok [of X sl]
  by (auto simp: fixvec_verify_def Let_def NUMBER_SIZE_def outcome_simps not_less split: if_splits)

section \<open>The contract of a packed type\<close>

locale codec =
  fixes enc :: "'a \<Rightarrow> bytes"
    and verify :: "bytes \<Rightarrow> bool \<Rightarrow> (unit, verification_error) outcome"
    and rd :: "bytes \<Rightarrow> ('a, verification_error) outcome"
    and wf :: "'a \<Rightarrow> bool"
  assumes verify_enc: "wf a \<Longrightarrow> length (enc a) < 2 ^ 32 \<Longrightarrow> verify (enc a) c = Ok ()"
    and rd_enc: "wf a \<Longrightarrow> length (enc a) < 2 ^ 32 \<Longrightarrow> rd (enc a) = Ok a"
    and verify_strict: "verify bs False = Ok () \<Longrightarrow> \<exists>a. wf a \<and> enc a = bs \<and> rd bs = Ok a"
    and verify_not_Panic: "verify bs c \<noteq> Panic"
begin

lemma from_slice_enc: "wf a \<Longrightarrow> length (enc a) < 2 ^ 32 \<Longrightarrow> from_slice verify rd (enc a) = Ok a"
  by (simp add: from_slice_def verify_enc rd_enc)

lemma from_slice_Ok: "from_slice verify rd bs = Ok a \<Longrightarrow> wf a \<and> enc a = bs"
  using verify_strict [of bs] by (auto simp: from_slice_def outcome_simps)

lemma from_slice_not_Panic: "from_slice verify rd bs \<noteq> Panic"
  using verify_strict [of bs] verify_not_Panic [of bs False] by (auto simp: from_slice_def outcome_simps)

lemma enc_inj:
  assumes "wf a" "wf b" "length (enc a) < 2 ^ 32" "enc a = enc b"
  shows "a = b"
proof -
  have "rd (enc a) = Ok a" using assms(1,3) by (rule rd_enc)
  moreover have "rd (enc a) = Ok b" using rd_enc [OF assms(2)] assms(3) by (simp only: assms(4))
  ultimately show ?thesis by simp
qed

lemma rd_list:
  assumes "list_all wf xs" and "\<forall>x\<in>set xs. length (enc x) < 2 ^ 32"
  shows "try_map rd (map enc xs) = Ok xs"
  using assms by (induction xs) (auto simp: rd_enc)

lemma strict_list:
  assumes "\<forall>s\<in>set ss. verify s False = Ok ()"
  shows "\<exists>xs. list_all wf xs \<and> map enc xs = ss \<and> try_map rd ss = Ok xs"
  using assms
proof (induction ss)
  case (Cons s ss)
  then obtain xs where xs: "list_all wf xs" "map enc xs = ss" "try_map rd ss = Ok xs" by auto
  obtain x where "wf x" "enc x = s" "rd s = Ok x" using Cons.prems verify_strict by auto
  then show ?case using xs by (intro exI [of _ "x # xs"]) simp
qed simp

lemma length_item_le: "x \<in> set xs \<Longrightarrow> length (enc x) \<le> length (concat (map enc xs))"
  by (induction xs) auto

lemma dynvec_codec:
  assumes X: "molecule_ok X"
  shows "codec (\<lambda>xs. dynvec_write X (map enc xs)) (dynvec_verify X verify)
     (\<lambda>bs. tryq (dynvec_items X bs) (try_map rd)) (list_all wf)"
proof
  fix xs c
  assume wf: "list_all wf xs" and lt: "length (dynvec_write X (map enc xs)) < 2 ^ 32"
  have "length (concat (map enc xs)) < 2 ^ 32"
    using lt by (simp add: length_dynvec_write [OF X] table_size_def)
  then have each: "\<forall>x\<in>set xs. length (enc x) < 2 ^ 32"
    using length_item_le le_less_trans by blast
  show "dynvec_verify X verify (dynvec_write X (map enc xs)) c = Ok ()"
    using wf each by (intro dynvec_verify_write [OF X lt]) (auto simp: list_all_iff verify_enc)
  show "tryq (dynvec_items X (dynvec_write X (map enc xs))) (try_map rd) = Ok xs"
    using rd_list [OF wf each] by (simp add: dynvec_items_write [OF X lt])
next
  fix bs
  assume "dynvec_verify X verify bs False = Ok ()"
  then obtain ss where ss: "bs = dynvec_write X ss" "length bs < 2 ^ 32" "\<forall>s\<in>set ss. verify s False = Ok ()"
    using dynvec_verify_strict [OF X] by blast
  moreover obtain xs where "list_all wf xs" "map enc xs = ss" "try_map rd ss = Ok xs"
    using strict_list [OF ss(3)] by blast
  ultimately show "\<exists>xs. list_all wf xs \<and> dynvec_write X (map enc xs) = bs \<and>
      tryq (dynvec_items X bs) (try_map rd) = Ok xs"
    using dynvec_items_write [OF X, of ss] by (intro exI [of _ xs]) simp
qed (rule dynvec_verify_not_Panic [OF X verify_not_Panic])

lemma option_codec:
  assumes "\<And>c. verify [] c \<noteq> Ok ()"
  shows "codec (option_write enc) (option_verify verify) (option_read rd) (pred_option wf)"
proof
  fix x c
  assume "pred_option wf x" and "length (option_write enc x) < 2 ^ 32"
  then show "option_verify verify (option_write enc x) c = Ok ()"
    and "option_read rd (option_write enc x) = Ok x"
    using assms verify_enc rd_enc
    by (cases x; fastforce simp: option_write_def option_verify_def option_read_def)+
next
  fix bs
  assume "option_verify verify bs False = Ok ()"
  then show "\<exists>x. pred_option wf x \<and> option_write enc x = bs \<and> option_read rd bs = Ok x"
    using verify_strict [of bs]
    by (cases "bs = []")
      (force simp: option_write_def option_verify_def option_read_def intro: exI [of _ None])+
qed (simp add: option_verify_def verify_not_Panic)

end

text \<open>Packed types of a fixed size \<open>k\<close>; the check of such a type only looks at the length.\<close>

locale fixed_codec = codec +
  fixes k :: nat
  assumes length_enc: "wf a \<Longrightarrow> length (enc a) = k"
    and verify_iff: "verify bs c = Ok () \<longleftrightarrow> length bs = k"
    and k_pos: "0 < k" and k_small: "k < 2 ^ 32"
begin

lemma rd_enc_fixed: "wf a \<Longrightarrow> rd (enc a) = Ok a"
  using rd_enc [of a] length_enc [of a] k_small by simp

lemma rd_length: "length bs = k \<Longrightarrow> \<exists>a. wf a \<and> enc a = bs \<and> rd bs = Ok a"
  using verify_strict [of bs] by (simp add: verify_iff)

lemma length_items: "list_all wf xs \<Longrightarrow> length (concat (map enc xs)) = k * length xs"
  by (induction xs) (auto simp: length_enc)

lemma fixvec_codec:
  assumes X: "molecule_ok X"
  shows "codec (\<lambda>xs. fixvec_write X (map enc xs)) (fixvec_verify X k)
     (\<lambda>bs. tryq (fixvec_items X k bs) (try_map rd)) (list_all wf)"
proof
  fix xs c
  assume wf: "list_all wf xs" and lt: "length (fixvec_write X (map enc xs)) < 2 ^ 32"
  have "length xs \<le> k * length xs" using k_pos by simp
  moreover have "k * length xs < 2 ^ 32"
    using lt X length_items [OF wf] by (simp add: fixvec_write_def)
  ultimately have n: "length (map enc xs) < 2 ^ 32" unfolding length_map by (rule le_less_trans)
  have sz: "\<forall>s\<in>set (map enc xs). length s = k" using wf by (auto simp: list_all_iff length_enc)
  show "fixvec_verify X k (fixvec_write X (map enc xs)) c = Ok ()"
    by (rule fixvec_verify_write [OF X n sz])
  have "\<forall>x\<in>set xs. length (enc x) < 2 ^ 32" using sz k_small by simp
  then show "tryq (fixvec_items X k (fixvec_write X (map enc xs))) (try_map rd) = Ok xs"
    using rd_list [OF wf] by (simp add: fixvec_items_write [OF X n sz])
next
  fix bs
  assume "fixvec_verify X k bs False = Ok ()"
  then obtain ss where ss: "bs = fixvec_write X ss" "length ss < 2 ^ 32" "\<forall>s\<in>set ss. length s = k"
    using fixvec_verify_strict [OF X] by blast
  moreover obtain xs where "list_all wf xs" "map enc xs = ss" "try_map rd ss = Ok xs"
    using strict_list [of ss] ss(3) by (auto simp: verify_iff)
  ultimately show "\<exists>xs. list_all wf xs \<and> fixvec_write X (map enc xs) = bs \<and>
      tryq (fixvec_items X k bs) (try_map rd) = Ok xs"
    using fixvec_items_write [OF X ss(2,3)] by (intro exI [of _ xs]) simp
qed (rule fixvec_verify_not_Panic [OF X])

end

lemma fixvec_verify_empty: "fixvec_verify X k [] c \<noteq> Ok ()"
  by (simp add: fixvec_verify_def NUMBER_SIZE_def)

lemma table_verify_empty: "table_verify X vs [] c \<noteq> Ok ()"
  by (simp add: table_verify_def NUMBER_SIZE_def)

end
