(* ===== verification/Molecule.thy ===== *)
theory Molecule
  imports Molecule_Core
begin

text \<open>
  The packed types of \<open>util/types/src/generated/blockchain.rs\<close> (and \<open>OutPointVec\<close> of
  \<open>extensions.rs\<close>): for each type the bytes its builder writes, the check of untrusted
  bytes, and the value its accessors read, as instances of the layouts of \<open>Molecule_Core\<close>.
  Every type satisfies the contract \<open>codec\<close>; for the block this gives the round trip, the
  uniqueness of the encoding, and that checking arbitrary bytes does not panic.
\<close>

section \<open>Fixed-size types\<close>

definition uint32_write :: "u32 \<Rightarrow> bytes" where "uint32_write = to_le_bytes"
definition uint32_verify where "uint32_verify = array_verify 4"
definition uint32_read :: "bytes \<Rightarrow> (u32, verification_error) outcome" where
  "uint32_read bs = (if length bs = 4 then Ok (from_le_bytes bs) else Panic)"

definition uint64_write :: "u64 \<Rightarrow> bytes" where "uint64_write = to_le_bytes"
definition uint64_verify where "uint64_verify = array_verify 8"
definition uint64_read :: "bytes \<Rightarrow> (u64, verification_error) outcome" where
  "uint64_read bs = (if length bs = 8 then Ok (from_le_bytes bs) else Panic)"

definition uint128_write :: "u128 \<Rightarrow> bytes" where "uint128_write = to_le_bytes"
definition uint128_verify where "uint128_verify = array_verify 16"
definition uint128_read :: "bytes \<Rightarrow> (u128, verification_error) outcome" where
  "uint128_read bs = (if length bs = 16 then Ok (from_le_bytes bs) else Panic)"

definition byte32_write :: "byte32 \<Rightarrow> bytes" where "byte32_write h = h"
definition byte32_verify where "byte32_verify = array_verify 32"
definition byte32_read :: "bytes \<Rightarrow> (byte32, verification_error) outcome" where "byte32_read bs = Ok bs"

definition proposal_short_id_write :: "proposal_short_id \<Rightarrow> bytes" where "proposal_short_id_write p = p"
definition proposal_short_id_verify where "proposal_short_id_verify = array_verify 10"
definition proposal_short_id_read :: "bytes \<Rightarrow> (proposal_short_id, verification_error) outcome" where
  "proposal_short_id_read bs = Ok bs"

definition byte_write :: "u8 \<Rightarrow> bytes" where "byte_write b = [b]"
definition byte_verify where "byte_verify X bs (c :: bool) = x_byte_verify X bs"
definition byte_read :: "bytes \<Rightarrow> (u8, verification_error) outcome" where
  "byte_read bs = (case bs of [] \<Rightarrow> Panic | b # _ \<Rightarrow> Ok b)"

definition out_point_write :: "out_point \<Rightarrow> bytes" where
  "out_point_write p = byte32_write (op_tx_hash p) @ uint32_write (op_index p)"
definition out_point_verify where "out_point_verify = array_verify 36"
definition out_point_read :: "bytes \<Rightarrow> (out_point, verification_error) outcome" where
  "out_point_read bs =
     tryq (tryq (slice_range bs 0 32) byte32_read) (\<lambda>h.
     tryq (tryq (slice_range bs 32 36) uint32_read) (\<lambda>i.
     Ok \<lparr>op_tx_hash = h, op_index = i\<rparr>))"

definition cell_input_write :: "cell_input \<Rightarrow> bytes" where
  "cell_input_write i = uint64_write (ci_since i) @ out_point_write (ci_previous_output i)"
definition cell_input_verify where "cell_input_verify = array_verify 44"
definition cell_input_read :: "bytes \<Rightarrow> (cell_input, verification_error) outcome" where
  "cell_input_read bs =
     tryq (tryq (slice_range bs 0 8) uint64_read) (\<lambda>s.
     tryq (tryq (slice_range bs 8 44) out_point_read) (\<lambda>p.
     Ok \<lparr>ci_since = s, ci_previous_output = p\<rparr>))"

definition cell_dep_write :: "cell_dep \<Rightarrow> bytes" where
  "cell_dep_write d = out_point_write (cd_out_point d) @ byte_write (cd_dep_type d)"
definition cell_dep_verify where "cell_dep_verify = array_verify 37"
definition cell_dep_read :: "bytes \<Rightarrow> (cell_dep, verification_error) outcome" where
  "cell_dep_read bs =
     tryq (tryq (slice_range bs 0 36) out_point_read) (\<lambda>p.
     tryq (tryq (slice_range bs 36 37) byte_read) (\<lambda>t.
     Ok \<lparr>cd_out_point = p, cd_dep_type = t\<rparr>))"

definition raw_header_write :: "'a raw_header_scheme \<Rightarrow> bytes" where
  "raw_header_write h =
     uint32_write (h_version h) @ uint32_write (h_compact_target h) @ uint64_write (h_timestamp h) @
     uint64_write (h_number h) @ uint64_write (h_epoch h) @ byte32_write (h_parent_hash h) @
     byte32_write (h_transactions_root h) @ byte32_write (h_proposals_hash h) @
     byte32_write (h_uncles_hash h) @ byte32_write (h_dao h)"
definition raw_header_verify where "raw_header_verify = array_verify 192"
definition raw_header_read :: "bytes \<Rightarrow> (raw_header, verification_error) outcome" where
  "raw_header_read bs =
     tryq (tryq (slice_range bs 0 4) uint32_read) (\<lambda>v.
     tryq (tryq (slice_range bs 4 8) uint32_read) (\<lambda>t.
     tryq (tryq (slice_range bs 8 16) uint64_read) (\<lambda>ts.
     tryq (tryq (slice_range bs 16 24) uint64_read) (\<lambda>n.
     tryq (tryq (slice_range bs 24 32) uint64_read) (\<lambda>e.
     tryq (tryq (slice_range bs 32 64) byte32_read) (\<lambda>p.
     tryq (tryq (slice_range bs 64 96) byte32_read) (\<lambda>r.
     tryq (tryq (slice_range bs 96 128) byte32_read) (\<lambda>ph.
     tryq (tryq (slice_range bs 128 160) byte32_read) (\<lambda>u.
     tryq (tryq (slice_range bs 160 192) byte32_read) (\<lambda>d.
     Ok \<lparr>h_version = v, h_compact_target = t, h_timestamp = ts, h_number = n, h_epoch = e,
         h_parent_hash = p, h_transactions_root = r, h_proposals_hash = ph, h_uncles_hash = u,
         h_dao = d\<rparr>))))))))))"

definition header_write :: "'a header_scheme \<Rightarrow> bytes" where
  "header_write h = raw_header_write h @ uint128_write (h_nonce h)"
definition header_verify where "header_verify = array_verify 208"
definition header_read :: "bytes \<Rightarrow> (header, verification_error) outcome" where
  "header_read bs =
     tryq (tryq (slice_range bs 0 192) raw_header_read) (\<lambda>r.
     tryq (tryq (slice_range bs 192 208) uint128_read) (\<lambda>n.
     Ok (raw_header.extend r \<lparr>h_nonce = n\<rparr>)))"

section \<open>Vectors and options\<close>

definition bytes_write :: "'z ext_scheme \<Rightarrow> bytes \<Rightarrow> bytes" where
  "bytes_write X bs = fixvec_write X (map byte_write bs)"
definition bytes_verify where "bytes_verify X = fixvec_verify X 1"
definition bytes_raw_data :: "bytes \<Rightarrow> (bytes, verification_error) outcome" where
  "bytes_raw_data bs = slice_from bs NUMBER_SIZE"

definition byte32_vec_write where
  "byte32_vec_write X hs = fixvec_write X (map byte32_write hs)"
definition byte32_vec_verify where "byte32_vec_verify X = fixvec_verify X 32"
definition byte32_vec_read where
  "byte32_vec_read X bs = tryq (fixvec_items X 32 bs) (try_map byte32_read)"

definition proposal_short_id_vec_write where
  "proposal_short_id_vec_write X ps = fixvec_write X (map proposal_short_id_write ps)"
definition proposal_short_id_vec_verify where "proposal_short_id_vec_verify X = fixvec_verify X 10"
definition proposal_short_id_vec_read where
  "proposal_short_id_vec_read X bs = tryq (fixvec_items X 10 bs) (try_map proposal_short_id_read)"

definition cell_dep_vec_write where
  "cell_dep_vec_write X ds = fixvec_write X (map cell_dep_write ds)"
definition cell_dep_vec_verify where "cell_dep_vec_verify X = fixvec_verify X 37"
definition cell_dep_vec_read where
  "cell_dep_vec_read X bs = tryq (fixvec_items X 37 bs) (try_map cell_dep_read)"

definition cell_input_vec_write where
  "cell_input_vec_write X ins = fixvec_write X (map cell_input_write ins)"
definition cell_input_vec_verify where "cell_input_vec_verify X = fixvec_verify X 44"
definition cell_input_vec_read where
  "cell_input_vec_read X bs = tryq (fixvec_items X 44 bs) (try_map cell_input_read)"

definition out_point_vec_write where
  "out_point_vec_write X ps = fixvec_write X (map out_point_write ps)"
definition out_point_vec_verify where "out_point_vec_verify X = fixvec_verify X 36"
definition out_point_vec_read where
  "out_point_vec_read X bs = tryq (fixvec_items X 36 bs) (try_map out_point_read)"

definition bytes_opt_write where "bytes_opt_write X = option_write (bytes_write X)"
definition bytes_opt_verify where "bytes_opt_verify X = option_verify (bytes_verify X)"
definition bytes_opt_read where "bytes_opt_read = option_read bytes_raw_data"

definition bytes_vec_write where "bytes_vec_write X bss = dynvec_write X (map (bytes_write X) bss)"
definition bytes_vec_verify where "bytes_vec_verify X = dynvec_verify X (bytes_verify X)"
definition bytes_vec_read where
  "bytes_vec_read X bs = tryq (dynvec_items X bs) (try_map bytes_raw_data)"

section \<open>Tables\<close>

definition script_write :: "'z ext_scheme \<Rightarrow> script \<Rightarrow> bytes" where
  "script_write X s =
     table_write X [byte32_write (sc_code_hash s), byte_write (sc_hash_type s), bytes_write X (sc_args s)]"
definition script_verify where
  "script_verify X = table_verify X [byte32_verify, byte_verify X, bytes_verify X]"
definition script_read :: "'z ext_scheme \<Rightarrow> bytes \<Rightarrow> (script, verification_error) outcome" where
  "script_read X bs =
     tryq (tryq (table_field X 3 0 bs) byte32_read) (\<lambda>h.
     tryq (tryq (table_field X 3 1 bs) byte_read) (\<lambda>t.
     tryq (tryq (table_field X 3 2 bs) bytes_raw_data) (\<lambda>a.
     Ok \<lparr>sc_code_hash = h, sc_hash_type = t, sc_args = a\<rparr>)))"

definition script_opt_write where "script_opt_write X = option_write (script_write X)"
definition script_opt_verify where "script_opt_verify X = option_verify (script_verify X)"
definition script_opt_read where "script_opt_read X = option_read (script_read X)"

definition cell_output_write :: "'z ext_scheme \<Rightarrow> cell_output \<Rightarrow> bytes" where
  "cell_output_write X out =
     table_write X [uint64_write (co_capacity out), script_write X (co_lock out),
                    script_opt_write X (co_type out)]"
definition cell_output_verify where
  "cell_output_verify X = table_verify X [uint64_verify, script_verify X, script_opt_verify X]"
definition cell_output_read :: "'z ext_scheme \<Rightarrow> bytes \<Rightarrow> (cell_output, verification_error) outcome" where
  "cell_output_read X bs =
     tryq (tryq (table_field X 3 0 bs) uint64_read) (\<lambda>c.
     tryq (tryq (table_field X 3 1 bs) (script_read X)) (\<lambda>l.
     tryq (tryq (table_field X 3 2 bs) (script_opt_read X)) (\<lambda>t.
     Ok \<lparr>co_capacity = c, co_lock = l, co_type = t\<rparr>)))"

definition cell_output_vec_write where
  "cell_output_vec_write X outs = dynvec_write X (map (cell_output_write X) outs)"
definition cell_output_vec_verify where
  "cell_output_vec_verify X = dynvec_verify X (cell_output_verify X)"
definition cell_output_vec_read where
  "cell_output_vec_read X bs = tryq (dynvec_items X bs) (try_map (cell_output_read X))"

definition raw_transaction_write :: "'z ext_scheme \<Rightarrow> 'a raw_transaction_scheme \<Rightarrow> bytes" where
  "raw_transaction_write X tx =
     table_write X [uint32_write (tx_version tx), cell_dep_vec_write X (tx_cell_deps tx),
       byte32_vec_write X (tx_header_deps tx), cell_input_vec_write X (tx_inputs tx),
       cell_output_vec_write X (tx_outputs tx), bytes_vec_write X (tx_outputs_data tx)]"
definition raw_transaction_verify where
  "raw_transaction_verify X =
     table_verify X [uint32_verify, cell_dep_vec_verify X, byte32_vec_verify X,
       cell_input_vec_verify X, cell_output_vec_verify X, bytes_vec_verify X]"
definition raw_transaction_read ::
  "'z ext_scheme \<Rightarrow> bytes \<Rightarrow> (raw_transaction, verification_error) outcome" where
  "raw_transaction_read X bs =
     tryq (tryq (table_field X 6 0 bs) uint32_read) (\<lambda>v.
     tryq (tryq (table_field X 6 1 bs) (cell_dep_vec_read X)) (\<lambda>cds.
     tryq (tryq (table_field X 6 2 bs) (byte32_vec_read X)) (\<lambda>hds.
     tryq (tryq (table_field X 6 3 bs) (cell_input_vec_read X)) (\<lambda>ins.
     tryq (tryq (table_field X 6 4 bs) (cell_output_vec_read X)) (\<lambda>outs.
     tryq (tryq (table_field X 6 5 bs) (bytes_vec_read X)) (\<lambda>ods.
     Ok \<lparr>tx_version = v, tx_cell_deps = cds, tx_header_deps = hds, tx_inputs = ins,
         tx_outputs = outs, tx_outputs_data = ods\<rparr>))))))"

definition transaction_write :: "'z ext_scheme \<Rightarrow> 'a transaction_scheme \<Rightarrow> bytes" where
  "transaction_write X tx =
     table_write X [raw_transaction_write X tx, bytes_vec_write X (tx_witnesses tx)]"
definition transaction_verify where
  "transaction_verify X = table_verify X [raw_transaction_verify X, bytes_vec_verify X]"
definition transaction_read :: "'z ext_scheme \<Rightarrow> bytes \<Rightarrow> (transaction, verification_error) outcome" where
  "transaction_read X bs =
     tryq (tryq (table_field X 2 0 bs) (raw_transaction_read X)) (\<lambda>r.
     tryq (tryq (table_field X 2 1 bs) (bytes_vec_read X)) (\<lambda>w.
     Ok (raw_transaction.extend r \<lparr>tx_witnesses = w\<rparr>)))"

definition transaction_vec_write where
  "transaction_vec_write X txs = dynvec_write X (map (transaction_write X) txs)"
definition transaction_vec_verify where
  "transaction_vec_verify X = dynvec_verify X (transaction_verify X)"
definition transaction_vec_read where
  "transaction_vec_read X bs = tryq (dynvec_items X bs) (try_map (transaction_read X))"

definition uncle_block_write :: "'z ext_scheme \<Rightarrow> 'a uncle_block_scheme \<Rightarrow> bytes" where
  "uncle_block_write X u =
     table_write X [header_write (ub_header u), proposal_short_id_vec_write X (ub_proposals u)]"
definition uncle_block_verify where
  "uncle_block_verify X = table_verify X [header_verify, proposal_short_id_vec_verify X]"
definition uncle_block_read :: "'z ext_scheme \<Rightarrow> bytes \<Rightarrow> (uncle_block, verification_error) outcome" where
  "uncle_block_read X bs =
     tryq (tryq (table_field X 2 0 bs) header_read) (\<lambda>h.
     tryq (tryq (table_field X 2 1 bs) (proposal_short_id_vec_read X)) (\<lambda>p.
     Ok \<lparr>ub_header = h, ub_proposals = p\<rparr>))"

definition uncle_block_vec_write where
  "uncle_block_vec_write X us = dynvec_write X (map (uncle_block_write X) us)"
definition uncle_block_vec_verify where
  "uncle_block_vec_verify X = dynvec_verify X (uncle_block_verify X)"
definition uncle_block_vec_read where
  "uncle_block_vec_read X bs = tryq (dynvec_items X bs) (try_map (uncle_block_read X))"

definition block_write :: "'z ext_scheme \<Rightarrow> 'a block_scheme \<Rightarrow> bytes" where
  "block_write X b =
     table_write X [header_write (b_header b), uncle_block_vec_write X (b_uncles b),
       transaction_vec_write X (b_transactions b), proposal_short_id_vec_write X (b_proposals b)]"
definition block_verify where
  "block_verify X =
     table_verify X [header_verify, uncle_block_vec_verify X, transaction_vec_verify X,
       proposal_short_id_vec_verify X]"
definition block_read :: "'z ext_scheme \<Rightarrow> bytes \<Rightarrow> (block, verification_error) outcome" where
  "block_read X bs =
     tryq (tryq (table_field X 4 0 bs) header_read) (\<lambda>h.
     tryq (tryq (table_field X 4 1 bs) (uncle_block_vec_read X)) (\<lambda>us.
     tryq (tryq (table_field X 4 2 bs) (transaction_vec_read X)) (\<lambda>txs.
     tryq (tryq (table_field X 4 3 bs) (proposal_short_id_vec_read X)) (\<lambda>ps.
     Ok \<lparr>b_header = h, b_uncles = us, b_transactions = txs, b_proposals = ps\<rparr>))))"

definition cellbase_witness_write :: "'z ext_scheme \<Rightarrow> cellbase_witness \<Rightarrow> bytes" where
  "cellbase_witness_write X w =
     table_write X [script_write X (cw_lock w), bytes_write X (cw_message w)]"
definition cellbase_witness_verify where
  "cellbase_witness_verify X = table_verify X [script_verify X, bytes_verify X]"
definition cellbase_witness_read ::
  "'z ext_scheme \<Rightarrow> bytes \<Rightarrow> (cellbase_witness, verification_error) outcome" where
  "cellbase_witness_read X bs =
     tryq (tryq (table_field X 2 0 bs) (script_read X)) (\<lambda>l.
     tryq (tryq (table_field X 2 1 bs) bytes_raw_data) (\<lambda>m.
     Ok \<lparr>cw_lock = l, cw_message = m\<rparr>))"

definition witness_args_write :: "'z ext_scheme \<Rightarrow> witness_args \<Rightarrow> bytes" where
  "witness_args_write X w =
     table_write X [bytes_opt_write X (wa_lock w), bytes_opt_write X (wa_input_type w),
       bytes_opt_write X (wa_output_type w)]"
definition witness_args_verify where
  "witness_args_verify X =
     table_verify X [bytes_opt_verify X, bytes_opt_verify X, bytes_opt_verify X]"
definition witness_args_read ::
  "'z ext_scheme \<Rightarrow> bytes \<Rightarrow> (witness_args, verification_error) outcome" where
  "witness_args_read X bs =
     tryq (tryq (table_field X 3 0 bs) bytes_opt_read) (\<lambda>l.
     tryq (tryq (table_field X 3 1 bs) bytes_opt_read) (\<lambda>i.
     tryq (tryq (table_field X 3 2 bs) bytes_opt_read) (\<lambda>t.
     Ok \<lparr>wa_lock = l, wa_input_type = i, wa_output_type = t\<rparr>)))"

section \<open>A concrete runtime\<close>

text \<open>
  Little-endian numbers, a one-byte \<open>byte\<close>, the exact integers, and stand-ins for the digest
  and the Merkle tree: an instance of the external functions for the examples.
\<close>

definition ext_word :: ext where
  "ext_word = numext.extend numext_word \<lparr>
     x_blake2b = (\<lambda>bs. take 32 (bs @ byte32_zero)),
     x_pack_number = to_le_bytes,
     x_unpack_number = (\<lambda>bs. if 4 \<le> length bs then Some (from_le_bytes (take 4 bs)) else None),
     x_byte_verify = (\<lambda>bs. array_verify 1 bs False),
     x_eaglesong = (\<lambda>bs. byte32_zero),
     x_u256_from_big_endian = (\<lambda>bs. if length bs = 32 then Some (from_le_bytes (rev bs)) else None),
     x_build_merkle_root = (\<lambda>merge leaves. foldr merge leaves byte32_zero)\<rparr>"

definition example_tx :: transaction where
  "example_tx = \<lparr>tx_version = 0, tx_cell_deps = [], tx_header_deps = [byte32_zero],
     tx_inputs = [new_cellbase_input 7],
     tx_outputs = [\<lparr>co_capacity = 100, co_lock = \<lparr>sc_code_hash = byte32_zero, sc_hash_type = 0, sc_args = [1, 2]\<rparr>,
                    co_type = None\<rparr>],
     tx_outputs_data = [[5]], tx_witnesses = [[]]\<rparr>"

definition example_header :: header where
  "example_header = \<lparr>h_version = 0, h_compact_target = 0x20010000, h_timestamp = 1, h_number = 7,
     h_epoch = 0, h_parent_hash = byte32_zero, h_transactions_root = byte32_zero,
     h_proposals_hash = byte32_zero, h_uncles_hash = byte32_zero, h_dao = byte32_zero, h_nonce = 3\<rparr>"

definition example_block :: block where
  "example_block = \<lparr>b_header = example_header,
     b_uncles = [\<lparr>ub_header = example_header, ub_proposals = []\<rparr>],
     b_transactions = [example_tx], b_proposals = [replicate 10 1]\<rparr>"

section \<open>Well-formed values\<close>

text \<open>The fixed sizes of hashes and short ids, which the Rust types enforce.\<close>

definition byte32_wf :: "byte32 \<Rightarrow> bool" where "byte32_wf h \<longleftrightarrow> length h = 32"
definition proposal_short_id_wf :: "proposal_short_id \<Rightarrow> bool" where
  "proposal_short_id_wf p \<longleftrightarrow> length p = 10"
definition out_point_wf :: "out_point \<Rightarrow> bool" where "out_point_wf p \<longleftrightarrow> byte32_wf (op_tx_hash p)"
definition cell_input_wf :: "cell_input \<Rightarrow> bool" where
  "cell_input_wf i \<longleftrightarrow> out_point_wf (ci_previous_output i)"
definition cell_dep_wf :: "cell_dep \<Rightarrow> bool" where "cell_dep_wf d \<longleftrightarrow> out_point_wf (cd_out_point d)"
definition raw_header_wf :: "'a raw_header_scheme \<Rightarrow> bool" where
  "raw_header_wf h \<longleftrightarrow>
     byte32_wf (h_parent_hash h) \<and> byte32_wf (h_transactions_root h) \<and>
     byte32_wf (h_proposals_hash h) \<and> byte32_wf (h_uncles_hash h) \<and> byte32_wf (h_dao h)"
definition script_wf :: "script \<Rightarrow> bool" where "script_wf s \<longleftrightarrow> byte32_wf (sc_code_hash s)"
definition cell_output_wf :: "cell_output \<Rightarrow> bool" where
  "cell_output_wf out \<longleftrightarrow> script_wf (co_lock out) \<and> pred_option script_wf (co_type out)"
definition raw_transaction_wf :: "'a raw_transaction_scheme \<Rightarrow> bool" where
  "raw_transaction_wf tx \<longleftrightarrow>
     list_all cell_dep_wf (tx_cell_deps tx) \<and> list_all byte32_wf (tx_header_deps tx) \<and>
     list_all cell_input_wf (tx_inputs tx) \<and> list_all cell_output_wf (tx_outputs tx)"
definition uncle_block_wf :: "'a uncle_block_scheme \<Rightarrow> bool" where
  "uncle_block_wf u \<longleftrightarrow>
     raw_header_wf (ub_header u) \<and> list_all proposal_short_id_wf (ub_proposals u)"
definition block_wf :: "'a block_scheme \<Rightarrow> bool" where
  "block_wf b \<longleftrightarrow>
     raw_header_wf (b_header b) \<and> list_all uncle_block_wf (b_uncles b) \<and>
     list_all raw_transaction_wf (b_transactions b) \<and>
     list_all proposal_short_id_wf (b_proposals b)"
definition cellbase_witness_wf :: "cellbase_witness \<Rightarrow> bool" where
  "cellbase_witness_wf w \<longleftrightarrow> script_wf (cw_lock w)"

section \<open>Codecs of the fixed-size types\<close>

lemma array_fixed_codec:
  assumes "\<And>a. W a \<Longrightarrow> length (enc a) = k" and "\<And>a. W a \<Longrightarrow> rd (enc a) = Ok a"
    and "\<And>bs. length bs = k \<Longrightarrow> \<exists>a. W a \<and> enc a = bs \<and> rd bs = Ok a"
    and "0 < k" and "k < 2 ^ 32"
  shows "fixed_codec enc (array_verify k) rd W k"
  using assms by unfold_locales (auto simp: array_verify_def split: if_splits)

lemma uint32_codec: "fixed_codec uint32_write uint32_verify uint32_read (\<lambda>_. True) 4"
  unfolding uint32_verify_def
  by (rule array_fixed_codec)
    (auto simp: uint32_write_def uint32_read_def from_to_le_bytes to_from_le_bytes)

lemma uint64_codec: "fixed_codec uint64_write uint64_verify uint64_read (\<lambda>_. True) 8"
  unfolding uint64_verify_def
  by (rule array_fixed_codec)
    (auto simp: uint64_write_def uint64_read_def from_to_le_bytes to_from_le_bytes)

lemma uint128_codec: "fixed_codec uint128_write uint128_verify uint128_read (\<lambda>_. True) 16"
  unfolding uint128_verify_def
  by (rule array_fixed_codec)
    (auto simp: uint128_write_def uint128_read_def from_to_le_bytes to_from_le_bytes)

lemma byte32_codec: "fixed_codec byte32_write byte32_verify byte32_read byte32_wf 32"
  unfolding byte32_verify_def
  by (rule array_fixed_codec) (auto simp: byte32_write_def byte32_read_def byte32_wf_def)

lemma proposal_short_id_codec:
  "fixed_codec proposal_short_id_write proposal_short_id_verify proposal_short_id_read
     proposal_short_id_wf 10"
  unfolding proposal_short_id_verify_def
  by (rule array_fixed_codec)
    (auto simp: proposal_short_id_write_def proposal_short_id_read_def proposal_short_id_wf_def)

lemma byte_codec: "molecule_ok X \<Longrightarrow> fixed_codec byte_write (byte_verify X) byte_read (\<lambda>_. True) 1"
  by unfold_locales
    (auto simp: byte_write_def byte_read_def byte_verify_def molecule_ok_def length_Suc_conv)

text \<open>Fields of a struct: the pieces of an appended encoding, and of a slice of known length.\<close>

lemma slice_range_append:
  "length xs = a \<Longrightarrow> length ys = b - a \<Longrightarrow> a \<le> b \<Longrightarrow> slice_range (xs @ ys @ zs) a b = Ok ys"
  by (simp add: slice_range_def)

lemma fixed_field:
  assumes "fixed_codec enc v rd W k" and "b = a + k" and "b \<le> length bs"
  shows "\<exists>x. W x \<and> enc x = take k (drop a bs) \<and> tryq (slice_range bs a b) rd = Ok x"
  using fixed_codec.rd_length [OF assms(1), of "take k (drop a bs)"] assms(2,3)
  by (simp add: slice_range_def)

lemma struct2_codec:
  assumes c1: "fixed_codec e1 v1 r1 w1 k1" and c2: "fixed_codec e2 v2 r2 w2 k2"
    and k: "k = k1 + k2" "k < 2 ^ 32"
    and mk: "\<And>x y. p1 (mk x y) = x" "\<And>x y. p2 (mk x y) = y" "\<And>a. mk (p1 a) (p2 a) = a"
  shows "fixed_codec (\<lambda>a. e1 (p1 a) @ e2 (p2 a)) (array_verify k)
     (\<lambda>bs. tryq (tryq (slice_range bs 0 k1) r1) (\<lambda>x. tryq (tryq (slice_range bs k1 k) r2) (\<lambda>y. Ok (mk x y))))
     (\<lambda>a. w1 (p1 a) \<and> w2 (p2 a)) k"
proof (rule array_fixed_codec)
  fix a
  assume wf: "w1 (p1 a) \<and> w2 (p2 a)"
  have l: "length (e1 (p1 a)) = k1" "length (e2 (p2 a)) = k2"
    using wf fixed_codec.length_enc [OF c1] fixed_codec.length_enc [OF c2] by auto
  then show "length (e1 (p1 a) @ e2 (p2 a)) = k" using k by simp
  show "tryq (tryq (slice_range (e1 (p1 a) @ e2 (p2 a)) 0 k1) r1) (\<lambda>x.
      tryq (tryq (slice_range (e1 (p1 a) @ e2 (p2 a)) k1 k) r2) (\<lambda>y. Ok (mk x y))) = Ok a"
    using l k wf fixed_codec.rd_enc_fixed [OF c1, of "p1 a"] fixed_codec.rd_enc_fixed [OF c2, of "p2 a"]
    by (simp add: slice_range_def mk)
next
  fix bs :: bytes
  assume len: "length bs = k"
  obtain x where x: "w1 x" "e1 x = take k1 (drop 0 bs)" "tryq (slice_range bs 0 k1) r1 = Ok x"
    using fixed_field [OF c1, of k1 0 bs] len k by auto
  obtain y where y: "w2 y" "e2 y = take k2 (drop k1 bs)" "tryq (slice_range bs k1 k) r2 = Ok y"
    using fixed_field [OF c2, of k k1 bs] len k by auto
  show "\<exists>a. (w1 (p1 a) \<and> w2 (p2 a)) \<and> e1 (p1 a) @ e2 (p2 a) = bs \<and>
      tryq (tryq (slice_range bs 0 k1) r1) (\<lambda>x. tryq (tryq (slice_range bs k1 k) r2) (\<lambda>y. Ok (mk x y))) = Ok a"
    using x y len k by (intro exI [of _ "mk x y"]) (simp add: mk)
qed (use k fixed_codec.k_pos [OF c1] in auto)

lemma out_point_codec: "fixed_codec out_point_write out_point_verify out_point_read out_point_wf 36"
  using struct2_codec [OF byte32_codec uint32_codec, of 36 op_tx_hash
      "\<lambda>h i. \<lparr>op_tx_hash = h, op_index = i\<rparr>" op_index]
  by (simp add: out_point_verify_def out_point_write_def [abs_def] out_point_read_def [abs_def]
      out_point_wf_def [abs_def])

lemma cell_input_codec: "fixed_codec cell_input_write cell_input_verify cell_input_read cell_input_wf 44"
  using struct2_codec [OF uint64_codec out_point_codec, of 44 ci_since
      "\<lambda>s p. \<lparr>ci_since = s, ci_previous_output = p\<rparr>" ci_previous_output]
  by (simp add: cell_input_verify_def cell_input_write_def [abs_def] cell_input_read_def [abs_def]
      cell_input_wf_def [abs_def])

lemma cell_dep_codec:
  "molecule_ok X \<Longrightarrow> fixed_codec cell_dep_write cell_dep_verify cell_dep_read cell_dep_wf 37"
  using struct2_codec [OF out_point_codec byte_codec, of X 37 cd_out_point
      "\<lambda>p t. \<lparr>cd_out_point = p, cd_dep_type = t\<rparr>" cd_dep_type]
  by (simp add: cell_dep_verify_def cell_dep_write_def [abs_def] cell_dep_read_def [abs_def]
      cell_dep_wf_def [abs_def])

lemma fixed_lengths [simp]:
  "length (uint32_write x) = 4" "length (uint64_write y) = 8" "length (uint128_write z) = 16"
  "byte32_wf h \<Longrightarrow> length (byte32_write h) = 32"
  by (simp_all add: uint32_write_def uint64_write_def uint128_write_def byte32_write_def byte32_wf_def)

lemma fixed_reads [simp]:
  "uint32_read (uint32_write x) = Ok x" "uint64_read (uint64_write y) = Ok y"
  "uint128_read (uint128_write z) = Ok z" "byte32_read (byte32_write h) = Ok h"
  by (simp_all add: uint32_write_def uint64_write_def uint128_write_def byte32_write_def
      uint32_read_def uint64_read_def uint128_read_def byte32_read_def from_to_le_bytes)

lemma raw_header_codec:
  "fixed_codec raw_header_write raw_header_verify raw_header_read (raw_header_wf :: raw_header \<Rightarrow> bool) 192"
  unfolding raw_header_verify_def
proof (rule array_fixed_codec)
  fix h :: raw_header
  assume wf: "raw_header_wf h"
  then show "length (raw_header_write h) = 192"
    by (simp add: raw_header_write_def raw_header_wf_def)
  show "raw_header_read (raw_header_write h) = Ok h"
    using wf by (simp add: raw_header_write_def raw_header_read_def raw_header_wf_def slice_range_def)
next
  fix bs :: bytes
  assume len: "length bs = 192"
  obtain v where v: "uint32_write v = take 4 (drop 0 bs)" "tryq (slice_range bs 0 4) uint32_read = Ok v"
    using fixed_field [OF uint32_codec, of 4 0 bs] len by auto
  obtain t where t: "uint32_write t = take 4 (drop 4 bs)" "tryq (slice_range bs 4 8) uint32_read = Ok t"
    using fixed_field [OF uint32_codec, of 8 4 bs] len by auto
  obtain ts where ts: "uint64_write ts = take 8 (drop 8 bs)" "tryq (slice_range bs 8 16) uint64_read = Ok ts"
    using fixed_field [OF uint64_codec, of 16 8 bs] len by auto
  obtain n where n: "uint64_write n = take 8 (drop 16 bs)" "tryq (slice_range bs 16 24) uint64_read = Ok n"
    using fixed_field [OF uint64_codec, of 24 16 bs] len by auto
  obtain e where e: "uint64_write e = take 8 (drop 24 bs)" "tryq (slice_range bs 24 32) uint64_read = Ok e"
    using fixed_field [OF uint64_codec, of 32 24 bs] len by auto
  obtain p where p: "byte32_write p = take 32 (drop 32 bs)" "tryq (slice_range bs 32 64) byte32_read = Ok p" "byte32_wf p"
    using fixed_field [OF byte32_codec, of 64 32 bs] len by auto
  obtain r where r: "byte32_write r = take 32 (drop 64 bs)" "tryq (slice_range bs 64 96) byte32_read = Ok r" "byte32_wf r"
    using fixed_field [OF byte32_codec, of 96 64 bs] len by auto
  obtain ph where ph: "byte32_write ph = take 32 (drop 96 bs)" "tryq (slice_range bs 96 128) byte32_read = Ok ph" "byte32_wf ph"
    using fixed_field [OF byte32_codec, of 128 96 bs] len by auto
  obtain u where u: "byte32_write u = take 32 (drop 128 bs)" "tryq (slice_range bs 128 160) byte32_read = Ok u" "byte32_wf u"
    using fixed_field [OF byte32_codec, of 160 128 bs] len by auto
  obtain d where d: "byte32_write d = take 32 (drop 160 bs)" "tryq (slice_range bs 160 192) byte32_read = Ok d" "byte32_wf d"
    using fixed_field [OF byte32_codec, of 192 160 bs] len by auto
  have cat: "concat (cut bs [0, 4, 8, 16, 24, 32, 64, 96, 128, 160, 192]) = bs"
    using cut_pieces(2) [of 0 "[4, 8, 16, 24, 32, 64, 96, 128, 160, 192]" bs] len by simp
  let ?h = "\<lparr>h_version = v, h_compact_target = t, h_timestamp = ts, h_number = n, h_epoch = e,
      h_parent_hash = p, h_transactions_root = r, h_proposals_hash = ph, h_uncles_hash = u, h_dao = d\<rparr>"
  have "raw_header_write ?h = bs"
    using cat by (simp add: raw_header_write_def v(1) t(1) ts(1) n(1) e(1) p(1) r(1) ph(1) u(1) d(1))
  moreover have "raw_header_read bs = Ok ?h"
    by (simp add: raw_header_read_def v(2) t(2) ts(2) n(2) e(2) p(2) r(2) ph(2) u(2) d(2))
  moreover have "raw_header_wf ?h" by (simp add: raw_header_wf_def p(3) r(3) ph(3) u(3) d(3))
  ultimately show "\<exists>h::raw_header. raw_header_wf h \<and> raw_header_write h = bs \<and> raw_header_read bs = Ok h"
    by blast
qed simp_all

lemma raw_header_truncate [simp]:
  "raw_header_write (raw_header.truncate h) = raw_header_write h"
  "raw_header_wf (raw_header.truncate h) = raw_header_wf h"
  by (simp_all add: raw_header_write_def raw_header_wf_def raw_header.truncate_def)

lemma raw_header_extend [simp]:
  "raw_header.truncate (raw_header.extend r m) = r"
  "h_nonce (raw_header.extend r \<lparr>h_nonce = n\<rparr>) = n"
  "raw_header.extend (raw_header.truncate h) \<lparr>h_nonce = h_nonce h\<rparr> = (h :: header)"
  by (simp_all add: raw_header.defs)

lemma header_codec:
  "fixed_codec header_write header_verify header_read (raw_header_wf :: header \<Rightarrow> bool) 208"
  using struct2_codec [OF raw_header_codec uint128_codec, of 208 raw_header.truncate
      "\<lambda>r n. raw_header.extend r \<lparr>h_nonce = n\<rparr>" "h_nonce :: header \<Rightarrow> u128"]
  by (simp add: header_verify_def header_write_def [abs_def] header_read_def [abs_def])

section \<open>Codecs of tables\<close>

text \<open>
  The fields of a table, as nested pairs: \<open>F\<close> writes each of them, \<open>R get i\<close> reads them from
  index \<open>i\<close> on with the accessor \<open>get\<close>.
\<close>

definition fields_codec ::
  "('a \<Rightarrow> bytes list) \<Rightarrow> (bytes \<Rightarrow> bool \<Rightarrow> (unit, verification_error) outcome) list \<Rightarrow>
   ((nat \<Rightarrow> (bytes, verification_error) outcome) \<Rightarrow> nat \<Rightarrow> ('a, verification_error) outcome) \<Rightarrow>
   ('a \<Rightarrow> bool) \<Rightarrow> bool" where
  "fields_codec F vs R W \<longleftrightarrow>
     (\<forall>a c. W a \<longrightarrow> (\<forall>f\<in>set (F a). length f < 2 ^ 32) \<longrightarrow> list_all2 (\<lambda>v f. v f c = Ok ()) vs (F a)) \<and>
     (\<forall>a get i. W a \<longrightarrow> (\<forall>f\<in>set (F a). length f < 2 ^ 32) \<longrightarrow>
        (\<forall>j<length (F a). get (i + j) = Ok (F a ! j)) \<longrightarrow> R get i = Ok a) \<and>
     (\<forall>fs. list_all2 (\<lambda>v f. v f False = Ok ()) vs fs \<longrightarrow>
        (\<exists>a. W a \<and> F a = fs \<and> (\<forall>get i. (\<forall>j<length fs. get (i + j) = Ok (fs ! j)) \<longrightarrow> R get i = Ok a))) \<and>
     (\<forall>v\<in>set vs. \<forall>s c. v s c \<noteq> Panic)"

lemma fields_nil: "fields_codec (\<lambda>_::unit. []) [] (\<lambda>get i. Ok ()) (\<lambda>_. True)"
  by (simp add: fields_codec_def)

lemma fields_cons:
  assumes c: "codec e v r w" and F: "fields_codec F vs R W"
  shows "fields_codec (\<lambda>(x, y). e x # F y) (v # vs)
     (\<lambda>get i. tryq (tryq (get i) r) (\<lambda>x. tryq (R get (Suc i)) (\<lambda>y. Ok (x, y)))) (\<lambda>(x, y). w x \<and> W y)"
  unfolding fields_codec_def
proof (intro conjI allI impI)
  fix a k assume W: "case a of (x, y) \<Rightarrow> w x \<and> W y"
    and small: "\<forall>f\<in>set (case a of (x, y) \<Rightarrow> e x # F y). length f < 2 ^ 32"
  show "list_all2 (\<lambda>v f. v f k = Ok ()) (v # vs) (case a of (x, y) \<Rightarrow> e x # F y)"
    using W small F codec.verify_enc [OF c] by (auto simp: fields_codec_def)
next
  fix a get i assume W: "case a of (x, y) \<Rightarrow> w x \<and> W y"
    and small: "\<forall>f\<in>set (case a of (x, y) \<Rightarrow> e x # F y). length f < 2 ^ 32"
    and get: "\<forall>j<length (case a of (x, y) \<Rightarrow> e x # F y).
        get (i + j) = (Ok ((case a of (x, y) \<Rightarrow> e x # F y) ! j) :: (bytes, verification_error) outcome)"
  obtain x y where a: "a = (x, y)" by (cases a)
  have "get i = Ok (e x)" using get [rule_format, of 0] by (simp add: a)
  moreover have "R get (Suc i) = Ok y"
    using F W small get [rule_format, of "Suc _"] by (auto simp: fields_codec_def a)
  ultimately show "tryq (tryq (get i) r) (\<lambda>x. tryq (R get (Suc i)) (\<lambda>y. Ok (x, y))) = Ok a"
    using W small codec.rd_enc [OF c, of x] by (simp add: a)
next
  fix fs assume "list_all2 (\<lambda>v f. v f False = Ok ()) (v # vs) fs"
  then obtain f fs' where fs: "fs = f # fs'" "v f False = Ok ()" "list_all2 (\<lambda>v f. v f False = Ok ()) vs fs'"
    by (auto simp: list_all2_Cons1)
  obtain x where x: "w x" "e x = f" "r f = Ok x" using codec.verify_strict [OF c fs(2)] by blast
  obtain y where y: "W y" "F y = fs'"
      "\<And>get i. \<forall>j<length fs'. get (i + j) = Ok (fs' ! j) \<Longrightarrow> R get i = Ok y"
    using F fs(3) unfolding fields_codec_def by metis
  have "tryq (tryq (get i) r) (\<lambda>x. tryq (R get (Suc i)) (\<lambda>y. Ok (x, y))) = Ok (x, y)"
    if "\<forall>j<length fs. get (i + j) = Ok (fs ! j)" for get i
  proof -
    have "get i = Ok f" using that [rule_format, of 0] by (simp add: fs(1))
    moreover have "R get (Suc i) = Ok y"
      using that [rule_format, of "Suc _"] by (intro y(3)) (auto simp: fs(1))
    ultimately show ?thesis using x by simp
  qed
  then show "\<exists>a. (case a of (x, y) \<Rightarrow> w x \<and> W y) \<and> (case a of (x, y) \<Rightarrow> e x # F y) = fs \<and>
      (\<forall>get i. (\<forall>j<length fs. get (i + j) = Ok (fs ! j)) \<longrightarrow>
        tryq (tryq (get i) r) (\<lambda>x. tryq (R get (Suc i)) (\<lambda>y. Ok (x, y))) = Ok a)"
    using x y fs by (intro exI [of _ "(x, y)"]) simp
qed (use F codec.verify_not_Panic [OF c] in \<open>auto simp: fields_codec_def\<close>)

lemma field_small: "table_size fs < 2 ^ 32 \<Longrightarrow> f \<in> set fs \<Longrightarrow> length f < 2 ^ 32"
proof -
  assume lt: "table_size fs < 2 ^ 32" and f: "f \<in> set fs"
  have "length f \<le> length (concat fs)" using f by (induction fs) auto
  then show ?thesis using lt by (simp add: table_size_def)
qed

lemma fields_table:
  assumes X: "molecule_ok X" and F: "fields_codec F vs R W" and vs: "vs \<noteq> []"
    and iso: "\<And>b. mk (un b) = b" "\<And>a. un (mk a) = a"
  shows "codec (\<lambda>b. table_write X (F (un b))) (table_verify X vs)
     (\<lambda>bs. tryq (R (\<lambda>i. table_field X (length vs) i bs) 0) (\<lambda>a. Ok (mk a))) (\<lambda>b. W (un b))"
proof
  fix b c
  assume W: "W (un b)" and "length (table_write X (F (un b))) < 2 ^ 32"
  then have lt: "table_size (F (un b)) < 2 ^ 32" using X by simp
  have small: "\<forall>f\<in>set (F (un b)). length f < 2 ^ 32" using field_small [OF lt] by blast
  have ok: "list_all2 (\<lambda>v f. v f c = Ok ()) vs (F (un b))"
    using F W small by (auto simp: fields_codec_def)
  then have len: "length (F (un b)) = length vs" by (simp add: list_all2_lengthD)
  show "table_verify X vs (table_write X (F (un b))) c = Ok ()"
    using ok lt vs by (intro table_verify_write [OF X]) (auto simp: list_all2_conv_all_nth)
  have "R (\<lambda>i. table_field X (length vs) i (table_write X (F (un b)))) 0 = Ok (un b)"
    using F W small table_field_write [OF X _ lt] len by (auto simp: fields_codec_def)
  then show "tryq (R (\<lambda>i. table_field X (length vs) i (table_write X (F (un b)))) 0) (\<lambda>a. Ok (mk a)) = Ok b"
    by (simp add: iso)
next
  fix bs
  assume "table_verify X vs bs False = Ok ()"
  then obtain fs where fs: "bs = table_write X fs" "length fs = length vs" "table_size fs < 2 ^ 32"
      "\<forall>i<length vs. (vs ! i) (fs ! i) False = Ok ()"
    using table_verify_strict [OF X vs] by blast
  then have "list_all2 (\<lambda>v f. v f False = Ok ()) vs fs" by (simp add: list_all2_conv_all_nth)
  then obtain a where a: "W a" "F a = fs"
      "\<And>get i. \<forall>j<length fs. get (i + j) = Ok (fs ! j) \<Longrightarrow> R get i = Ok a"
    using F unfolding fields_codec_def by metis
  have "R (\<lambda>i. table_field X (length vs) i bs) 0 = Ok a"
    using table_field_write [OF X _ fs(3)] fs(1,2) by (intro a(3)) simp
  then show "\<exists>b. W (un b) \<and> table_write X (F (un b)) = bs \<and>
      tryq (R (\<lambda>i. table_field X (length vs) i bs) 0) (\<lambda>a. Ok (mk a)) = Ok b"
    using a fs(1) by (intro exI [of _ "mk a"]) (simp add: iso)
next
  show "table_verify X vs bs c \<noteq> Panic" for bs c
    using F by (intro table_verify_not_Panic [OF X]) (auto simp: fields_codec_def)
qed

section \<open>Codecs of the types of the chain\<close>

lemma singletons: "\<forall>s\<in>set ss. length s = 1 \<Longrightarrow> map byte_write (concat ss) = ss"
  by (induction ss) (auto simp: byte_write_def length_Suc_conv)

lemma concat_byte_write [simp]: "concat (map byte_write bs) = bs"
  by (induction bs) (auto simp: byte_write_def)

lemma bytes_codec:
  assumes X: "molecule_ok X"
  shows "codec (bytes_write X) (bytes_verify X) bytes_raw_data (\<lambda>_. True)"
proof
  fix bs c
  assume "length (bytes_write X bs) < 2 ^ 32"
  then have lt: "length (map byte_write bs) < 2 ^ 32" using X by (simp add: bytes_write_def fixvec_write_def)
  show "bytes_verify X (bytes_write X bs) c = Ok ()"
    unfolding bytes_verify_def bytes_write_def
    by (rule fixvec_verify_write [OF X lt]) (auto simp: byte_write_def)
  show "bytes_raw_data (bytes_write X bs) = Ok bs"
    using X by (simp add: bytes_raw_data_def bytes_write_def fixvec_write_def slice_from_def NUMBER_SIZE_def)
next
  fix sl
  assume "bytes_verify X sl False = Ok ()"
  then obtain ss where ss: "sl = fixvec_write X ss" "\<forall>s\<in>set ss. length s = 1"
    using fixvec_verify_strict [OF X] unfolding bytes_verify_def by blast
  then have "bytes_write X (concat ss) = sl" by (simp add: bytes_write_def singletons)
  moreover have "bytes_raw_data sl = Ok (concat ss)"
    using X by (simp add: ss(1) bytes_raw_data_def fixvec_write_def slice_from_def NUMBER_SIZE_def)
  ultimately show "\<exists>a. True \<and> bytes_write X a = sl \<and> bytes_raw_data sl = Ok a" by blast
qed (simp add: bytes_verify_def fixvec_verify_not_Panic [OF X])

lemmas fixed_codecs = byte32_codec [THEN fixed_codec.axioms(1)] uint32_codec [THEN fixed_codec.axioms(1)]
  uint64_codec [THEN fixed_codec.axioms(1)] header_codec [THEN fixed_codec.axioms(1)]

lemma byte32_vec_codec:
  "molecule_ok X \<Longrightarrow> codec (byte32_vec_write X) (byte32_vec_verify X) (byte32_vec_read X) (list_all byte32_wf)"
  using fixed_codec.fixvec_codec [OF byte32_codec]
  by (simp add: byte32_vec_write_def [abs_def] byte32_vec_verify_def byte32_vec_read_def [abs_def])

lemma proposal_short_id_vec_codec:
  "molecule_ok X \<Longrightarrow> codec (proposal_short_id_vec_write X) (proposal_short_id_vec_verify X)
     (proposal_short_id_vec_read X) (list_all proposal_short_id_wf)"
  using fixed_codec.fixvec_codec [OF proposal_short_id_codec]
  by (simp add: proposal_short_id_vec_write_def [abs_def] proposal_short_id_vec_verify_def
      proposal_short_id_vec_read_def [abs_def])

lemma cell_dep_vec_codec:
  "molecule_ok X \<Longrightarrow> codec (cell_dep_vec_write X) (cell_dep_vec_verify X) (cell_dep_vec_read X)
     (list_all cell_dep_wf)"
  using fixed_codec.fixvec_codec [OF cell_dep_codec]
  by (simp add: cell_dep_vec_write_def [abs_def] cell_dep_vec_verify_def cell_dep_vec_read_def [abs_def])

lemma cell_input_vec_codec:
  "molecule_ok X \<Longrightarrow> codec (cell_input_vec_write X) (cell_input_vec_verify X) (cell_input_vec_read X)
     (list_all cell_input_wf)"
  using fixed_codec.fixvec_codec [OF cell_input_codec]
  by (simp add: cell_input_vec_write_def [abs_def] cell_input_vec_verify_def
      cell_input_vec_read_def [abs_def])

lemma out_point_vec_codec:
  "molecule_ok X \<Longrightarrow> codec (out_point_vec_write X) (out_point_vec_verify X) (out_point_vec_read X)
     (list_all out_point_wf)"
  using fixed_codec.fixvec_codec [OF out_point_codec]
  by (simp add: out_point_vec_write_def [abs_def] out_point_vec_verify_def
      out_point_vec_read_def [abs_def])

lemma bytes_vec_codec:
  "molecule_ok X \<Longrightarrow> codec (bytes_vec_write X) (bytes_vec_verify X) (bytes_vec_read X) (\<lambda>_. True)"
  using codec.dynvec_codec [OF bytes_codec]
  by (simp add: bytes_vec_write_def [abs_def] bytes_vec_verify_def bytes_vec_read_def [abs_def]
      list.pred_True)

lemma bytes_opt_codec:
  "molecule_ok X \<Longrightarrow> codec (bytes_opt_write X) (bytes_opt_verify X) bytes_opt_read (\<lambda>_. True)"
  using codec.option_codec [OF bytes_codec, of X]
  by (simp add: bytes_opt_write_def bytes_opt_verify_def bytes_opt_read_def bytes_verify_def
      fixvec_verify_empty option.pred_True)

lemmas table_simps = tryq_assoc prod_eq_iff eval_nat_numeral

lemma script_codec:
  assumes X: "molecule_ok X"
  shows "codec (script_write X) (script_verify X) (script_read X) script_wf"
  using fields_table [OF X fields_cons [OF fixed_codecs(1) fields_cons [OF
        byte_codec [OF X, THEN fixed_codec.axioms(1)] fields_cons [OF bytes_codec [OF X] fields_nil]]],
      of "\<lambda>a. \<lparr>sc_code_hash = fst a, sc_hash_type = fst (snd a), sc_args = fst (snd (snd a))\<rparr>"
        "\<lambda>s. (sc_code_hash s, sc_hash_type s, sc_args s, ())"]
  by (simp add: script_write_def [abs_def] script_verify_def script_read_def [abs_def]
      script_wf_def [abs_def] table_simps)

lemma script_opt_codec:
  "molecule_ok X \<Longrightarrow> codec (script_opt_write X) (script_opt_verify X) (script_opt_read X) (pred_option script_wf)"
  using codec.option_codec [OF script_codec, of X]
  by (simp add: script_opt_write_def script_opt_verify_def script_opt_read_def script_verify_def
      table_verify_empty)

lemma cell_output_codec:
  assumes X: "molecule_ok X"
  shows "codec (cell_output_write X) (cell_output_verify X) (cell_output_read X) cell_output_wf"
  using fields_table [OF X fields_cons [OF fixed_codecs(3) fields_cons [OF script_codec [OF X]
        fields_cons [OF script_opt_codec [OF X] fields_nil]]],
      of "\<lambda>a. \<lparr>co_capacity = fst a, co_lock = fst (snd a), co_type = fst (snd (snd a))\<rparr>"
        "\<lambda>out. (co_capacity out, co_lock out, co_type out, ())"]
  by (simp add: cell_output_write_def [abs_def] cell_output_verify_def cell_output_read_def [abs_def]
      cell_output_wf_def [abs_def] table_simps)

lemma cell_output_vec_codec:
  "molecule_ok X \<Longrightarrow> codec (cell_output_vec_write X) (cell_output_vec_verify X) (cell_output_vec_read X)
     (list_all cell_output_wf)"
  using codec.dynvec_codec [OF cell_output_codec]
  by (simp add: cell_output_vec_write_def [abs_def] cell_output_vec_verify_def
      cell_output_vec_read_def [abs_def])

lemma raw_transaction_codec:
  assumes X: "molecule_ok X"
  shows "codec (raw_transaction_write X) (raw_transaction_verify X) (raw_transaction_read X)
     (raw_transaction_wf :: raw_transaction \<Rightarrow> bool)"
  using fields_table [OF X fields_cons [OF fixed_codecs(2) fields_cons [OF cell_dep_vec_codec [OF X]
        fields_cons [OF byte32_vec_codec [OF X] fields_cons [OF cell_input_vec_codec [OF X]
        fields_cons [OF cell_output_vec_codec [OF X] fields_cons [OF bytes_vec_codec [OF X]
        fields_nil]]]]]],
      of "\<lambda>a. \<lparr>tx_version = fst a, tx_cell_deps = fst (snd a), tx_header_deps = fst (snd (snd a)),
           tx_inputs = fst (snd (snd (snd a))), tx_outputs = fst (snd (snd (snd (snd a)))),
           tx_outputs_data = fst (snd (snd (snd (snd (snd a)))))\<rparr>"
        "\<lambda>tx. (tx_version tx, tx_cell_deps tx, tx_header_deps tx, tx_inputs tx, tx_outputs tx,
           tx_outputs_data tx, ())"]
  by (simp add: raw_transaction_write_def [abs_def] raw_transaction_verify_def
      raw_transaction_read_def [abs_def] raw_transaction_wf_def [abs_def] table_simps)

lemma raw_transaction_truncate [simp]:
  "raw_transaction_write X (raw_transaction.truncate tx) = raw_transaction_write X tx"
  "raw_transaction_wf (raw_transaction.truncate tx) = raw_transaction_wf tx"
  by (simp_all add: raw_transaction_write_def raw_transaction_wf_def raw_transaction.truncate_def)

lemma raw_transaction_extend [simp]:
  "raw_transaction.truncate (raw_transaction.extend r m) = r"
  "tx_witnesses (raw_transaction.extend r \<lparr>tx_witnesses = w\<rparr>) = w"
  "raw_transaction.extend (raw_transaction.truncate tx) \<lparr>tx_witnesses = tx_witnesses tx\<rparr> = (tx :: transaction)"
  by (simp_all add: raw_transaction.defs)

lemma transaction_codec:
  assumes X: "molecule_ok X"
  shows "codec (transaction_write X) (transaction_verify X) (transaction_read X)
     (raw_transaction_wf :: transaction \<Rightarrow> bool)"
  using fields_table [OF X fields_cons [OF raw_transaction_codec [OF X]
        fields_cons [OF bytes_vec_codec [OF X] fields_nil]],
      of "\<lambda>a. raw_transaction.extend (fst a) \<lparr>tx_witnesses = fst (snd a)\<rparr> :: transaction"
        "\<lambda>tx. (raw_transaction.truncate tx, tx_witnesses tx, ())"]
  by (simp add: transaction_write_def [abs_def] transaction_verify_def
      transaction_read_def [abs_def] table_simps)

lemma transaction_vec_codec:
  "molecule_ok X \<Longrightarrow> codec (transaction_vec_write X) (transaction_vec_verify X) (transaction_vec_read X)
     (list_all (raw_transaction_wf :: transaction \<Rightarrow> bool))"
  using codec.dynvec_codec [OF transaction_codec]
  by (simp add: transaction_vec_write_def [abs_def] transaction_vec_verify_def
      transaction_vec_read_def [abs_def])

lemma uncle_block_codec:
  assumes X: "molecule_ok X"
  shows "codec (uncle_block_write X) (uncle_block_verify X) (uncle_block_read X)
     (uncle_block_wf :: uncle_block \<Rightarrow> bool)"
  using fields_table [OF X fields_cons [OF fixed_codecs(4)
        fields_cons [OF proposal_short_id_vec_codec [OF X] fields_nil]],
      of "\<lambda>a. \<lparr>ub_header = fst a, ub_proposals = fst (snd a)\<rparr>"
        "\<lambda>u. (ub_header u, ub_proposals u, ())"]
  by (simp add: uncle_block_write_def [abs_def] uncle_block_verify_def
      uncle_block_read_def [abs_def] uncle_block_wf_def [abs_def] table_simps)

lemma uncle_block_vec_codec:
  "molecule_ok X \<Longrightarrow> codec (uncle_block_vec_write X) (uncle_block_vec_verify X) (uncle_block_vec_read X)
     (list_all (uncle_block_wf :: uncle_block \<Rightarrow> bool))"
  using codec.dynvec_codec [OF uncle_block_codec]
  by (simp add: uncle_block_vec_write_def [abs_def] uncle_block_vec_verify_def
      uncle_block_vec_read_def [abs_def])

lemma block_codec:
  assumes X: "molecule_ok X"
  shows "codec (block_write X) (block_verify X) (block_read X) (block_wf :: block \<Rightarrow> bool)"
  using fields_table [OF X fields_cons [OF fixed_codecs(4) fields_cons [OF uncle_block_vec_codec [OF X]
        fields_cons [OF transaction_vec_codec [OF X]
        fields_cons [OF proposal_short_id_vec_codec [OF X] fields_nil]]]],
      of "\<lambda>a. \<lparr>b_header = fst a, b_uncles = fst (snd a), b_transactions = fst (snd (snd a)),
           b_proposals = fst (snd (snd (snd a)))\<rparr>"
        "\<lambda>b. (b_header b, b_uncles b, b_transactions b, b_proposals b, ())"]
  by (simp add: block_write_def [abs_def] block_verify_def block_read_def [abs_def]
      block_wf_def [abs_def] table_simps)

lemma cellbase_witness_codec:
  assumes X: "molecule_ok X"
  shows "codec (cellbase_witness_write X) (cellbase_witness_verify X) (cellbase_witness_read X)
     cellbase_witness_wf"
  using fields_table [OF X fields_cons [OF script_codec [OF X] fields_cons [OF bytes_codec [OF X] fields_nil]],
      of "\<lambda>a. \<lparr>cw_lock = fst a, cw_message = fst (snd a)\<rparr>" "\<lambda>w. (cw_lock w, cw_message w, ())"]
  by (simp add: cellbase_witness_write_def [abs_def] cellbase_witness_verify_def
      cellbase_witness_read_def [abs_def] cellbase_witness_wf_def [abs_def] table_simps)

lemma witness_args_codec:
  assumes X: "molecule_ok X"
  shows "codec (witness_args_write X) (witness_args_verify X) (witness_args_read X) (\<lambda>_. True)"
  using fields_table [OF X fields_cons [OF bytes_opt_codec [OF X] fields_cons [OF bytes_opt_codec [OF X]
        fields_cons [OF bytes_opt_codec [OF X] fields_nil]]],
      of "\<lambda>a. \<lparr>wa_lock = fst a, wa_input_type = fst (snd a), wa_output_type = fst (snd (snd a))\<rparr>"
        "\<lambda>w. (wa_lock w, wa_input_type w, wa_output_type w, ())"]
  by (simp add: witness_args_write_def [abs_def] witness_args_verify_def
      witness_args_read_def [abs_def] table_simps)

section \<open>The example\<close>

lemma ext_word_sel:
  "x_pack_number ext_word = to_le_bytes"
  "x_unpack_number ext_word = (\<lambda>bs. if 4 \<le> length bs then Some (from_le_bytes (take 4 bs)) else None)"
  "x_byte_verify ext_word = (\<lambda>bs. array_verify 1 bs False)"
  by (simp_all add: ext_word_def numext.defs)

lemma ext_word_molecule_ok: "molecule_ok ext_word"
  by (auto simp: molecule_ok_def ext_word_sel NUMBER_SIZE_def from_to_le_bytes to_from_le_bytes
      array_verify_def)

lemma ext_word_numext_ok: "numext_ok ext_word"
  using numext_word_ok by (simp add: numext_ok_def ext_word_def numext.defs)

lemma example_block_wf: "block_wf example_block"
  by (simp add: block_wf_def example_block_def example_header_def example_tx_def raw_header_wf_def
      raw_transaction_wf_def uncle_block_wf_def proposal_short_id_wf_def byte32_wf_def cell_input_wf_def
      cell_output_wf_def script_wf_def out_point_wf_def new_cellbase_input_def cell_input_new_def
      out_point_null_def byte32_zero_def)

lemma example_block_size: "length (block_write ext_word example_block) < 2 ^ 32"
  by (simp add: block_write_def example_block_def example_header_def example_tx_def table_size_def
      ext_word_molecule_ok header_write_def raw_header_write_def
      uncle_block_vec_write_def uncle_block_write_def length_dynvec_write transaction_vec_write_def
      transaction_write_def raw_transaction_write_def proposal_short_id_vec_write_def fixvec_write_def
      proposal_short_id_write_def cell_dep_vec_write_def byte32_vec_write_def cell_input_vec_write_def
      cell_output_vec_write_def bytes_vec_write_def bytes_write_def cell_input_write_def
      out_point_write_def byte_write_def cell_output_write_def script_write_def script_opt_write_def
      option_write_def new_cellbase_input_def cell_input_new_def out_point_null_def byte32_write_def
      byte32_zero_def)

interpretation block_le: codec "block_write ext_word" "block_verify ext_word" "block_read ext_word"
  "block_wf :: block \<Rightarrow> bool"
  by (rule block_codec [OF ext_word_molecule_ok])

interpretation header_le: fixed_codec header_write header_verify header_read
  "raw_header_wf :: header \<Rightarrow> bool" 208
  by (rule header_codec)

section \<open>Properties\<close>

text \<open>
  C7. A block read back from its own serialisation is the same block, if its serialised size
  fits the four-byte sizes of the format.
\<close>

theorem block_round_trip:
  assumes "molecule_ok X" and "block_wf b" and "length (block_write X b) < 2 ^ 32"
  shows "from_slice (block_verify X) (block_read X) (block_write X b) = Ok (b :: block)"
  by (rule codec.from_slice_enc [OF block_codec [OF assms(1)] assms(2,3)])

theorem block_round_trip_witness:
  "from_slice (block_verify ext_word) (block_read ext_word) (block_write ext_word example_block) =
     Ok example_block"
  by (rule block_round_trip [OF ext_word_molecule_ok example_block_wf example_block_size])

text \<open>
  C28. The encoding is unique: bytes that a node accepts as a block are exactly the
  serialisation of the block it reads from them, so two different byte strings are never
  accepted for the same block.
\<close>

theorem block_encoding_unique:
  assumes "molecule_ok X" and "from_slice (block_verify X) (block_read X) bs = Ok (b :: block)"
  shows "block_wf b \<and> block_write X b = bs"
  by (rule codec.from_slice_Ok [OF block_codec [OF assms(1)] assms(2)])

theorem block_encoding_unique_witness:
  "block_wf example_block \<and> block_write ext_word example_block = block_write ext_word example_block"
  by (rule block_encoding_unique [OF ext_word_molecule_ok
        block_le.from_slice_enc [OF example_block_wf example_block_size]])

text \<open>
  C29. Checking and reading arbitrary bytes as a block never panics: every slice taken by the
  generated code is in range, whatever the offsets in the bytes are, in strict mode and in
  compatible mode.
\<close>

theorem block_parsing_never_panics:
  assumes "molecule_ok X"
  shows "block_verify X bs c \<noteq> Panic \<and> from_slice (block_verify X) (block_read X) bs \<noteq> Panic"
  using codec.verify_not_Panic [OF block_codec [OF assms]]
    codec.from_slice_not_Panic [OF block_codec [OF assms]] by blast

theorem block_parsing_never_panics_witness:
  "block_verify ext_word [16, 0, 0, 0, 255, 0, 0, 0] True \<noteq> Panic \<and>
   from_slice (block_verify ext_word) (block_read ext_word) [16, 0, 0, 0, 255, 0, 0, 0] \<noteq> Panic"
  by (rule block_parsing_never_panics [OF ext_word_molecule_ok])

text \<open>
  The accessor \<open>total_size\<close> of a vector of fixed-size items does not return the size of
  the vector: for \<open>n\<close> hashes it is four times \<open>n + 1\<close>, where the vector has
  four bytes and thirty-two for each hash.
\<close>

theorem byte32_vec_total_size:
  assumes "molecule_ok X" and "list_all byte32_wf hs" and "length hs < 2 ^ 32"
  shows "fixvec_total_size X (byte32_vec_write X hs) = Ok (4 * (length hs + 1)) \<and>
     length (byte32_vec_write X hs) = 4 + 32 * length hs"
proof -
  have "length (concat (map byte32_write hs)) = 32 * length hs"
    by (rule fixed_codec.length_items [OF byte32_codec assms(2)])
  moreover have "unpack_number X (byte32_vec_write X hs) = Ok (length hs)"
    using unpack_pack_nat [OF assms(1,3)] by (simp add: byte32_vec_write_def fixvec_write_def)
  ultimately show ?thesis
    using assms(1)
    by (simp add: fixvec_total_size_def fixvec_item_count_def NUMBER_SIZE_def byte32_vec_write_def
        fixvec_write_def)
qed

theorem byte32_vec_total_size_witness:
  "fixvec_total_size ext_word (byte32_vec_write ext_word [byte32_zero]) = Ok 8 \<and>
   length (byte32_vec_write ext_word [byte32_zero]) = 36"
  using byte32_vec_total_size [OF ext_word_molecule_ok, of "[byte32_zero]"]
  by (simp add: byte32_wf_def byte32_zero_def)

end
