(* ===== verification/Hashing.thy ===== *)
theory Hashing
  imports Molecule
begin

text \<open>
  The hashes of the packed types (\<open>util/types/src/extension/calc_hash.rs\<close>,
  \<open>util/hash/src/lib.rs\<close>, \<open>util/types/src/utilities/merkle_tree.rs\<close>), the serialised sizes
  (\<open>extension/serialized_size.rs\<close>), and the construction of views from data
  (\<open>core/views.rs\<close>). A digest fed in several updates is the digest of the concatenation.
\<close>

definition BLANK_HASH :: byte32 where
  "BLANK_HASH = [68, 244, 198, 151, 68, 213, 248, 197, 93, 100, 32, 98, 148, 157, 202, 228,
     155, 196, 231, 239, 67, 211, 136, 197, 161, 47, 66, 181, 99, 61, 22, 62]"

definition blake2b_256 :: "'z ext_scheme \<Rightarrow> bytes \<Rightarrow> byte32" where
  "blake2b_256 X s = (if s = [] then BLANK_HASH else x_blake2b X s)"

definition calc_data_hash :: "'z ext_scheme \<Rightarrow> bytes \<Rightarrow> byte32" where
  "calc_data_hash X d = (if d = [] then byte32_zero else blake2b_256 X d)"

definition calc_script_hash :: "'z ext_scheme \<Rightarrow> script \<Rightarrow> byte32" where
  "calc_script_hash X s = blake2b_256 X (script_write X s)"

definition calc_lock_hash :: "'z ext_scheme \<Rightarrow> cell_output \<Rightarrow> byte32" where
  "calc_lock_hash X out = calc_script_hash X (co_lock out)"

definition calc_ids_hash :: "'z ext_scheme \<Rightarrow> proposal_short_id list \<Rightarrow> byte32" where
  "calc_ids_hash X ids = (if ids = [] then byte32_zero else x_blake2b X (concat ids))"

definition calc_tx_hash :: "'z ext_scheme \<Rightarrow> 'a transaction_scheme \<Rightarrow> byte32" where
  "calc_tx_hash X tx = blake2b_256 X (raw_transaction_write X tx)"

definition calc_witness_hash :: "'z ext_scheme \<Rightarrow> 'a transaction_scheme \<Rightarrow> byte32" where
  "calc_witness_hash X tx = blake2b_256 X (transaction_write X tx)"

definition calc_pow_hash :: "'z ext_scheme \<Rightarrow> 'a header_scheme \<Rightarrow> byte32" where
  "calc_pow_hash X h = blake2b_256 X (raw_header_write h)"

definition calc_header_hash :: "'z ext_scheme \<Rightarrow> 'a header_scheme \<Rightarrow> byte32" where
  "calc_header_hash X h = blake2b_256 X (header_write h)"

definition uncle_calc_header_hash :: "'z ext_scheme \<Rightarrow> 'a uncle_block_scheme \<Rightarrow> byte32" where
  "uncle_calc_header_hash X u = calc_header_hash X (ub_header u)"

definition uncle_calc_proposals_hash :: "'z ext_scheme \<Rightarrow> 'a uncle_block_scheme \<Rightarrow> byte32" where
  "uncle_calc_proposals_hash X u = calc_ids_hash X (ub_proposals u)"

definition calc_uncle_vec_hash :: "'z ext_scheme \<Rightarrow> uncle_block list \<Rightarrow> byte32" where
  "calc_uncle_vec_hash X us =
     (if us = [] then byte32_zero else x_blake2b X (concat (map (uncle_calc_header_hash X) us)))"

definition block_calc_proposals_hash :: "'z ext_scheme \<Rightarrow> 'a block_scheme \<Rightarrow> byte32" where
  "block_calc_proposals_hash X b = calc_ids_hash X (b_proposals b)"

definition block_calc_uncles_hash :: "'z ext_scheme \<Rightarrow> 'a block_scheme \<Rightarrow> byte32" where
  "block_calc_uncles_hash X b = calc_uncle_vec_hash X (b_uncles b)"

definition calc_tx_hashes :: "'z ext_scheme \<Rightarrow> 'a block_scheme \<Rightarrow> byte32 list" where
  "calc_tx_hashes X b = map (calc_tx_hash X) (b_transactions b)"

definition calc_tx_witness_hashes :: "'z ext_scheme \<Rightarrow> 'a block_scheme \<Rightarrow> byte32 list" where
  "calc_tx_witness_hashes X b = map (calc_witness_hash X) (b_transactions b)"

section \<open>Merkle roots\<close>

definition merge_byte32 :: "'z ext_scheme \<Rightarrow> byte32 \<Rightarrow> byte32 \<Rightarrow> byte32" where
  "merge_byte32 X left right = x_blake2b X (left @ right)"

definition merkle_root :: "'z ext_scheme \<Rightarrow> byte32 list \<Rightarrow> byte32" where
  "merkle_root X leaves = x_build_merkle_root X (merge_byte32 X) leaves"

definition calc_raw_transactions_root :: "'z ext_scheme \<Rightarrow> block_view \<Rightarrow> byte32" where
  "calc_raw_transactions_root X b = merkle_root X (bv_tx_hashes b)"

definition calc_witnesses_root :: "'z ext_scheme \<Rightarrow> block_view \<Rightarrow> byte32" where
  "calc_witnesses_root X b = merkle_root X (bv_tx_witness_hashes b)"

definition calc_transactions_root :: "'z ext_scheme \<Rightarrow> block_view \<Rightarrow> byte32" where
  "calc_transactions_root X b =
     merkle_root X [calc_raw_transactions_root X b, calc_witnesses_root X b]"

section \<open>Sizes\<close>

definition serialized_size_in_block :: "'z ext_scheme \<Rightarrow> 'a transaction_scheme \<Rightarrow> nat" where
  "serialized_size_in_block X tx = length (transaction_write X tx) + NUMBER_SIZE"

definition serialized_size_without_uncle_proposals ::
  "'z ext_scheme \<Rightarrow> 'a block_scheme \<Rightarrow> (nat, 'e) outcome" where
  "serialized_size_without_uncle_proposals X b =
     (let block_size = length (block_write X b);
          sizes = map (\<lambda>u. length (proposal_short_id_vec_write X (ub_proposals u))) (b_uncles b)
      in if list_ex (\<lambda>n. n < NUMBER_SIZE) sizes then Panic
         else (let uncles_proposals_size = sum_list (map (\<lambda>n. n - NUMBER_SIZE) sizes) in
               if block_size < uncles_proposals_size then Panic
               else Ok (block_size - uncles_proposals_size)))"

section \<open>Views\<close>

definition tx_into_view :: "'z ext_scheme \<Rightarrow> transaction \<Rightarrow> transaction_view" where
  "tx_into_view X tx = tx_view tx (calc_tx_hash X tx) (calc_witness_hash X tx)"

definition header_into_view :: "'z ext_scheme \<Rightarrow> header \<Rightarrow> header_view" where
  "header_into_view X h = header_view_of h (calc_header_hash X h)"

definition uncle_into_view :: "'z ext_scheme \<Rightarrow> uncle_block \<Rightarrow> uncle_block_view" where
  "uncle_into_view X u = uncle_view_of u (uncle_calc_header_hash X u)"

definition block_into_view_internal ::
  "'z ext_scheme \<Rightarrow> block \<Rightarrow> byte32 list \<Rightarrow> byte32 list \<Rightarrow> block_view" where
  "block_into_view_internal X b tx_hashes tx_witness_hashes =
     block.extend b \<lparr>bv_hash = calc_header_hash X (b_header b),
       bv_uncle_hashes = map (uncle_calc_header_hash X) (b_uncles b),
       bv_tx_hashes = tx_hashes, bv_tx_witness_hashes = tx_witness_hashes\<rparr>"

definition into_view_without_reset_header :: "'z ext_scheme \<Rightarrow> block \<Rightarrow> block_view" where
  "into_view_without_reset_header X b =
     block_into_view_internal X b (calc_tx_hashes X b) (calc_tx_witness_hashes X b)"

definition reset_header_with_hashes ::
  "'z ext_scheme \<Rightarrow> block \<Rightarrow> byte32 list \<Rightarrow> byte32 list \<Rightarrow> block" where
  "reset_header_with_hashes X b tx_hashes tx_witness_hashes =
     (let raw_transactions_root = merkle_root X tx_hashes;
          witnesses_root = merkle_root X tx_witness_hashes;
          transactions_root = merkle_root X [raw_transactions_root, witnesses_root];
          proposals_hash = block_calc_proposals_hash X b;
          uncles_hash = block_calc_uncles_hash X b;
          hd = (b_header b)\<lparr>h_transactions_root := transactions_root,
                 h_proposals_hash := proposals_hash, h_uncles_hash := uncles_hash\<rparr>
      in b\<lparr>b_header := hd\<rparr>)"

definition block_into_view :: "'z ext_scheme \<Rightarrow> block \<Rightarrow> block_view" where
  "block_into_view X b =
     (let tx_hashes = calc_tx_hashes X b;
          tx_witness_hashes = calc_tx_witness_hashes X b;
          b' = reset_header_with_hashes X b tx_hashes tx_witness_hashes
      in block_into_view_internal X b' tx_hashes tx_witness_hashes)"

section \<open>Collisions\<close>

definition collision :: "(bytes \<Rightarrow> byte32) \<Rightarrow> bytes \<Rightarrow> bytes \<Rightarrow> bool" where
  "collision h m m' \<longleftrightarrow> m \<noteq> m' \<and> h m = h m'"

lemma hash_binding:
  assumes "codec enc v rd W" and "W a" "W b" and "length (enc a) < 2 ^ 32" and "h (enc a) = h (enc b)"
  shows "a = b \<or> collision h (enc a) (enc b)"
  using codec.enc_inj [OF assms(1-4)] assms(5) by (auto simp: collision_def)

lemma bv_transactions_into_view:
  "bv_transactions (into_view_without_reset_header X b) = map (tx_into_view X) (b_transactions b)"
proof -
  have "zip (zip txs (map f txs)) (map g txs) = map (\<lambda>t. ((t, f t), g t)) txs"
    for txs :: "transaction list" and f g :: "transaction \<Rightarrow> byte32"
    by (induction txs) auto
  then show ?thesis
    by (simp add: bv_transactions_def into_view_without_reset_header_def block_into_view_internal_def
        block.defs calc_tx_hashes_def calc_tx_witness_hashes_def tx_into_view_def [abs_def] o_def)
qed

lemma length_proposals_write:
  "molecule_ok X \<Longrightarrow> length (proposal_short_id_vec_write X ps) = 4 + length (concat ps)"
  by (simp add: proposal_short_id_vec_write_def fixvec_write_def proposal_short_id_write_def [abs_def])

lemma uncle_without_proposals:
  "molecule_ok X \<Longrightarrow> length (uncle_block_write X u) =
     length (uncle_block_write X (u\<lparr>ub_proposals := []\<rparr>)) + length (concat (ub_proposals u))"
  by (simp add: uncle_block_write_def table_size_def length_proposals_write)

lemma uncles_without_proposals:
  assumes "molecule_ok X"
  shows "length (uncle_block_vec_write X us) =
     length (uncle_block_vec_write X (map (\<lambda>u. u\<lparr>ub_proposals := []\<rparr>) us)) +
     sum_list (map (\<lambda>u. length (concat (ub_proposals u))) us)"
proof -
  have "length (concat (map (uncle_block_write X) us)) =
      length (concat (map (uncle_block_write X) (map (\<lambda>u. u\<lparr>ub_proposals := []\<rparr>) us))) +
      sum_list (map (\<lambda>u. length (concat (ub_proposals u))) us)"
  proof (induction us)
    case (Cons u us)
    then show ?case using uncle_without_proposals [OF assms, of u] by simp
  qed simp
  then show ?thesis
    using assms by (simp add: uncle_block_vec_write_def length_dynvec_write table_size_def)
qed

lemma example_tx_size: "length (raw_transaction_write ext_word example_tx) < 2 ^ 32"
  by (simp add: example_tx_def table_size_def ext_word_molecule_ok length_dynvec_write
      raw_transaction_write_def fixvec_write_def cell_dep_vec_write_def byte32_vec_write_def
      cell_input_vec_write_def cell_output_vec_write_def bytes_vec_write_def bytes_write_def
      cell_input_write_def out_point_write_def byte_write_def cell_output_write_def script_write_def
      script_opt_write_def option_write_def new_cellbase_input_def cell_input_new_def
      out_point_null_def byte32_write_def byte32_zero_def)

section \<open>Properties\<close>

text \<open>
  C37. The transaction hash binds everything but the witnesses: well-formed transactions with
  the same hash agree on version, dependencies, inputs, outputs and data, unless their
  serialisations are a collision of the digest.
\<close>

theorem tx_hash_binding:
  assumes "molecule_ok X" and "raw_transaction_wf t1" and "raw_transaction_wf t2"
    and "length (raw_transaction_write X t1) < 2 ^ 32"
    and "calc_tx_hash X t1 = calc_tx_hash X t2"
  shows "raw_transaction.truncate t1 = raw_transaction.truncate t2 \<or>
     collision (blake2b_256 X) (raw_transaction_write X t1) (raw_transaction_write X t2)"
  using hash_binding [OF raw_transaction_codec [OF assms(1)],
      of "raw_transaction.truncate t1" "raw_transaction.truncate t2"] assms(2-)
  by (simp add: calc_tx_hash_def)

theorem tx_hash_binding_witness:
  "raw_transaction.truncate (example_tx\<lparr>tx_witnesses := [[1]]\<rparr>) = raw_transaction.truncate example_tx \<or>
   collision (blake2b_256 ext_word) (raw_transaction_write ext_word (example_tx\<lparr>tx_witnesses := [[1]]\<rparr>))
     (raw_transaction_write ext_word example_tx)"
proof (rule tx_hash_binding [OF ext_word_molecule_ok])
  have tr: "raw_transaction_write X (example_tx\<lparr>tx_witnesses := [[1]]\<rparr>) = raw_transaction_write X example_tx"
    for X :: ext
    by (simp add: raw_transaction_write_def)
  show "raw_transaction_wf example_tx" "raw_transaction_wf (example_tx\<lparr>tx_witnesses := [[1]]\<rparr>)"
    using example_block_wf by (simp_all add: block_wf_def example_block_def raw_transaction_wf_def)
  show "length (raw_transaction_write ext_word (example_tx\<lparr>tx_witnesses := [[1]]\<rparr>)) < 2 ^ 32"
    using example_tx_size by (simp add: tr)
  show "calc_tx_hash ext_word (example_tx\<lparr>tx_witnesses := [[1]]\<rparr>) = calc_tx_hash ext_word example_tx"
    by (simp add: calc_tx_hash_def tr)
qed

text \<open>
  The size that counts against the block limit is the size the block would have without
  the proposals of its uncles; its computation never underflows.
\<close>

theorem size_without_uncle_proposals:
  assumes "molecule_ok X"
  shows "serialized_size_without_uncle_proposals X (b :: block) =
     (Ok (length (block_write X (b\<lparr>b_uncles := map (\<lambda>u. u\<lparr>ub_proposals := []\<rparr>) (b_uncles b)\<rparr>)))
       :: (nat, 'e) outcome)"
proof -
  let ?b = "b\<lparr>b_uncles := map (\<lambda>u. u\<lparr>ub_proposals := []\<rparr>) (b_uncles b)\<rparr>"
  let ?n = "sum_list (map (\<lambda>u. length (concat (ub_proposals u))) (b_uncles b))"
  have "length (block_write X b) = length (block_write X ?b) + ?n"
    using uncles_without_proposals [OF assms, of "b_uncles b"] assms
    by (simp add: block_write_def table_size_def)
  then show ?thesis
    by (simp add: serialized_size_without_uncle_proposals_def Let_def NUMBER_SIZE_def
        length_proposals_write [OF assms] o_def list_ex_iff)
qed

theorem size_without_uncle_proposals_witness:
  "serialized_size_without_uncle_proposals ext_word example_block =
     (Ok (length (block_write ext_word
        (example_block\<lparr>b_uncles := map (\<lambda>u. u\<lparr>ub_proposals := []\<rparr>) (b_uncles example_block)\<rparr>)))
       :: (nat, verification_error) outcome)"
  by (rule size_without_uncle_proposals [OF ext_word_molecule_ok])

end
