(* ===== verification/Pow.thy ===== *)
theory Pow
  imports Hashing
begin

text \<open>
  Proof of work (\<open>pow/src/lib.rs\<close> and its engines): the message that is hashed, and the
  check of a header's nonce against its compact target. The Eaglesong digest and the
  big-endian reading of a \<open>U256\<close> are external.
\<close>

datatype pow = Dummy | Eaglesong | EaglesongBlake2b

definition pow_is_dummy :: "pow \<Rightarrow> bool" where
  "pow_is_dummy p \<longleftrightarrow> p = Dummy"

definition pow_message :: "byte32 \<Rightarrow> u128 \<Rightarrow> bytes" where
  "pow_message pow_hash nonce = pow_hash @ to_le_bytes nonce"

text \<open>The comparison that both Eaglesong engines make; \<open>None\<close> is a panic.\<close>

definition target_met :: "'z ext_scheme \<Rightarrow> u32 \<Rightarrow> bytes \<Rightarrow> bool option" where
  "target_met X compact_target out =
     (let (block_target, overflow) = compact_to_target X compact_target in
      if block_target = 0 \<or> overflow then Some False
      else map_option (\<lambda>d. \<not> block_target < d) (x_u256_from_big_endian X out))"

definition eaglesong_verify :: "'z ext_scheme \<Rightarrow> 'a header_scheme \<Rightarrow> bool option" where
  "eaglesong_verify X h =
     (let input = pow_message (calc_pow_hash X h) (h_nonce h);
          out = x_eaglesong X input
      in target_met X (h_compact_target h) out)"

definition eaglesong_blake2b_verify :: "'z ext_scheme \<Rightarrow> 'a header_scheme \<Rightarrow> bool option" where
  "eaglesong_blake2b_verify X h =
     (let input = pow_message (calc_pow_hash X h) (h_nonce h);
          out = blake2b_256 X (x_eaglesong X input)
      in target_met X (h_compact_target h) out)"

definition pow_engine_verify :: "'z ext_scheme \<Rightarrow> pow \<Rightarrow> 'a header_scheme \<Rightarrow> bool option" where
  "pow_engine_verify X p h =
     (case p of
        Dummy \<Rightarrow> Some True
      | Eaglesong \<Rightarrow> eaglesong_verify X h
      | EaglesongBlake2b \<Rightarrow> eaglesong_blake2b_verify X h)"

section \<open>Properties\<close>

lemma target_met_difficulty:
  assumes N: "numext_ok X" and met: "target_met X c out = Some True"
  shows "\<exists>d w. compact_to_difficulty X c = Some d \<and> d \<noteq> 0 \<and> x_u256_from_big_endian X out = Some w \<and>
     unat w * unat d \<le> 2 ^ 256"
proof -
  obtain t where t: "compact_to_target X c = (t, False)" "t \<noteq> 0"
    using met by (auto simp: target_met_def split: prod.splits if_splits)
  then obtain w where w: "x_u256_from_big_endian X out = Some w" "w \<le> t"
    using met by (auto simp: target_met_def not_less)
  obtain d where d: "target_to_difficulty X t = Some d"
      "unat d = (if t = 1 then 2 ^ 256 - 1 else 2 ^ 256 div unat t)"
    using target_to_difficulty_Some [OF N t(2)] by blast
  have tpos: "0 < unat t" using t(2) by (simp add: unat_gt_0)
  have le: "unat t \<le> 2 ^ 256" using unat_bound [of t] by simp
  have "unat d \<noteq> 0" using d(2) tpos le by (auto simp: div_greater_zero_iff)
  moreover have "unat t * unat d \<le> 2 ^ 256"
    unfolding d(2) by (cases "t = 1") (simp_all only: if_True if_False times_div_less_eq_dividend, simp)
  moreover have "unat w * unat d \<le> unat t * unat d"
    using w(2) by (intro mult_le_mono1) (simp add: word_le_nat_alt)
  ultimately have wd: "unat w * unat d \<le> 2 ^ 256" and nz: "d \<noteq> 0" by (blast intro: le_trans, auto)
  have "compact_to_difficulty X c = Some d" using t d(1) by (simp add: compact_to_difficulty_def)
  then show ?thesis using w(1) wd nz by blast
qed

text \<open>The difficulty of a target of half the hash space.\<close>

lemma example_easy_difficulty: "compact_to_difficulty ext_word 0x20800000 = Some 2"
proof -
  have "compact_to_target ext_word 0x20800000 = (2 ^ 255, False)"
    by (simp add: compact_to_target_def ext_word_def numext.defs numext_word_def push_bit_eq_mult)
  moreover have "target_to_difficulty ext_word (2 ^ 255) = Some 2"
    by (simp add: target_to_difficulty_def HSPACE_def ext_word_def numext.defs numext_word_def checked_div_def)
  ultimately show ?thesis by (simp add: compact_to_difficulty_def)
qed



end
