(* ===== verification/Consensus.thy ===== *)
theory Consensus
  imports Epoch Pow
begin

text \<open>
  Consensus parameters and the computation of the next epoch (\<open>spec/src/consensus.rs\<close>). The
  record \<open>consensus\<close> has the fields of the struct that the modelled code reads; the
  orphan-rate target is a rational over \<open>U256\<close>. An \<open>Ok None\<close> of \<open>next_epoch_ext\<close> is the
  \<open>None\<close> of the source, \<open>Panic\<close> an overflow or an \<open>expect\<close>.
\<close>

datatype proposal_window = ProposalWindow (closest: u64) (farthest: u64)

record consensus =
  c_genesis_block :: block_view
  c_genesis_hash :: byte32
  c_dao_type_hash :: "byte32 option"
  c_initial_primary_epoch_reward :: capacity
  c_secondary_epoch_reward :: capacity
  c_max_uncles_num :: nat
  c_orphan_rate_target :: rational_u256
  c_epoch_duration_target :: u64
  c_tx_proposal_window :: proposal_window
  c_proposer_reward_ratio :: ratio
  c_pow :: pow
  c_cellbase_maturity :: epoch_fraction
  c_median_time_block_count :: nat
  c_max_block_cycles :: u64
  c_max_block_bytes :: u64
  c_block_version :: u32
  c_tx_version :: u32
  c_max_block_proposals_limit :: u64
  c_genesis_epoch_ext :: epoch_ext
  c_satoshi_pubkey_hash :: bytes
  c_satoshi_cell_occupied_ratio :: ratio
  c_primary_epoch_reward_halving_interval :: u64
  c_permanent_difficulty_in_dummy :: bool

definition TAU :: u64 where "TAU = 2"
definition MAX_EPOCH_LENGTH :: u64 where "MAX_EPOCH_LENGTH = 1800"
definition MIN_EPOCH_LENGTH :: u64 where "MIN_EPOCH_LENGTH = 300"
definition MILLISECONDS_IN_A_SECOND :: u64 where "MILLISECONDS_IN_A_SECOND = 1000"

definition pw_length :: "proposal_window \<Rightarrow> u64 result" where
  "pw_length w = tryq (p_sub (farthest w) (closest w)) (\<lambda>d. p_add d 1)"

definition finalization_delay_length :: "consensus \<Rightarrow> u64 result" where
  "finalization_delay_length C = p_add (farthest (c_tx_proposal_window C)) 1"

definition finalize_target :: "consensus \<Rightarrow> u64 \<Rightarrow> u64 option result" where
  "finalize_target C block_number =
     (if block_number \<noteq> 0
      then tryq (finalization_delay_length C) (\<lambda>d. Ok (Some (saturating_sub block_number d)))
      else Ok None)"

text \<open>\<open>>>\<close> on a \<open>u64\<close> panics when the shift is at least 64.\<close>

definition primary_epoch_reward :: "consensus \<Rightarrow> u64 \<Rightarrow> capacity result" where
  "primary_epoch_reward C epoch_number =
     tryq (p_div epoch_number (c_primary_epoch_reward_halving_interval C)) (\<lambda>halvings.
     if 64 \<le> halvings then Panic
     else Ok (drop_bit (unat halvings) (c_initial_primary_epoch_reward C)))"

definition primary_epoch_reward_of_next_epoch :: "consensus \<Rightarrow> epoch_ext \<Rightarrow> capacity result" where
  "primary_epoch_reward_of_next_epoch C e =
     tryq (p_add (ee_number e) 1) (\<lambda>n.
     tryq (p_mod n (c_primary_epoch_reward_halving_interval C)) (\<lambda>m.
     if m \<noteq> 0 then ee_primary_reward e else primary_epoch_reward C n))"

definition permanent_difficulty :: "consensus \<Rightarrow> bool" where
  "permanent_difficulty C \<longleftrightarrow> pow_is_dummy (c_pow C) \<and> c_permanent_difficulty_in_dummy C"

definition bounding_hash_rate :: "'z numext_scheme \<Rightarrow> u256 \<Rightarrow> u256 \<Rightarrow> u256 option" where
  "bounding_hash_rate N last_epoch_hash_rate last_epoch_previous_hash_rate =
     (if last_epoch_previous_hash_rate = 0 then Some last_epoch_hash_rate
      else do {
        lower_bound \<leftarrow> nx_div N last_epoch_previous_hash_rate (ucast TAU);
        if last_epoch_hash_rate < lower_bound then Some lower_bound
        else do {
          upper_bound \<leftarrow> nx_mul N last_epoch_previous_hash_rate (ucast TAU);
          if upper_bound < last_epoch_hash_rate then Some upper_bound else Some last_epoch_hash_rate } })"

definition bounding_epoch_length :: "u64 \<Rightarrow> u64 \<Rightarrow> (u64 \<times> bool) result" where
  "bounding_epoch_length len last_epoch_length =
     tryq (p_mul last_epoch_length TAU) (\<lambda>t.
     let max_length = min MAX_EPOCH_LENGTH t;
         min_length = max MIN_EPOCH_LENGTH (last_epoch_length div TAU)
     in Ok (if max_length < len then (max_length, True)
            else if len < min_length then (min_length, True)
            else (len, False)))"

definition u256_low_u64 :: "u256 \<Rightarrow> u64" where
  "u256_low_u64 u = ucast u"

section \<open>The next epoch\<close>

text \<open>The steps of \<open>next_epoch_ext\<close>: (1) the adjusted hash rate.\<close>

definition adjusted_hash_rate ::
  "'z numext_scheme \<Rightarrow> u256 \<Rightarrow> u64 \<Rightarrow> u64 \<Rightarrow> u256 \<Rightarrow> u256 \<Rightarrow> u256 result" where
  "adjusted_hash_rate N last_difficulty last_epoch_length last_uncles_count last_epoch_duration previous =
     tryq (p_add last_epoch_length last_uncles_count) (\<lambda>blocks.
     tryq (expect (nx_mul N last_difficulty (ucast blocks))) (\<lambda>work.
     tryq (expect (nx_div N work last_epoch_duration)) (\<lambda>last_epoch_hash_rate.
     tryq (expect (bounding_hash_rate N last_epoch_hash_rate previous)) (\<lambda>r.
     Ok (max r 1)))))"

text \<open>(2) the number of blocks of the next epoch, and whether it was cut to a bound.\<close>

definition next_epoch_length ::
  "'z numext_scheme \<Rightarrow> consensus \<Rightarrow> u64 \<Rightarrow> u64 \<Rightarrow> u256 \<Rightarrow> rational_u256 \<Rightarrow> (u64 \<times> bool) result" where
  "next_epoch_length N C last_epoch_length last_uncles_count last_epoch_duration last_orphan_rate =
     (if last_uncles_count = 0
      then tryq (p_mul last_epoch_length TAU) (\<lambda>t. Ok (min MAX_EPOCH_LENGTH t, True))
      else tryq (expect (do {
          o1 \<leftarrow> rat_add_u256 N last_orphan_rate 1;
          n1 \<leftarrow> rat_mul N (c_orphan_rate_target C) o1;
          n2 \<leftarrow> rat_mul_u256 N n1 (ucast (c_epoch_duration_target C));
          numerator \<leftarrow> rat_mul_u256 N n2 (ucast last_epoch_length);
          t1 \<leftarrow> rat_add_u256 N (c_orphan_rate_target C) 1;
          d1 \<leftarrow> rat_mul N last_orphan_rate t1;
          denominator \<leftarrow> rat_mul_u256 N d1 last_epoch_duration;
          q \<leftarrow> rat_div N numerator denominator;
          into_u256 N q })) (\<lambda>raw. bounding_epoch_length (u256_low_u64 raw) last_epoch_length))"

text \<open>(3) the difficulty of the next epoch.\<close>

definition diff_denominator ::
  "'z numext_scheme \<Rightarrow> consensus \<Rightarrow> bool \<Rightarrow> rational_u256 \<Rightarrow> u64 \<Rightarrow> u256 \<Rightarrow> u64 \<Rightarrow> rational_u256 option" where
  "diff_denominator N C bound last_orphan_rate last_epoch_length last_epoch_duration next_len =
     (if bound then
        (if rat_is_zero last_orphan_rate then rat_new N (ucast next_len) 1
         else do {
           o1 \<leftarrow> rat_add_u256 N last_orphan_rate 1;
           n1 \<leftarrow> rat_mul_u256 N o1 (ucast (c_epoch_duration_target C));
           n2 \<leftarrow> rat_mul_u256 N n1 (ucast last_epoch_length);
           d1 \<leftarrow> rat_mul_u256 N last_orphan_rate last_epoch_duration;
           d2 \<leftarrow> rat_mul_u256 N d1 (ucast next_len);
           q \<leftarrow> rat_div N n2 d2;
           recip \<leftarrow> rat_saturating_sub_u256 N q 1;
           (if rat_is_zero recip then do {
              t1 \<leftarrow> rat_add_u256 N (c_orphan_rate_target C) 1;
              rat_mul_u256 N t1 (ucast next_len) }
            else do {
              est \<leftarrow> rat_div N rat_one recip;
              e1 \<leftarrow> rat_add_u256 N est 1;
              rat_mul_u256 N e1 (ucast next_len) }) })
      else do {
        t1 \<leftarrow> rat_add_u256 N (c_orphan_rate_target C) 1;
        rat_mul_u256 N t1 (ucast next_len) })"

definition next_epoch_diff ::
  "'z numext_scheme \<Rightarrow> consensus \<Rightarrow> u256 \<Rightarrow> rational_u256 \<Rightarrow> u256 option" where
  "next_epoch_diff N C hash_rate denominator = do {
     n \<leftarrow> nx_mul N hash_rate (ucast (c_epoch_duration_target C));
     numerator \<leftarrow> rat_new N n 1;
     gt \<leftarrow> rat_gt N numerator denominator;
     (if gt then do { q \<leftarrow> rat_div N numerator denominator; into_u256 N q } else Some 1) }"

definition next_epoch_ext ::
  "'z numext_scheme \<Rightarrow> consensus \<Rightarrow> epoch_ext \<Rightarrow> header_view \<Rightarrow> (byte32 \<Rightarrow> header_view option) \<Rightarrow>
   (byte32 \<Rightarrow> u64 option) \<Rightarrow> epoch_ext option result" where
  "next_epoch_ext N C last_epoch header get_block_header total_uncles_count =
     (let last_epoch_length = ee_length last_epoch; header_number = h_number header in
      tryq (tryq (p_add (ee_start_number last_epoch) last_epoch_length) (\<lambda>x. p_sub x 1)) (\<lambda>last_number.
      if header_number \<noteq> last_number then Ok None
      else if permanent_difficulty C then
        tryq (p_add (ee_number last_epoch) 1) (\<lambda>n.
        tryq (p_add header_number 1) (\<lambda>start.
        Ok (Some (last_epoch\<lparr>ee_number := n, ee_last_block_hash_in_previous_epoch := h_hash header,
                             ee_start_number := start\<rparr>))))
      else (case (if ee_is_genesis last_epoch then Some (bv_header (c_genesis_block C))
                  else get_block_header (ee_last_block_hash_in_previous_epoch last_epoch)) of
        None \<Rightarrow> Ok None
      | Some last_header \<Rightarrow>
        tryq (expect (raw_header_difficulty N header)) (\<lambda>last_difficulty.
        tryq (expect (total_uncles_count (h_hash last_header))) (\<lambda>start_total_uncles_count.
        tryq (expect (total_uncles_count (h_hash header))) (\<lambda>last_total_uncles_count.
        tryq (p_sub last_total_uncles_count start_total_uncles_count) (\<lambda>last_uncles_count.
        let last_epoch_duration =
              ucast (max (saturating_sub (h_timestamp header) (h_timestamp last_header) div
                          MILLISECONDS_IN_A_SECOND) 1) :: u256 in
        tryq (adjusted_hash_rate N last_difficulty last_epoch_length last_uncles_count last_epoch_duration
                (ee_previous_epoch_hash_rate last_epoch)) (\<lambda>hash_rate.
        tryq (expect (rat_new N (ucast last_uncles_count) (ucast last_epoch_length))) (\<lambda>last_orphan_rate.
        tryq (next_epoch_length N C last_epoch_length last_uncles_count last_epoch_duration last_orphan_rate)
          (\<lambda>(next_len, bound).
        tryq (expect (diff_denominator N C bound last_orphan_rate last_epoch_length last_epoch_duration next_len))
          (\<lambda>denominator.
        tryq (expect (next_epoch_diff N C hash_rate denominator)) (\<lambda>diff.
        tryq (primary_epoch_reward_of_next_epoch C last_epoch) (\<lambda>reward.
        tryq (p_div reward next_len) (\<lambda>block_reward.
        tryq (p_mod reward next_len) (\<lambda>remainder_reward.
        tryq (p_add (ee_number last_epoch) 1) (\<lambda>n.
        tryq (p_add header_number 1) (\<lambda>start.
        tryq (expect (difficulty_to_compact N diff)) (\<lambda>target.
        Ok (Some \<lparr>ee_number = n, ee_base_block_reward = block_reward,
              ee_remainder_reward = remainder_reward, ee_previous_epoch_hash_rate = hash_rate,
              ee_last_block_hash_in_previous_epoch = h_hash header, ee_start_number = start,
              ee_length = next_len, ee_compact_target = target\<rparr>)))))))))))))))))))"

section \<open>An example\<close>

definition example_genesis :: block_view where
  "example_genesis = block.extend
     \<lparr>b_header = example_header\<lparr>h_number := 0, h_timestamp := 0\<rparr>, b_uncles = [], b_transactions = [],
      b_proposals = []\<rparr>
     \<lparr>bv_hash = byte32_zero, bv_uncle_hashes = [], bv_tx_hashes = [], bv_tx_witness_hashes = []\<rparr>"

definition example_last_epoch :: epoch_ext where
  "example_last_epoch = \<lparr>ee_number = 0, ee_base_block_reward = 191780821917, ee_remainder_reward = 808,
     ee_previous_epoch_hash_rate = 1, ee_last_block_hash_in_previous_epoch = byte32_zero,
     ee_start_number = 0, ee_length = 1000, ee_compact_target = 0x20010000\<rparr>"

definition example_consensus :: consensus where
  "example_consensus = \<lparr>c_genesis_block = example_genesis, c_genesis_hash = byte32_zero,
     c_dao_type_hash = None, c_initial_primary_epoch_reward = 191780821917808,
     c_secondary_epoch_reward = 61369863013698, c_max_uncles_num = 2,
     c_orphan_rate_target = new_raw 1 40, c_epoch_duration_target = 14400,
     c_tx_proposal_window = ProposalWindow 2 10, c_proposer_reward_ratio = Ratio 4 10,
     c_pow = Eaglesong, c_cellbase_maturity = ef_new 4 0 1, c_median_time_block_count = 37,
     c_max_block_cycles = 3500000000, c_max_block_bytes = 597000, c_block_version = 0, c_tx_version = 0,
     c_max_block_proposals_limit = 1500, c_genesis_epoch_ext = example_last_epoch,
     c_satoshi_pubkey_hash = [], c_satoshi_cell_occupied_ratio = Ratio 6 10,
     c_primary_epoch_reward_halving_interval = 8760, c_permanent_difficulty_in_dummy = False\<rparr>"

section \<open>Bounds of the next epoch\<close>

text \<open>
  The invariant of the epochs of a chain: a length between the two constants, and a
  remainder below the length.
\<close>

definition epoch_inv :: "epoch_ext \<Rightarrow> bool" where
  "epoch_inv e \<longleftrightarrow> MIN_EPOCH_LENGTH \<le> ee_length e \<and> ee_length e \<le> MAX_EPOCH_LENGTH \<and>
     ee_remainder_reward e < ee_length e"

lemmas epoch_consts = TAU_def MAX_EPOCH_LENGTH_def MIN_EPOCH_LENGTH_def

lemma unat_epoch_consts [simp]:
  "unat TAU = 2" "unat MAX_EPOCH_LENGTH = 1800" "unat MIN_EPOCH_LENGTH = 300"
  by (simp_all add: epoch_consts)

lemma unat_min: "unat (min a b) = min (unat a) (unat (b :: 'a::len word))"
  by (simp add: min_def word_le_nat_alt)

lemma unat_max: "unat (max a b) = max (unat a) (unat (b :: 'a::len word))"
  by (simp add: max_def word_le_nat_alt)

lemma double_length:
  assumes "unat l \<le> 1800"
  shows "p_mul l TAU = Ok (l * TAU)" and "unat (l * TAU) = unat l * 2"
  using assms by (simp_all add: p_ops_defs checked_mul_def TAU_def unat_word_ariths)

lemma bounding_epoch_length_Ok:
  assumes "300 \<le> unat l" and "unat l \<le> 1800"
  shows "\<exists>n b. bounding_epoch_length len l = Ok (n, b) \<and> 300 \<le> unat n \<and> unat n \<le> 1800 \<and>
     unat l div 2 \<le> unat n \<and> unat n \<le> unat l * 2 \<and> (\<not> b \<longrightarrow> n = len)"
proof -
  define mx mn where "mx = min MAX_EPOCH_LENGTH (l * TAU)" and "mn = max MIN_EPOCH_LENGTH (l div TAU)"
  then have "unat mx = min 1800 (unat l * 2)" and "unat mn = max 300 (unat l div 2)"
    using double_length(2) [OF assms(2)] by (simp_all add: unat_min unat_max unat_div)
  then have bounds: "unat mn \<le> unat mx" "300 \<le> unat mn" "unat l div 2 \<le> unat mn"
      "unat mx \<le> 1800" "unat mx \<le> unat l * 2"
    using assms by auto
  define r where "r = (if mx < len then (mx, True) else if len < mn then (mn, True) else (len, False))"
  have eq: "bounding_epoch_length len l = Ok r"
    by (simp only: bounding_epoch_length_def double_length(1) [OF assms(2)] tryq.simps Let_def
        mx_def mn_def r_def)
  have "unat mn \<le> unat (fst r) \<and> unat (fst r) \<le> unat mx \<and> (\<not> snd r \<longrightarrow> fst r = len)"
    using bounds(1) by (simp add: r_def word_less_nat_alt not_less)
  then have "300 \<le> unat (fst r) \<and> unat (fst r) \<le> 1800 \<and> unat l div 2 \<le> unat (fst r) \<and>
      unat (fst r) \<le> unat l * 2 \<and> (\<not> snd r \<longrightarrow> fst r = len)"
    using bounds by linarith
  then show ?thesis
    unfolding eq by (intro exI [of _ "fst r"] exI [of _ "snd r"]) simp
qed

lemma next_epoch_length_bounds:
  assumes ok: "next_epoch_length N C l u d o' = Ok (n, b)" and l: "300 \<le> unat l" "unat l \<le> 1800"
  shows "300 \<le> unat n \<and> unat n \<le> 1800 \<and> unat l div 2 \<le> unat n \<and> unat n \<le> unat l * 2"
proof (cases "u = 0")
  case True
  then have "n = min MAX_EPOCH_LENGTH (l * TAU)"
    using ok by (simp add: next_epoch_length_def double_length [OF l(2)])
  then have "unat n = min 1800 (unat l * 2)" using double_length(2) [OF l(2)] by (simp add: unat_min)
  then show ?thesis using l by auto
next
  case False
  then obtain raw where "bounding_epoch_length (u256_low_u64 raw) l = Ok (n, b)"
    using ok by (auto simp: next_epoch_length_def tryq_eq_Ok)
  then show ?thesis using bounding_epoch_length_Ok [OF l, of "u256_low_u64 raw"] by auto
qed

lemma next_epoch_ext_parts:
  assumes ok: "next_epoch_ext N C prev h gh tu = Ok (Some e)" and np: "\<not> permanent_difficulty C"
  shows "\<exists>u d o' b reward.
     unat (h_number h) + 1 = unat (ee_start_number prev) + unat (ee_length prev) \<and>
     next_epoch_length N C (ee_length prev) u d o' = Ok (ee_length e, b) \<and>
     primary_epoch_reward_of_next_epoch C prev = Ok reward \<and>
     p_div reward (ee_length e) = (Ok (ee_base_block_reward e) :: capacity result) \<and>
     p_mod reward (ee_length e) = (Ok (ee_remainder_reward e) :: capacity result) \<and>
     unat (ee_number e) = unat (ee_number prev) + 1 \<and>
     unat (ee_start_number e) = unat (h_number h) + 1 \<and>
     ee_last_block_hash_in_previous_epoch e = h_hash h"
proof -
  obtain x n where x: "p_add (ee_start_number prev) (ee_length prev) = (Ok x :: u64 result)"
      "p_sub x 1 = (Ok n :: u64 result)" "h_number h = n"
    using ok by (auto simp: next_epoch_ext_def Let_def tryq_eq_Ok split: if_splits)
  then have num: "unat (h_number h) + 1 = unat (ee_start_number prev) + unat (ee_length prev)"
    by (simp add: panic_simps)
  obtain lh where lh: "(if ee_is_genesis prev then Some (bv_header (c_genesis_block C))
      else gh (ee_last_block_hash_in_previous_epoch prev)) = Some lh"
    using ok np x
    by (cases "if ee_is_genesis prev then Some (bv_header (c_genesis_block C))
      else gh (ee_last_block_hash_in_previous_epoch prev)")
      (auto simp: next_epoch_ext_def Let_def)
  show ?thesis
    using ok np x(1,2) num unfolding next_epoch_ext_def Let_def lh
    by (auto simp: x(3) tryq_eq_Ok p_add_eq_Ok) blast
qed

section \<open>Properties\<close>

text \<open>
  The bound on the epoch length is total and enforces the protocol limits: for a previous
  length between 300 and 1800 it returns a length between 300 and 1800 that is at most twice
  and at least half the previous one, and a length that was not cut is the requested one.
\<close>

theorem epoch_length_bounded:
  assumes "MIN_EPOCH_LENGTH \<le> l" and "l \<le> MAX_EPOCH_LENGTH"
  shows "\<exists>n b. bounding_epoch_length len l = Ok (n, b) \<and> MIN_EPOCH_LENGTH \<le> n \<and> n \<le> MAX_EPOCH_LENGTH \<and>
     unat l div unat TAU \<le> unat n \<and> unat n \<le> unat l * unat TAU \<and> (\<not> b \<longrightarrow> n = len)"
  using bounding_epoch_length_Ok [of l len] assms by (simp add: word_le_nat_alt)

theorem epoch_length_bounded_witness:
  "\<exists>n b. bounding_epoch_length 5000 1000 = Ok (n, b) \<and> MIN_EPOCH_LENGTH \<le> n \<and> n \<le> MAX_EPOCH_LENGTH \<and>
     unat (1000 :: u64) div unat TAU \<le> unat n \<and> unat n \<le> unat (1000 :: u64) * unat TAU \<and>
     (\<not> b \<longrightarrow> n = 5000)"
  by (rule epoch_length_bounded) (simp_all add: epoch_consts)

end
