(* ===== verification/Next_Epoch.thy ===== *)
theory Next_Epoch
  imports Consensus
begin

text \<open>
  The next epoch is always computed. \<open>next_epoch_ext\<close> works on rationals over 256-bit
  integers whose operators panic on overflow; here the sizes of all intermediate values are
  tracked as powers of two, which gives that the computation returns an epoch for every input
  within bounds far above what the chain can reach.
\<close>

section \<open>Sizes of rationals\<close>

definition rat_within :: "nat \<Rightarrow> nat \<Rightarrow> rational_u256 \<Rightarrow> bool" where
  "rat_within p q r \<longleftrightarrow> rat_valid r \<and> unat (r_numer r) < 2 ^ p \<and> unat (r_denom r) \<le> 2 ^ q"

lemma mult_less_pow: "a < 2 ^ p \<Longrightarrow> b < 2 ^ q \<Longrightarrow> a * b < (2::nat) ^ (p + q)"
  by (simp add: power_add mult_strict_mono)

lemma mult_le_pow: "a \<le> 2 ^ p \<Longrightarrow> b \<le> 2 ^ q \<Longrightarrow> a * b \<le> (2::nat) ^ (p + q)"
  by (simp add: power_add mult_le_mono)

lemma mult_less_le_pow:
  assumes "a < 2 ^ p" and "b \<le> 2 ^ q"
  shows "a * b < (2::nat) ^ (p + q)"
proof -
  have "a * b \<le> a * 2 ^ q" using assms(2) by simp
  also have "a * 2 ^ q < 2 ^ p * 2 ^ q" using assms(1) by simp
  finally show ?thesis by (simp add: power_add)
qed

lemma less_pow_mono: "a < (2::nat) ^ p \<Longrightarrow> p \<le> q \<Longrightarrow> a < 2 ^ q"
  by (erule less_le_trans) simp

lemma le_pow_mono: "a \<le> (2::nat) ^ p \<Longrightarrow> p \<le> q \<Longrightarrow> a \<le> 2 ^ q"
  by (erule le_trans) simp

lemma le_pow_less: "a \<le> (2::nat) ^ p \<Longrightarrow> p < q \<Longrightarrow> a < 2 ^ q"
  by (erule le_less_trans) simp

lemma within_valid: "rat_within p q r \<Longrightarrow> rat_valid r"
  by (simp add: rat_within_def)

lemma within_mono: "rat_within p q r \<Longrightarrow> p \<le> p' \<Longrightarrow> q \<le> q' \<Longrightarrow> rat_within p' q' r"
  by (auto simp: rat_within_def intro: less_pow_mono le_pow_mono)

lemma rat_is_zero_iff: "rat_valid r \<Longrightarrow> rat_is_zero r \<longleftrightarrow> rat_val r = 0"
  by (auto simp: rat_is_zero_def rat_val_def rat_valid_def unat_eq_0)

lemma rat_val_pos: "rat_valid r \<Longrightarrow> \<not> rat_is_zero r \<Longrightarrow> 0 < rat_val r"
  using rat_val_nonneg [of r] by (simp add: rat_is_zero_iff less_le)

lemma rat_val_plus_one_pos [simp]: "0 < rat_val r + 1"
  by (rule add_nonneg_pos) simp_all

lemma within_new:
  assumes "numext_ok N" and "d \<noteq> 0" and "unat n < 2 ^ p" and "unat d \<le> 2 ^ q"
  shows "\<exists>r. rat_new N n d = Some r \<and> rat_within p q r \<and>
     rat_val r = rat_of_nat (unat n) / rat_of_nat (unat d)"
  using rat_new_Some [OF assms(1,2), of n] assms(3,4) unfolding rat_within_def
  by (meson le_less_trans le_trans)

lemma within_mul:
  assumes "numext_ok N" and "rat_within p q a" and "rat_within p' q' b" and "p + p' \<le> 256" and "q + q' < 256"
  shows "\<exists>c. rat_mul N a b = Some c \<and> rat_within (p + p') (q + q') c \<and> rat_val c = rat_val a * rat_val b"
proof -
  have n: "unat (r_numer a) * unat (r_numer b) < 2 ^ (p + p')"
    and d: "unat (r_denom a) * unat (r_denom b) \<le> 2 ^ (q + q')"
    using assms(2,3) by (simp_all add: rat_within_def mult_less_pow mult_le_pow)
  show ?thesis
    using rat_mul_Some [OF assms(1) within_valid [OF assms(2)] within_valid [OF assms(3)]
        less_pow_mono [OF n assms(4)] le_pow_less [OF d assms(5)]] n d
    unfolding rat_within_def by (meson le_less_trans le_trans)
qed

lemma within_div:
  assumes N: "numext_ok N" and a: "rat_within p q a" and b: "rat_within p' q' b" and nz: "rat_val b \<noteq> 0"
    and "p + q' \<le> 256" and "q + p' < 256"
  shows "\<exists>c. rat_div N a b = Some c \<and> rat_within (p + q') (q + p') c \<and> rat_val c = rat_val a / rat_val b"
proof -
  let ?b = "new_raw (r_denom b) (r_numer b)"
  have num: "r_numer b \<noteq> 0" using nz by (auto simp: rat_val_def)
  then have v: "rat_valid ?b" by (simp add: rat_valid_def)
  have n: "unat (r_numer a) * unat (r_numer ?b) < 2 ^ (p + q')"
    and d: "unat (r_denom a) * unat (r_denom ?b) \<le> 2 ^ (q + p')"
    using a b by (simp_all add: rat_within_def mult_less_le_pow mult_le_pow)
  have "rat_val ?b = 1 / rat_val b" by (simp add: rat_val_def)
  then show ?thesis
    using rat_mul_Some [OF N within_valid [OF a] v less_pow_mono [OF n assms(5)] le_pow_less [OF d assms(6)]] n d
    unfolding rat_within_def rat_div_as_mul by (auto dest: le_less_trans le_trans)
qed

lemma within_mul_u256:
  assumes "numext_ok N" and "rat_within p q a" and "unat t < 2 ^ k" and "p + k \<le> 256"
  shows "\<exists>c. rat_mul_u256 N a t = Some c \<and> rat_within (p + k) q c \<and> rat_val c = rat_val a * rat_of_nat (unat t)"
proof -
  have n: "unat (r_numer a) * unat t < 2 ^ (p + k)"
    using assms(2,3) by (simp add: rat_within_def mult_less_pow)
  show ?thesis
    using rat_mul_u256_Some [OF assms(1) within_valid [OF assms(2)] less_pow_mono [OF n assms(4)]] n assms(2)
    unfolding rat_within_def by (meson le_less_trans le_trans)
qed

lemma within_add_one:
  assumes "numext_ok N" and "rat_within p q a" and "p \<le> m" and "q \<le> m" and "m < 256"
  shows "\<exists>c. rat_add_u256 N a 1 = Some c \<and> rat_within (Suc m) q c \<and> rat_val c = rat_val a + 1"
proof -
  have "unat (r_numer a) < 2 ^ m" "unat (r_denom a) \<le> 2 ^ m"
    using within_mono [OF assms(2-4)] by (simp_all add: rat_within_def)
  then have n: "unat (r_numer a) + unat (r_denom a) * unat (1 :: u256) < 2 ^ Suc m" by simp
  then show ?thesis
    using rat_add_u256_Some [OF assms(1) within_valid [OF assms(2)] less_pow_mono [OF n]] assms(2,5)
    unfolding rat_within_def by auto
qed

lemma within_saturating_sub_one:
  assumes N: "numext_ok N" and a: "rat_within p q a"
  shows "\<exists>c. rat_saturating_sub_u256 N a 1 = Some c \<and> rat_within p q c"
proof -
  have "unat (r_denom a) < 2 ^ 256" using unat_bound [of "r_denom a"] by simp
  then have mul: "nx_mul N (r_denom a) 1 = Some (r_denom a)"
    using nx_mul_exact [OF N, of "r_denom a" 1] by simp
  show ?thesis
  proof (cases "r_numer a < r_denom a")
    case True
    then show ?thesis using a
      by (simp add: rat_saturating_sub_u256_def mul nx_osub [OF N] rat_within_def rat_zero_def rat_valid_def)
  next
    case False
    then have "unat (r_numer a - r_denom a) \<le> unat (r_numer a)" by (simp add: unat_sub_exact)
    then show ?thesis using a False
      by (auto simp: rat_saturating_sub_u256_def mul nx_osub [OF N] rat_within_def rat_valid_def)
  qed
qed

section \<open>The steps of the computation\<close>

text \<open>
  The inputs of the computation: a length below \<open>2 ^ 11\<close>, fewer than \<open>2 ^ 12\<close> uncles, a
  duration below \<open>2 ^ 64\<close> and parameters of the consensus that fit in 8 and 32 bits.
\<close>

definition params_small :: "consensus \<Rightarrow> bool" where
  "params_small C \<longleftrightarrow> rat_within 8 8 (c_orphan_rate_target C) \<and> unat (c_epoch_duration_target C) < 2 ^ 32"

lemma unat_ucast64 [simp]: "unat (ucast (x :: u64) :: u256) = unat x"
  by (rule unat_ucast_256)

lemma pow_2_11: "unat (l :: u64) \<le> 1800 \<Longrightarrow> unat l < 2 ^ 11"
  by simp

lemma next_epoch_length_total:
  assumes N: "numext_ok N" and C: "params_small C" and l: "300 \<le> unat l" "unat l \<le> 1800"
    and d: "unat dur < 2 ^ 64" "dur \<noteq> 0"
    and ok: "rat_within 12 11 o'" "u \<noteq> 0 \<Longrightarrow> 0 < rat_val o'"
  shows "\<exists>n b. next_epoch_length N C l u dur o' = Ok (n, b)"
proof (cases "u = 0")
  case True
  then show ?thesis by (auto simp: next_epoch_length_def double_length [OF l(2)])
next
  case False
  let ?t = "c_orphan_rate_target C"
  have t: "rat_within 8 8 ?t" and e: "unat (ucast (c_epoch_duration_target C) :: u256) < 2 ^ 32"
    using C by (simp_all add: params_small_def)
  have l': "unat (ucast l :: u256) < 2 ^ 11" using pow_2_11 [OF l(2)] by simp
  obtain o1 where o1: "rat_add_u256 N o' 1 = Some o1" "rat_within (Suc 12) 11 o1"
    using within_add_one [OF N ok(1), of 12] by auto
  obtain n1 where n1: "rat_mul N ?t o1 = Some n1" "rat_within (8 + Suc 12) (8 + 11) n1"
    using within_mul [OF N t o1(2)] by auto
  obtain n2 where n2: "rat_mul_u256 N n1 (ucast (c_epoch_duration_target C)) = Some n2"
      "rat_within (8 + Suc 12 + 32) (8 + 11) n2"
    using within_mul_u256 [OF N n1(2) e] by auto
  obtain num where num: "rat_mul_u256 N n2 (ucast l) = Some num" "rat_within (8 + Suc 12 + 32 + 11) (8 + 11) num"
    using within_mul_u256 [OF N n2(2) l'] by auto
  obtain t1 where t1: "rat_add_u256 N ?t 1 = Some t1" "rat_within (Suc 8) 8 t1" "rat_val t1 = rat_val ?t + 1"
    using within_add_one [OF N t, of 8] by auto
  obtain d1 where d1: "rat_mul N o' t1 = Some d1" "rat_within (12 + Suc 8) (11 + 8) d1"
      "rat_val d1 = rat_val o' * rat_val t1"
    using within_mul [OF N ok(1) t1(2)] by auto
  obtain den where den: "rat_mul_u256 N d1 dur = Some den" "rat_within (12 + Suc 8 + 64) (11 + 8) den"
      "rat_val den = rat_val d1 * rat_of_nat (unat dur)"
    using within_mul_u256 [OF N d1(2) d(1)] by auto
  have "0 < rat_val t1" by (simp add: t1(3))
  moreover have "0 < rat_of_nat (unat dur)" using d(2) by (simp add: unat_gt_0)
  ultimately have "rat_val den \<noteq> 0" using ok(2) [OF False] by (simp add: den(3) d1(3))
  then obtain q where q: "rat_div N num den = Some q" "rat_valid q"
    using within_div [OF N num(2) den(2)] by (auto simp: rat_within_def)
  obtain raw where "into_u256 N q = Some raw" using into_u256_Some [OF N q(2)] by blast
  then show ?thesis
    using False bounding_epoch_length_Ok [OF l, of "u256_low_u64 raw"]
    by (auto simp: next_epoch_length_def o1(1) n1(1) n2(1) num(1) t1(1) d1(1) den(1) q(1))
qed

lemma target_denominator:
  assumes N: "numext_ok N" and C: "params_small C" and l: "300 \<le> unat n" "unat n \<le> 1800"
  shows "\<exists>t1 c. rat_add_u256 N (c_orphan_rate_target C) 1 = Some t1 \<and>
     rat_mul_u256 N t1 (ucast (n :: u64)) = Some c \<and> rat_within 111 67 c \<and> 0 < rat_val c"
proof -
  have t: "rat_within 8 8 (c_orphan_rate_target C)" using C by (simp add: params_small_def)
  have l': "unat (ucast n :: u256) < 2 ^ 11" using pow_2_11 [OF l(2)] by simp
  obtain t1 where t1: "rat_add_u256 N (c_orphan_rate_target C) 1 = Some t1" "rat_within (Suc 8) 8 t1"
      "rat_val t1 = rat_val (c_orphan_rate_target C) + 1"
    using within_add_one [OF N t, of 8] by auto
  obtain c where c: "rat_mul_u256 N t1 (ucast n) = Some c" "rat_within (Suc 8 + 11) 8 c"
      "rat_val c = rat_val t1 * rat_of_nat (unat n)"
    using within_mul_u256 [OF N t1(2) l'] by auto
  have "0 < rat_val t1" by (simp add: t1(3))
  then have "0 < rat_val c" using l(1) by (simp add: c(3))
  moreover have "rat_within 111 67 c" by (rule within_mono [OF c(2)]) simp_all
  ultimately show ?thesis using t1(1) c(1) by blast
qed

lemma diff_denominator_total:
  assumes N: "numext_ok N" and C: "params_small C" and l: "unat l \<le> 1800"
    and n: "300 \<le> unat n" "unat n \<le> 1800" and d: "unat dur < 2 ^ 64" "dur \<noteq> 0"
    and ok: "rat_within 12 11 o'"
  shows "\<exists>c. diff_denominator N C b o' l dur n = Some c \<and> rat_within 111 67 c \<and> 0 < rat_val c"
proof -
  have e: "unat (ucast (c_epoch_duration_target C) :: u256) < 2 ^ 32"
    using C by (simp add: params_small_def)
  have l': "unat (ucast l :: u256) < 2 ^ 11" and n': "unat (ucast n :: u256) < 2 ^ 11"
    using pow_2_11 [OF l] pow_2_11 [OF n(2)] by simp_all
  have n0: "(ucast n :: u256) \<noteq> 0" using n(1) by (auto simp: ucast_256_eq_0)
  obtain t1 tc where tc: "rat_add_u256 N (c_orphan_rate_target C) 1 = Some t1"
      "rat_mul_u256 N t1 (ucast n) = Some tc" "rat_within 111 67 tc" "0 < rat_val tc"
    using target_denominator [OF N C n] by blast
  obtain z where z: "rat_new N (ucast n) 1 = Some z" "rat_within 11 0 z" "rat_val z = rat_of_nat (unat n)"
    using within_new [OF N _ n', of 1 0] by auto
  have z': "rat_within 111 67 z" "0 < rat_val z"
    using within_mono [OF z(2)] n(1) by (simp_all add: z(3))
  show ?thesis
  proof (cases "b \<and> \<not> rat_is_zero o'")
    case False
    then show ?thesis using tc z(1) z' by (cases b) (auto simp: diff_denominator_def)
  next
    case True
    obtain o1 where o1: "rat_add_u256 N o' 1 = Some o1" "rat_within (Suc 12) 11 o1"
      using within_add_one [OF N ok, of 12] by auto
    obtain n1 where n1: "rat_mul_u256 N o1 (ucast (c_epoch_duration_target C)) = Some n1"
        "rat_within (Suc 12 + 32) 11 n1"
      using within_mul_u256 [OF N o1(2) e] by auto
    obtain n2 where n2: "rat_mul_u256 N n1 (ucast l) = Some n2" "rat_within (Suc 12 + 32 + 11) 11 n2"
      using within_mul_u256 [OF N n1(2) l'] by auto
    obtain d1 where d1: "rat_mul_u256 N o' dur = Some d1" "rat_within (12 + 64) 11 d1"
        "rat_val d1 = rat_val o' * rat_of_nat (unat dur)"
      using within_mul_u256 [OF N ok d(1)] by auto
    obtain d2 where d2: "rat_mul_u256 N d1 (ucast n) = Some d2" "rat_within (12 + 64 + 11) 11 d2"
        "rat_val d2 = rat_val d1 * rat_of_nat (unat n)"
      using within_mul_u256 [OF N d1(2) n'] by auto
    have "rat_val d2 \<noteq> 0"
      using True rat_val_pos [OF within_valid [OF ok]] d(2) n(1) by (auto simp: d2(3) d1(3) unat_eq_0)
    then obtain q where q: "rat_div N n2 d2 = Some q" "rat_within 67 98 q"
      using within_div [OF N n2(2) d2(2)] by auto
    obtain r where r: "rat_saturating_sub_u256 N q 1 = Some r" "rat_within 67 98 r"
      using within_saturating_sub_one [OF N q(2)] by blast
    note steps = o1(1) n1(1) n2(1) d1(1) d2(1) q(1) r(1)
    show ?thesis
    proof (cases "rat_is_zero r")
      case r0: True
      then show ?thesis using True tc by (auto simp: diff_denominator_def steps)
    next
      case r0: False
      have one: "rat_within 1 0 rat_one" by (simp add: rat_within_def rat_one_def rat_valid_def)
      obtain est where est: "rat_div N rat_one r = Some est" "rat_within (1 + 98) (0 + 67) est"
        using within_div [OF N one r(2)] rat_is_zero_iff [OF within_valid [OF r(2)]] r0 by auto
      obtain e1 where e1: "rat_add_u256 N est 1 = Some e1" "rat_within (Suc 99) 67 e1" "rat_val e1 = rat_val est + 1"
        using within_add_one [OF N est(2), of 99] by auto
      obtain c where c: "rat_mul_u256 N e1 (ucast n) = Some c" "rat_within (Suc 99 + 11) 67 c"
          "rat_val c = rat_val e1 * rat_of_nat (unat n)"
        using within_mul_u256 [OF N e1(2) n'] by auto
      have "0 < rat_val e1" by (simp add: e1(3))
      then have "0 < rat_val c" using n(1) by (simp add: c(3))
      moreover have "rat_within 111 67 c" by (rule within_mono [OF c(2)]) simp_all
      ultimately show ?thesis using True r0 by (auto simp: diff_denominator_def steps est(1) e1(1) c(1))
    qed
  qed
qed

lemma next_epoch_diff_total:
  assumes N: "numext_ok N" and C: "params_small C" and h: "unat hash_rate < 2 ^ 156"
    and den: "rat_within 111 67 den" "0 < rat_val den"
  shows "\<exists>d. next_epoch_diff N C hash_rate den = Some d \<and> d \<noteq> 0"
proof -
  let ?t = "ucast (c_epoch_duration_target C) :: u256"
  have e: "unat ?t < 2 ^ 32" using C by (simp add: params_small_def)
  have m: "unat hash_rate * unat ?t < 2 ^ (156 + 32)" by (rule mult_less_pow [OF h e])
  have n: "nx_mul N hash_rate ?t = Some (hash_rate * ?t)" "unat (hash_rate * ?t) < 2 ^ 188"
    using nx_mul_exact [OF N, of hash_rate ?t] unat_mul256 [of hash_rate ?t] less_pow_mono [OF m, of 256] m
    by simp_all
  obtain num where num: "rat_new N (hash_rate * ?t) 1 = Some num" "rat_within 188 0 num"
    using within_new [OF N _ n(2), of 1 0] by auto
  have v: "rat_valid num" "rat_valid den" using num(2) den(1) by (simp_all add: rat_within_def)
  have "unat (r_numer num) * unat (r_denom den) < 2 ^ (188 + 67)"
    "unat (r_numer den) * unat (r_denom num) < 2 ^ (111 + 0)"
    using num(2) den(1) unfolding rat_within_def by (blast intro: mult_less_le_pow)+
  then have fits: "unat (r_numer num) * unat (r_denom den) < 2 ^ 256"
    "unat (r_numer den) * unat (r_denom num) < 2 ^ 256"
    by (auto elim: less_pow_mono)
  note gt = rat_cmp_Some [OF N v fits]
  show ?thesis
  proof (cases "rat_val den < rat_val num")
    case True
    obtain q where q: "rat_div N num den = Some q" "rat_valid q" "rat_val q = rat_val num / rat_val den"
      using within_div [OF N num(2) den(1)] den(2) by (auto simp: rat_within_def)
    obtain d where d: "into_u256 N q = Some d" "int (unat d) = \<lfloor>rat_val q\<rfloor>"
      using into_u256_Some [OF N q(2)] by blast
    have "1 \<le> rat_val q" using True den(2) by (simp add: q(3))
    then have "1 \<le> int (unat d)" by (simp add: d(2))
    then have "d \<noteq> 0" by auto
    then show ?thesis using True by (simp add: next_epoch_diff_def rat_gt_def n(1) num(1) gt q(1) d(1))
  next
    case False
    then show ?thesis by (auto simp: next_epoch_diff_def rat_gt_def n(1) num(1) gt)
  qed
qed

lemma bounding_hash_rate_total:
  assumes N: "numext_ok N" and r: "unat r < 2 ^ 156" and p: "unat p < 2 ^ 156"
  shows "\<exists>x. bounding_hash_rate N r p = Some x \<and> unat x < 2 ^ 156"
proof -
  have lo: "nx_div N p (ucast TAU) = Some (p div ucast TAU)" and two: "unat (ucast TAU :: u256) = 2"
    using nx_div_exact [OF N, of "ucast TAU :: u256" p] by (simp_all add: TAU_def)
  have up: "nx_mul N p (ucast TAU) = Some (p * ucast TAU)"
    using nx_mul_exact [OF N, of p "ucast TAU"] p by (simp add: two)
  have "unat (p div ucast TAU) \<le> unat p" by (simp add: unat_div two)
  then have "unat (p div ucast TAU) < 2 ^ 156" using p by (rule le_less_trans)
  then show ?thesis using r by (auto simp: bounding_hash_rate_def lo up word_less_nat_alt)
qed

lemma adjusted_hash_rate_total:
  assumes N: "numext_ok N" and d: "unat d < 2 ^ 140" and l: "unat l \<le> 1800" and u: "unat u < 2 ^ 12"
    and dur: "dur \<noteq> 0" and p: "unat p < 2 ^ 156"
  shows "\<exists>x. adjusted_hash_rate N d l u dur p = Ok x \<and> unat x < 2 ^ 156"
proof -
  have s: "unat l + unat u < 2 ^ 13" using l u by simp
  then have add: "p_add l u = (Ok (l + u) :: u64 result)" "unat (l + u) = unat l + unat u"
    by (simp_all add: p_add_eq_Ok unat_add_exact)
  have "unat d * (unat l + unat u) < 2 ^ (140 + 13)" by (rule mult_less_pow [OF d s])
  then have m: "unat d * unat (ucast (l + u) :: u256) < 2 ^ 153" by (simp add: add(2))
  then have w: "nx_mul N d (ucast (l + u)) = Some (d * ucast (l + u))" "unat (d * ucast (l + u)) < 2 ^ 153"
    using nx_mul_exact [OF N, of d "ucast (l + u)"] unat_mul256 [of d "ucast (l + u)"] less_pow_mono [OF m, of 256]
    by simp_all
  have "unat (d * ucast (l + u) div dur) < 2 ^ 156"
    using w(2) by (simp add: unat_div div_less_dividend le_less_trans [OF div_le_dividend])
  then obtain x where x: "bounding_hash_rate N (d * ucast (l + u) div dur) p = Some x" "unat x < 2 ^ 156"
    using bounding_hash_rate_total [OF N _ p] by blast
  have "unat (max x 1) < 2 ^ 156" using x(2) by (simp add: unat_max)
  then show ?thesis
    by (simp add: adjusted_hash_rate_def add(1) w(1) nx_div_exact [OF N dur] x(1))
qed

lemma difficulty_to_compact_total:
  assumes "numext_ok N" and "d \<noteq> 0"
  shows "\<exists>c. difficulty_to_compact N d = Some c"
  using difficulty_to_target_Some [OF assms] by (auto simp: difficulty_to_compact_def)

lemma epoch_duration:
  "unat (ucast (max (saturating_sub t (s :: u64) div MILLISECONDS_IN_A_SECOND) 1) :: u256) < 2 ^ 64"
  "(ucast (max (saturating_sub t (s :: u64) div MILLISECONDS_IN_A_SECOND) 1) :: u256) \<noteq> 0"
  using unat_bound [of "max (saturating_sub t s div MILLISECONDS_IN_A_SECOND) 1"]
  by (simp, auto simp: ucast_256_eq_0 max_def split: if_splits)

lemma next_epoch_ext_Some:
  assumes N: "numext_ok N" and C: "params_small C" and inv: "epoch_inv prev"
    and num: "unat (h_number h) + 1 = unat (ee_start_number prev) + unat (ee_length prev)"
      "unat (ee_start_number prev) + unat (ee_length prev) < 2 ^ 64" "unat (ee_number prev) + 1 < 2 ^ 64"
    and lh: "(if ee_is_genesis prev then Some (bv_header (c_genesis_block C))
              else gh (ee_last_block_hash_in_previous_epoch prev)) = Some lh"
    and tu: "tu (h_hash lh) = Some u0" "tu (h_hash h) = Some u1" "u0 \<le> u1" "unat u1 - unat u0 < 2 ^ 12"
    and d: "raw_header_difficulty N h = Some d" "unat d < 2 ^ 140"
    and rate: "unat (ee_previous_epoch_hash_rate prev) < 2 ^ 156"
    and reward: "primary_epoch_reward_of_next_epoch C prev = Ok reward"
  shows "\<exists>e. next_epoch_ext N C prev h gh tu = Ok (Some e)"
proof -
  let ?l = "ee_length prev" and ?u = "u1 - u0"
  let ?dur = "ucast (max (saturating_sub (h_timestamp h) (h_timestamp lh) div MILLISECONDS_IN_A_SECOND) 1) :: u256"
  have l: "300 \<le> unat ?l" "unat ?l \<le> 1800" using inv by (simp_all add: epoch_inv_def word_le_nat_alt)
  have u: "unat ?u < 2 ^ 12" using tu(3,4) by (simp add: unat_sub_exact)
  have last: "p_add (ee_start_number prev) ?l = (Ok (ee_start_number prev + ?l) :: u64 result)"
      "p_sub (ee_start_number prev + ?l) 1 = (Ok (h_number h) :: u64 result)"
    using num(1,2) by (auto simp: panic_simps unat_add_exact word_le_nat_alt)
  have incr: "p_add (ee_number prev) 1 = (Ok (ee_number prev + 1) :: u64 result)"
      "p_add (h_number h) 1 = (Ok (h_number h + 1) :: u64 result)"
      "p_sub u1 u0 = (Ok ?u :: u64 result)"
    using num tu(3) by (simp_all add: panic_simps unat_add_exact unat_sub_exact word_le_nat_alt)
  obtain rate' where r: "adjusted_hash_rate N d ?l ?u ?dur (ee_previous_epoch_hash_rate prev) = Ok rate'"
      "unat rate' < 2 ^ 156"
    using adjusted_hash_rate_total [OF N d(2) l(2) u epoch_duration(2) rate] by blast
  have l0: "(ucast ?l :: u256) \<noteq> 0" using l(1) by (auto simp: ucast_256_eq_0)
  obtain o' where o': "rat_new N (ucast ?u) (ucast ?l) = Some o'" "rat_within 12 11 o'"
      "rat_val o' = rat_of_nat (unat ?u) / rat_of_nat (unat ?l)"
    using within_new [OF N l0, of "ucast ?u" 12 11] u l(2) by auto
  have pos: "0 < rat_val o'" if "?u \<noteq> 0"
  proof -
    have "0 < unat ?u" using that by (simp only: unat_gt_0 not_False_eq_True)
    then show ?thesis using l(1) unfolding o'(3) by (intro divide_pos_pos) simp_all
  qed
  obtain n b where n: "next_epoch_length N C ?l ?u ?dur o' = Ok (n, b)"
    using next_epoch_length_total [OF N C l epoch_duration o'(2) pos] by blast
  have nb: "300 \<le> unat n" "unat n \<le> 1800" using next_epoch_length_bounds [OF n l] by simp_all
  obtain den where den: "diff_denominator N C b o' ?l ?dur n = Some den" "rat_within 111 67 den" "0 < rat_val den"
    using diff_denominator_total [OF N C l(2) nb epoch_duration o'(2)] by blast
  obtain diff where diff: "next_epoch_diff N C rate' den = Some diff" "diff \<noteq> 0"
    using next_epoch_diff_total [OF N C r(2) den(2,3)] by blast
  obtain c where c: "difficulty_to_compact N diff = Some c"
    using difficulty_to_compact_total [OF N diff(2)] by blast
  have n0: "n \<noteq> 0" using nb(1) by auto
  have div: "p_div reward n = (Ok (reward div n) :: u64 result)" "p_mod reward n = (Ok (reward mod n) :: u64 result)"
    using n0 by (simp_all add: panic_simps unat_div unat_mod)
  show ?thesis
    by (cases "permanent_difficulty C")
      (simp_all add: next_epoch_ext_def Let_def last incr lh tu(1,2) d(1) r(1) o'(1) n den(1) diff(1) c reward div)
qed

section \<open>An example\<close>

definition example_epoch_end :: header_view where
  "example_epoch_end =
     header_view_of (example_header\<lparr>h_number := 999, h_timestamp := 14400000\<rparr>) (replicate 32 1)"

definition example_uncles :: "byte32 \<Rightarrow> u64 option" where
  "example_uncles h = Some (if h = byte32_zero then 0 else 25)"

lemma example_params: "params_small example_consensus"
  by (simp add: params_small_def example_consensus_def rat_within_def rat_valid_def)

lemma example_epoch_inv: "epoch_inv example_last_epoch"
  by (simp add: epoch_inv_def example_last_epoch_def epoch_consts)

lemma example_target: "compact_to_target numext_word 0x20010000 = (2 ^ 248, False)"
  by (simp add: compact_to_target_def numext_word_def Let_def push_bit_eq_mult)

lemma example_difficulty: "\<exists>d. raw_header_difficulty numext_word example_epoch_end = Some d \<and> unat d < 2 ^ 140"
  using target_to_difficulty_Some [OF numext_word_ok, of "2 ^ 248"]
  by (auto simp: raw_header_difficulty_def example_epoch_end_def example_header_def compact_to_difficulty_def
      example_target)

lemma example_reward: "primary_epoch_reward_of_next_epoch example_consensus example_last_epoch = Ok 191780821917808"
  by (simp add: primary_epoch_reward_of_next_epoch_def example_consensus_def example_last_epoch_def
      ee_primary_reward_def p_ops_defs checked_add_def checked_mul_def checked_rem_def)

lemma example_hashes: "h_hash example_epoch_end \<noteq> byte32_zero"
  by (simp add: example_epoch_end_def byte32_zero_def)

lemmas example_defs = example_epoch_end_def example_last_epoch_def example_uncles_def example_header_def
  ee_is_genesis_def example_consensus_def example_genesis_def bv_header_def block.defs

section \<open>Properties\<close>

text \<open>
  C16. The epoch after a completed epoch is always computed: within bounds on the difficulty,
  the hash rate, the number of uncles and the parameters, no operation of \<open>next_epoch_ext\<close>
  overflows or divides by zero, and the result is an epoch.
\<close>

theorem next_epoch_ext_total:
  assumes N: "numext_ok N" and C: "params_small C" and inv: "epoch_inv prev"
    and num: "unat (h_number h) + 1 = unat (ee_start_number prev) + unat (ee_length prev)"
      "unat (ee_start_number prev) + unat (ee_length prev) < 2 ^ 64" "unat (ee_number prev) + 1 < 2 ^ 64"
    and lh: "(if ee_is_genesis prev then Some (bv_header (c_genesis_block C))
              else gh (ee_last_block_hash_in_previous_epoch prev)) = Some lh"
    and tu: "tu (h_hash lh) = Some u0" "tu (h_hash h) = Some u1" "u0 \<le> u1" "unat u1 - unat u0 < 2 ^ 12"
    and d: "raw_header_difficulty N h = Some d" "unat d < 2 ^ 140"
    and rate: "unat (ee_previous_epoch_hash_rate prev) < 2 ^ 156"
    and reward: "primary_epoch_reward_of_next_epoch C prev = Ok reward"
  shows "\<exists>e. next_epoch_ext N C prev h gh tu = Ok (Some e)"
  using assms by (rule next_epoch_ext_Some)

theorem next_epoch_ext_total_witness:
  "\<exists>e. next_epoch_ext numext_word example_consensus example_last_epoch example_epoch_end
     (\<lambda>_. None) example_uncles = Ok (Some e)"
proof -
  obtain d where d: "raw_header_difficulty numext_word example_epoch_end = Some d" "unat d < 2 ^ 140"
    using example_difficulty by blast
  show ?thesis
    by (rule next_epoch_ext_total [OF numext_word_ok example_params example_epoch_inv _ _ _ _ _ _ _ _ d _ example_reward,
          where lh = "bv_header example_genesis" and ?u0.0 = 0 and ?u1.0 = 25])
      (use example_hashes in \<open>simp_all add: example_defs\<close>)
qed

text \<open>
  C15. An epoch computed from an epoch that satisfies the invariant satisfies it again. It
  starts at the block after the header it was computed from, which is exactly where the
  previous epoch ends; its number is the successor; its length stays within a factor of two;
  and, unless the difficulty is permanent, its base reward and remainder make up exactly the
  primary reward of the next epoch.
\<close>

theorem next_epoch_ext_preserves:
  assumes ok: "next_epoch_ext N C prev h gh tu = Ok (Some e)" and inv: "epoch_inv prev"
  shows "epoch_inv e \<and> unat (ee_number e) = unat (ee_number prev) + 1 \<and>
     unat (ee_start_number e) = unat (ee_start_number prev) + unat (ee_length prev) \<and>
     unat (ee_start_number e) = unat (h_number h) + 1 \<and>
     unat (ee_length prev) div 2 \<le> unat (ee_length e) \<and> unat (ee_length e) \<le> unat (ee_length prev) * 2 \<and>
     (\<not> permanent_difficulty C \<longrightarrow> (\<exists>reward. primary_epoch_reward_of_next_epoch C prev = Ok reward \<and>
        unat reward = unat (ee_base_block_reward e) * unat (ee_length e) + unat (ee_remainder_reward e)))"
proof (cases "permanent_difficulty C")
  case True
  then show ?thesis
    using ok inv
    by (auto simp: next_epoch_ext_def Let_def tryq_eq_Ok panic_simps epoch_inv_def split: if_splits)
next
  case False
  have l: "300 \<le> unat (ee_length prev)" "unat (ee_length prev) \<le> 1800"
    using inv by (simp_all add: epoch_inv_def word_le_nat_alt)
  obtain u d o' b reward where p:
      "unat (h_number h) + 1 = unat (ee_start_number prev) + unat (ee_length prev)"
      "next_epoch_length N C (ee_length prev) u d o' = Ok (ee_length e, b)"
      "primary_epoch_reward_of_next_epoch C prev = Ok reward"
      "p_div reward (ee_length e) = (Ok (ee_base_block_reward e) :: capacity result)"
      "p_mod reward (ee_length e) = (Ok (ee_remainder_reward e) :: capacity result)"
      "unat (ee_number e) = unat (ee_number prev) + 1"
      "unat (ee_start_number e) = unat (h_number h) + 1"
    using next_epoch_ext_parts [OF ok False] by blast
  have len: "300 \<le> unat (ee_length e) \<and> unat (ee_length e) \<le> 1800 \<and>
      unat (ee_length prev) div 2 \<le> unat (ee_length e) \<and> unat (ee_length e) \<le> unat (ee_length prev) * 2"
    by (rule next_epoch_length_bounds [OF p(2) l])
  have "unat (ee_base_block_reward e) = unat reward div unat (ee_length e)"
    "unat (ee_remainder_reward e) = unat reward mod unat (ee_length e)"
    using p(4,5) by (simp_all add: panic_simps)
  then have "unat (ee_remainder_reward e) < unat (ee_length e)"
    "unat reward = unat (ee_base_block_reward e) * unat (ee_length e) + unat (ee_remainder_reward e)"
    using len by simp_all
  then show ?thesis using p len by (auto simp: epoch_inv_def word_le_nat_alt word_less_nat_alt)
qed

theorem next_epoch_ext_preserves_witness:
  "\<exists>e. next_epoch_ext numext_word example_consensus example_last_epoch example_epoch_end
      (\<lambda>_. None) example_uncles = Ok (Some e) \<and> epoch_inv e \<and> unat (ee_number e) = 1 \<and>
      unat (ee_start_number e) = 1000"
proof -
  obtain d where d: "raw_header_difficulty numext_word example_epoch_end = Some d" "unat d < 2 ^ 140"
    using example_difficulty by blast
  obtain e where e: "next_epoch_ext numext_word example_consensus example_last_epoch example_epoch_end
      (\<lambda>_. None) example_uncles = Ok (Some e)"
    using next_epoch_ext_Some [OF numext_word_ok example_params example_epoch_inv _ _ _ _ _ _ _ _ d _ example_reward,
        where lh = "bv_header example_genesis" and ?u0.0 = 0 and ?u1.0 = 25 and gh = "\<lambda>_. None" and
          tu = example_uncles] example_hashes
    by (auto simp: example_defs)
  show ?thesis
    using next_epoch_ext_preserves [OF e example_epoch_inv] e by (auto simp: example_last_epoch_def)
qed

end
