(* ===== verification/Cell.thy ===== *)
theory Cell
  imports Ckb_Errors Epoch Hashing
begin

text \<open>
  Cells and the resolution of transactions (\<open>util/types/src/core/cell.rs\<close>, with
  \<open>TransactionInfo\<close> of \<open>core/extras.rs\<close>). A cell provider maps an out point to the status of
  its cell; its outcome is a panic where the provider's \<open>expect\<close> fails. The closure
  \<open>resolve_cell\<close> collects unknown out points in a captured vector, so a resolver here passes
  that state along. The global \<open>SYSTEM_CELL\<close> is an argument of the functions that read it.
\<close>

section \<open>Cell metadata\<close>

record transaction_info =
  ti_block_hash :: byte32
  ti_block_number :: u64
  ti_block_epoch :: epoch_fraction
  ti_index :: nat

definition ti_is_cellbase :: "transaction_info \<Rightarrow> bool" where
  "ti_is_cellbase i \<longleftrightarrow> ti_index i = 0"

definition ti_is_genesis :: "transaction_info \<Rightarrow> bool" where
  "ti_is_genesis i \<longleftrightarrow> ti_block_number i = 0"

record cell_meta =
  cm_cell_output :: cell_output
  cm_out_point :: out_point
  cm_transaction_info :: "transaction_info option"
  cm_data_bytes :: u64
  cm_mem_cell_data :: "(bytes \<times> byte32) option"

definition cm_is_cellbase :: "cell_meta \<Rightarrow> bool" where
  "cm_is_cellbase m \<longleftrightarrow> (case cm_transaction_info m of None \<Rightarrow> False | Some i \<Rightarrow> ti_is_cellbase i)"

definition cm_capacity :: "cell_meta \<Rightarrow> capacity" where
  "cm_capacity m = co_capacity (cm_cell_output m)"

definition cm_occupied_capacity :: "cell_meta \<Rightarrow> capacity capacity_result" where
  "cm_occupied_capacity m =
     tryq (capacity_bytes (unat (cm_data_bytes m))) (cell_occupied_capacity (cm_cell_output m))"

definition cm_is_lack_of_capacity :: "cell_meta \<Rightarrow> bool capacity_result" where
  "cm_is_lack_of_capacity m =
     tryq (capacity_bytes (unat (cm_data_bytes m))) (is_lack_of_capacity (cm_cell_output m))"

text \<open>\<open>CellMetaBuilder::from_cell_output(..).build()\<close>: the out point keeps its default value.\<close>

definition cell_meta_from_output :: "'z ext_scheme \<Rightarrow> cell_output \<Rightarrow> bytes \<Rightarrow> cell_meta" where
  "cell_meta_from_output X out d =
     \<lparr>cm_cell_output = out, cm_out_point = \<lparr>op_tx_hash = byte32_zero, op_index = 0\<rparr>,
      cm_transaction_info = None, cm_data_bytes = of_nat (length d),
      cm_mem_cell_data = Some (d, calc_data_hash X d)\<rparr>"

datatype cell_status = Live cell_meta | DeadCell | UnknownCell

type_synonym cell_provider = "out_point \<Rightarrow> bool \<Rightarrow> cell_status result"
type_synonym header_checker = "byte32 \<Rightarrow> unit result"

record resolved_transaction =
  rtx_transaction :: transaction_view
  rtx_cell_deps :: "cell_meta list"
  rtx_inputs :: "cell_meta list"
  rtx_dep_groups :: "cell_meta list"

definition rtx_is_cellbase :: "resolved_transaction \<Rightarrow> bool" where
  "rtx_is_cellbase r \<longleftrightarrow> rtx_inputs r = []"

definition rtx_inputs_capacity :: "resolved_transaction \<Rightarrow> capacity capacity_result" where
  "rtx_inputs_capacity r = try_fold safe_add 0 (map cm_capacity (rtx_inputs r))"

definition rtx_outputs_capacity :: "resolved_transaction \<Rightarrow> capacity capacity_result" where
  "rtx_outputs_capacity r = outputs_capacity (rtx_transaction r)"

definition related_dep_out_points :: "resolved_transaction \<Rightarrow> out_point list" where
  "related_dep_out_points r = map cm_out_point (rtx_cell_deps r) @ map cm_out_point (rtx_dep_groups r)"

section \<open>Providers\<close>

definition overlay_cell :: "cell_provider \<Rightarrow> cell_provider \<Rightarrow> cell_provider" where
  "overlay_cell overlay provider p with_data =
     tryq (overlay p with_data) (\<lambda>st.
       case st of
         Live m \<Rightarrow> Ok (Live m)
       | DeadCell \<Rightarrow> Ok DeadCell
       | UnknownCell \<Rightarrow> provider p with_data)"

definition bv_transaction :: "block_view \<Rightarrow> nat \<Rightarrow> transaction_view option result" where
  "bv_transaction b i =
     (case vec_get (b_transactions b) i of
        None \<Rightarrow> Ok None
      | Some d \<Rightarrow>
          tryq (expect (vec_get (bv_tx_hashes b) i)) (\<lambda>h.
          tryq (expect (vec_get (bv_tx_witness_hashes b) i)) (\<lambda>w.
          Ok (Some (tx_view d h w)))))"

definition bv_output :: "block_view \<Rightarrow> nat \<Rightarrow> nat \<Rightarrow> cell_output option" where
  "bv_output b tx_index i =
     Option.bind (vec_get (b_transactions b) tx_index) (\<lambda>tx. vec_get (tx_outputs tx) i)"

text \<open>
  \<open>HashMap::collect\<close> of the pairs (hash, position): a later pair replaces an earlier one.
\<close>

definition output_indices :: "block_view \<Rightarrow> byte32 \<Rightarrow> nat option" where
  "output_indices b = map_of (rev (map (\<lambda>(i, tx). (tx_hash tx, i)) (enumerate 0 (bv_transactions b))))"

definition check_order :: "(byte32 \<Rightarrow> nat option) \<Rightarrow> nat \<Rightarrow> out_point \<Rightarrow> unit result" where
  "check_order indices idx p =
     (case indices (op_tx_hash p) of
        None \<Rightarrow> Ok ()
      | Some output_idx \<Rightarrow> if idx \<le> output_idx then Err (OutPoint (OutOfOrder p)) else Ok ())"

definition block_cell_provider_new :: "block_view \<Rightarrow> (byte32 \<Rightarrow> nat option) result" where
  "block_cell_provider_new b =
     (let indices = output_indices b in
      tryq (try_for_each (\<lambda>(idx, tx).
          tryq (try_for_each (\<lambda>d. check_order indices idx (cd_out_point d)) (tx_cell_deps tx)) (\<lambda>_.
          try_for_each (check_order indices idx) (input_pts tx)))
        (enumerate 0 (bv_transactions b))) (\<lambda>_. Ok indices))"

definition block_cell :: "'z ext_scheme \<Rightarrow> block_view \<Rightarrow> (byte32 \<Rightarrow> nat option) \<Rightarrow> cell_provider" where
  "block_cell X b indices p with_data =
     (case indices (op_tx_hash p) of
        None \<Rightarrow> Ok UnknownCell
      | Some i \<Rightarrow>
          tryq (tryq (bv_transaction b i) expect) (\<lambda>tx.
          let j = unat (op_index p) in
          case bv_output b i j of
            None \<Rightarrow> Ok UnknownCell
          | Some out \<Rightarrow>
              tryq (expect (vec_get (tx_outputs_data tx) j)) (\<lambda>d.
              let hd = bv_header b in
              Ok (Live \<lparr>cm_cell_output = out, cm_out_point = p,
                    cm_transaction_info = Some \<lparr>ti_block_hash = bv_hash b, ti_block_number = h_number hd,
                      ti_block_epoch = ef_from_full_value (h_epoch hd), ti_index = i\<rparr>,
                    cm_data_bytes = of_nat (length d),
                    cm_mem_cell_data = Some (d, calc_data_hash X d)\<rparr>))))"

type_synonym transactions_provider = "byte32 \<Rightarrow> transaction_view option"

definition transactions_provider_new :: "transaction_view list \<Rightarrow> transactions_provider" where
  "transactions_provider_new txs = map_of (rev (map (\<lambda>tx. (tx_hash tx, tx)) txs))"

definition transactions_provider_insert ::
  "transactions_provider \<Rightarrow> transaction_view \<Rightarrow> transactions_provider" where
  "transactions_provider_insert m tx = m(tx_hash tx \<mapsto> tx)"

definition transactions_cell :: "'z ext_scheme \<Rightarrow> transactions_provider \<Rightarrow> cell_provider" where
  "transactions_cell X m p with_data =
     (case m (op_tx_hash p) of
        None \<Rightarrow> Ok UnknownCell
      | Some tx \<Rightarrow>
          (case vec_get (tx_outputs tx) (unat (op_index p)) of
             None \<Rightarrow> Ok UnknownCell
           | Some out \<Rightarrow>
               tryq (expect (vec_get (tx_outputs_data tx) (unat (op_index p)))) (\<lambda>d.
               Ok (Live (cell_meta_from_output X out d)))))"

section \<open>Dependency groups\<close>

datatype dep_group_error = DataIsEmpty | DepGroupIsEmpty | DepGroupMalformed verification_error

definition parse_dep_group_data :: "'z ext_scheme \<Rightarrow> bytes \<Rightarrow> (out_point list, dep_group_error) outcome" where
  "parse_dep_group_data X sl =
     (if sl = [] then Err DataIsEmpty
      else tryq (map_err DepGroupMalformed (from_slice (out_point_vec_verify X) (out_point_vec_read X) sl)) (\<lambda>v.
        if v = [] then Err DepGroupIsEmpty else Ok v))"

datatype related_deps_error = CanNotGetCellData | InvalidData dep_group_error

definition DepGroup :: u8 where "DepGroup = 1"

definition get_related_dep_out_points ::
  "'z ext_scheme \<Rightarrow> transaction_view \<Rightarrow> (out_point \<Rightarrow> bytes option) \<Rightarrow> (out_point list, related_deps_error) outcome" where
  "get_related_dep_out_points X tx get_cell_data =
     try_fold (\<lambda>out_points dep.
       let p = cd_out_point dep in
       tryq (if cd_dep_type dep = DepGroup then
               tryq (ok_or CanNotGetCellData (get_cell_data p)) (\<lambda>d.
               tryq (map_err InvalidData (parse_dep_group_data X d)) (\<lambda>subs. Ok (out_points @ subs)))
             else Ok out_points) (\<lambda>out_points. Ok (out_points @ [p])))
       [] (tx_cell_deps tx)"

text \<open>A resolver with a state of type \<open>'s\<close> (the captured variables of the closure).\<close>

type_synonym 's cell_resolver = "'s \<Rightarrow> out_point \<Rightarrow> bool \<Rightarrow> (cell_meta option \<times> 's) result"

definition resolve_dep_group ::
  "'z ext_scheme \<Rightarrow> 's cell_resolver \<Rightarrow> 's \<Rightarrow> out_point \<Rightarrow>
   ((cell_meta \<times> cell_meta list) option \<times> 's) result" where
  "resolve_dep_group X resolver s p =
     tryq (resolver s p True) (\<lambda>(m, s).
       case m of
         None \<Rightarrow> Ok (None, s)
       | Some dep_group_cell \<Rightarrow>
           tryq (expect (cm_mem_cell_data dep_group_cell)) (\<lambda>(d, _).
           tryq (map_err (\<lambda>_. OutPoint (InvalidDepGroup p)) (parse_dep_group_data X d)) (\<lambda>subs.
           tryq (try_fold (\<lambda>(deps, s) sub.
                   tryq (resolver s sub True) (\<lambda>(m, s).
                   Ok (case m of None \<Rightarrow> deps | Some c \<Rightarrow> deps @ [c], s))) ([], s) subs) (\<lambda>(deps, s).
           Ok (Some (dep_group_cell, deps), s)))))"

section \<open>Resolution\<close>

datatype resolved_dep = RCell cell_meta | RGroup cell_meta "cell_meta list"

type_synonym system_cells = "(cell_dep \<Rightarrow> resolved_dep option) option"

text \<open>The two vectors of resolved dependencies and the state of the resolver.\<close>

type_synonym 's deps_state = "cell_meta list \<times> cell_meta list \<times> 's"

definition resolve_transaction_dep ::
  "'z ext_scheme \<Rightarrow> 's cell_resolver \<Rightarrow> 's deps_state \<Rightarrow> cell_dep \<Rightarrow> 's deps_state result" where
  "resolve_transaction_dep X resolver st dep =
     (case st of (cell_deps, dep_groups, s) \<Rightarrow>
      if cd_dep_type dep = DepGroup then
        tryq (resolve_dep_group X resolver s (cd_out_point dep)) (\<lambda>(r, s).
          case r of
            Some (dep_group, deps) \<Rightarrow> Ok (cell_deps @ deps, dep_groups @ [dep_group], s)
          | None \<Rightarrow> Ok (cell_deps, dep_groups, s))
      else
        tryq (resolver s (cd_out_point dep) True) (\<lambda>(m, s).
          case m of
            Some c \<Rightarrow> Ok (cell_deps @ [c], dep_groups, s)
          | None \<Rightarrow> Ok (cell_deps, dep_groups, s)))"

definition resolve_deps_with_system_cell_cache ::
  "'z ext_scheme \<Rightarrow> system_cells \<Rightarrow> 's cell_resolver \<Rightarrow> 's deps_state \<Rightarrow> cell_dep list \<Rightarrow> 's deps_state result" where
  "resolve_deps_with_system_cell_cache X system_cell resolver =
     try_fold (\<lambda>st dep.
       case system_cell of
         None \<Rightarrow> resolve_transaction_dep X resolver st dep
       | Some cache \<Rightarrow>
           (case cache dep of
              Some (RCell c) \<Rightarrow> (case st of (cds, dgs, s) \<Rightarrow> Ok (cds @ [c], dgs, s))
            | Some (RGroup g deps) \<Rightarrow> (case st of (cds, dgs, s) \<Rightarrow> Ok (cds @ deps, dgs @ [g], s))
            | None \<Rightarrow> resolve_transaction_dep X resolver st dep))"

definition resolve_cell :: "out_point set \<Rightarrow> cell_provider \<Rightarrow> out_point list cell_resolver" where
  "resolve_cell seen_inputs cell_provider unknown p with_data =
     (if p \<in> seen_inputs then Err (OutPoint (Dead p))
      else tryq (cell_provider p with_data) (\<lambda>st.
        case st of
          DeadCell \<Rightarrow> Err (OutPoint (Dead p))
        | UnknownCell \<Rightarrow> Ok (None, unknown @ [p])
        | Live m \<Rightarrow> Ok (Some m, unknown)))"

text \<open>The loop over the inputs: the set \<open>current_inputs\<close>, the resolved inputs, the unknown points.\<close>

definition resolve_inputs ::
  "out_point set \<Rightarrow> cell_provider \<Rightarrow> out_point list \<Rightarrow>
   (out_point set \<times> cell_meta list \<times> out_point list) result" where
  "resolve_inputs seen_inputs cell_provider =
     try_fold (\<lambda>(current, inputs, unknown) p.
       if p \<in> current then Err (OutPoint (Dead p))
       else tryq (resolve_cell seen_inputs cell_provider unknown p False) (\<lambda>(m, unknown).
         Ok (insert p current, case m of None \<Rightarrow> inputs | Some c \<Rightarrow> inputs @ [c], unknown)))
       ({}, [], [])"

definition resolve_transaction ::
  "'z ext_scheme \<Rightarrow> system_cells \<Rightarrow> transaction_view \<Rightarrow> out_point set \<Rightarrow> cell_provider \<Rightarrow> header_checker \<Rightarrow>
   (resolved_transaction \<times> out_point set) result" where
  "resolve_transaction X system_cell tx seen_inputs cell_provider check_valid =
     tryq (if tx_is_cellbase tx then Ok ({}, [], [])
           else resolve_inputs seen_inputs cell_provider (input_pts tx)) (\<lambda>(current, inputs, unknown).
     tryq (resolve_deps_with_system_cell_cache X system_cell (resolve_cell seen_inputs cell_provider)
             ([], [], unknown) (tx_cell_deps tx)) (\<lambda>(cell_deps, dep_groups, unknown).
     tryq (try_for_each check_valid (tx_header_deps tx)) (\<lambda>_.
     if unknown \<noteq> [] then Err (OutPoint (Unknown unknown))
     else Ok (\<lparr>rtx_transaction = tx, rtx_cell_deps = cell_deps, rtx_inputs = inputs,
               rtx_dep_groups = dep_groups\<rparr>, seen_inputs \<union> current))))"

text \<open>
  The resolution of the transactions of a block, in order and with one set of seen inputs, as
  \<open>reconcile_main_chain\<close> of \<open>chain/src/chain.rs\<close> does it.
\<close>

fun resolve_transactions ::
  "'z ext_scheme \<Rightarrow> system_cells \<Rightarrow> cell_provider \<Rightarrow> header_checker \<Rightarrow> out_point set \<Rightarrow> transaction_view list \<Rightarrow>
   (resolved_transaction list \<times> out_point set) result" where
  "resolve_transactions X system_cell cp hc seen [] = Ok ([], seen)"
| "resolve_transactions X system_cell cp hc seen (tx # txs) =
     tryq (resolve_transaction X system_cell tx seen cp hc) (\<lambda>(r, seen).
     tryq (resolve_transactions X system_cell cp hc seen txs) (\<lambda>(rs, seen). Ok (r # rs, seen)))"

definition resolve_block ::
  "'z ext_scheme \<Rightarrow> system_cells \<Rightarrow> cell_provider \<Rightarrow> header_checker \<Rightarrow> block_view \<Rightarrow> resolved_transaction list result" where
  "resolve_block X system_cell cp hc b =
     tryq (block_cell_provider_new b) (\<lambda>indices.
     tryq (resolve_transactions X system_cell (overlay_cell (block_cell X b indices) cp) hc {} (bv_transactions b))
       (\<lambda>(rs, _). Ok rs))"

section \<open>The system cell cache\<close>

definition build_cell_meta_from_out_point :: "cell_provider \<Rightarrow> unit cell_resolver" where
  "build_cell_meta_from_out_point cell_provider s p with_data =
     tryq (cell_provider p with_data) (\<lambda>st.
       case st of
         DeadCell \<Rightarrow> Err (OutPoint (Dead p))
       | UnknownCell \<Rightarrow> Ok (None, s)
       | Live m \<Rightarrow> Ok (Some m, s))"

text \<open>\<open>.expect(..).expect(..)\<close> on a \<open>Result\<close> of an \<open>Option\<close>.\<close>

definition expect_some :: "('a option \<times> unit) result \<Rightarrow> 'a result" where
  "expect_some r = (case r of Ok (Some x, _) \<Rightarrow> Ok x | _ \<Rightarrow> Panic)"

definition code_dep :: "transaction_view \<Rightarrow> u32 \<Rightarrow> cell_dep" where
  "code_dep tx i = \<lparr>cd_out_point = out_point_new (tx_hash tx) i, cd_dep_type = 0\<rparr>"

definition group_dep :: "transaction_view \<Rightarrow> u32 \<Rightarrow> cell_dep" where
  "group_dep tx i = \<lparr>cd_out_point = out_point_new (tx_hash tx) i, cd_dep_type = DepGroup\<rparr>"

definition setup_system_cell_cache ::
  "'z ext_scheme \<Rightarrow> system_cells \<Rightarrow> block_view \<Rightarrow> cell_provider \<Rightarrow> system_cells result" where
  "setup_system_cell_cache X system_cell genesis cell_provider =
     tryq (expect (vec_get (bv_transactions genesis) 0)) (\<lambda>sys_tx.
     tryq (expect (vec_get (bv_transactions genesis) 1)) (\<lambda>secp_tx.
     let resolve = build_cell_meta_from_out_point cell_provider;
         cell = (\<lambda>d. expect_some (resolve () (cd_out_point d) True));
         group = (\<lambda>d. expect_some (resolve_dep_group X resolve () (cd_out_point d)))
     in
     tryq (cell (code_dep sys_tx 1)) (\<lambda>secp_code_cell.
     tryq (cell (code_dep sys_tx 2)) (\<lambda>dao_cell.
     tryq (cell (code_dep sys_tx 3)) (\<lambda>secp_data_cell.
     tryq (group (group_dep secp_tx 0)) (\<lambda>secp_group.
     tryq (group (group_dep secp_tx 1)) (\<lambda>multi_sign_group.
     if system_cell \<noteq> None then Panic
     else Ok (Some (Map.empty(code_dep sys_tx 1 \<mapsto> RCell secp_code_cell,
       code_dep sys_tx 2 \<mapsto> RCell dao_cell, code_dep sys_tx 3 \<mapsto> RCell secp_data_cell,
       group_dep secp_tx 0 \<mapsto> RGroup (fst secp_group) (snd secp_group),
       group_dep secp_tx 1 \<mapsto> RGroup (fst multi_sign_group) (snd multi_sign_group)))))))))))"

section \<open>Resolved inputs\<close>

definition spent_pts :: "transaction_view \<Rightarrow> out_point list" where
  "spent_pts tx = (if tx_is_cellbase tx then [] else input_pts tx)"

lemma resolve_cell_Ok:
  "resolve_cell seen cp unk p w = Ok (m, unk') \<Longrightarrow>
     p \<notin> seen \<and> (case m of Some c \<Rightarrow> cp p w = Ok (Live c) \<and> unk' = unk
                | None \<Rightarrow> cp p w = Ok UnknownCell \<and> unk' = unk @ [p])"
  unfolding resolve_cell_def
  by (cases "cp p w") (auto split: if_splits cell_status.splits)

lemma resolve_inputs_fold:
  assumes "try_fold (\<lambda>(current, inputs, unknown) p.
       if p \<in> current then Err (OutPoint (Dead p))
       else tryq (resolve_cell seen cp unknown p False) (\<lambda>(m, unknown).
         Ok (insert p current, case m of None \<Rightarrow> inputs | Some c \<Rightarrow> inputs @ [c], unknown)))
       (cur0, ins0, unk0) ps = (Ok (cur, ins, unk) :: (_, ckb_error) outcome)"
  shows "distinct ps \<and> set ps \<inter> cur0 = {} \<and> set ps \<inter> seen = {} \<and> cur = cur0 \<union> set ps \<and>
     (unk = [] \<longrightarrow> unk0 = [] \<and> (\<exists>ms. ins = ins0 @ ms \<and> list_all2 (\<lambda>p m. cp p False = Ok (Live m)) ps ms))"
  using assms
proof (induction ps arbitrary: cur0 ins0 unk0)
  case Nil
  then show ?case by simp
next
  case (Cons p ps)
  obtain m unk1 where p: "p \<notin> cur0" and m: "resolve_cell seen cp unk0 p False = Ok (m, unk1)"
    and rest: "try_fold (\<lambda>(current, inputs, unknown) p.
       if p \<in> current then Err (OutPoint (Dead p))
       else tryq (resolve_cell seen cp unknown p False) (\<lambda>(m, unknown).
         Ok (insert p current, case m of None \<Rightarrow> inputs | Some c \<Rightarrow> inputs @ [c], unknown)))
       (insert p cur0, case m of None \<Rightarrow> ins0 | Some c \<Rightarrow> ins0 @ [c], unk1) ps = Ok (cur, ins, unk)"
    using Cons.prems by (auto simp: tryq_eq_Ok split: if_splits)
  note ih = Cons.IH [OF rest] and c = resolve_cell_Ok [OF m]
  show ?case
  proof (cases m)
    case None
    then show ?thesis using ih c p by auto
  next
    case (Some a)
    then show ?thesis using ih c p by (auto simp: list_all2_Cons1)
  qed
qed

text \<open>The list of unknown points only grows, so an empty list at the end was empty throughout.\<close>

lemma try_fold_grows:
  assumes step: "\<And>s x s'. f s x = Ok s' \<Longrightarrow> \<exists>t. g s' = g s @ t"
    and "try_fold f s xs = Ok s'"
  shows "\<exists>t. g s' = g s @ t"
  using assms(2)
proof (induction xs arbitrary: s)
  case Nil
  then show ?case by simp
next
  case (Cons x xs)
  obtain s1 where s1: "f s x = Ok s1" "try_fold f s1 xs = Ok s'" using Cons.prems by (auto simp: tryq_eq_Ok)
  obtain t where "g s1 = g s @ t" using step [OF s1(1)] by blast
  moreover obtain t' where "g s' = g s1 @ t'" using Cons.IH [OF s1(2)] by blast
  ultimately show ?case by simp
qed

lemma resolve_cell_grows: "resolve_cell seen cp unk p w = Ok (m, unk') \<Longrightarrow> \<exists>t. unk' = unk @ t"
  by (drule resolve_cell_Ok) (auto split: option.splits)

lemma resolve_dep_group_grows:
  assumes "resolve_dep_group X (resolve_cell seen cp) unk p = Ok (r, unk')"
  shows "\<exists>t. unk' = unk @ t"
proof -
  obtain m unk1 where m: "resolve_cell seen cp unk p True = Ok (m, unk1)"
    using assms by (auto simp: resolve_dep_group_def tryq_eq_Ok)
  obtain t where t: "unk1 = unk @ t" using resolve_cell_grows [OF m] by blast
  show ?thesis
  proof (cases m)
    case None
    then show ?thesis using assms m t by (auto simp: resolve_dep_group_def)
  next
    case (Some c)
    then obtain d h subs deps where fold: "try_fold (\<lambda>(deps, s) sub.
                   tryq (resolve_cell seen cp s sub True) (\<lambda>(m, s).
                   Ok (case m of None \<Rightarrow> deps | Some c \<Rightarrow> deps @ [c], s))) ([], unk1) subs = Ok (deps, unk')"
      using assms m by (auto simp: resolve_dep_group_def tryq_eq_Ok)
    have "\<exists>t. snd (deps, unk') = snd ([] :: cell_meta list, unk1) @ t"
      by (rule try_fold_grows [OF _ fold]) (auto simp: tryq_eq_Ok dest!: resolve_cell_grows)
    then show ?thesis using t by auto
  qed
qed

lemma resolve_transaction_dep_grows:
  "resolve_transaction_dep X (resolve_cell seen cp) st d = Ok st' \<Longrightarrow> \<exists>t. snd (snd st') = snd (snd st) @ t"
  by (auto simp: resolve_transaction_dep_def tryq_eq_Ok split: prod.splits if_splits option.splits
      dest!: resolve_cell_grows resolve_dep_group_grows)

lemma resolve_deps_grows:
  assumes "resolve_deps_with_system_cell_cache X sys (resolve_cell seen cp) st ds = Ok st'"
  shows "\<exists>t. snd (snd st') = snd (snd st) @ t"
  using assms unfolding resolve_deps_with_system_cell_cache_def
  by (rule try_fold_grows [rotated])
    (auto split: option.splits resolved_dep.splits dest: resolve_transaction_dep_grows)

lemma resolve_transaction_Ok:
  assumes "resolve_transaction X sys tx seen cp hc = Ok (r, seen')"
  shows "rtx_transaction r = tx \<and> distinct (spent_pts tx) \<and> set (spent_pts tx) \<inter> seen = {} \<and>
     seen' = seen \<union> set (spent_pts tx) \<and>
     list_all2 (\<lambda>p m. cp p False = Ok (Live m)) (spent_pts tx) (rtx_inputs r) \<and>
     (\<forall>h\<in>set (tx_header_deps tx). hc h = Ok ())"
proof -
  obtain cur ins unk cds dgs unk' where
      a: "(if tx_is_cellbase tx then Ok ({}, [], []) else resolve_inputs seen cp (input_pts tx)) = Ok (cur, ins, unk)"
    and b: "resolve_deps_with_system_cell_cache X sys (resolve_cell seen cp) ([], [], unk) (tx_cell_deps tx) =
        Ok (cds, dgs, unk')"
    and c: "try_for_each hc (tx_header_deps tx) = Ok ()" "unk' = []"
      "r = \<lparr>rtx_transaction = tx, rtx_cell_deps = cds, rtx_inputs = ins, rtx_dep_groups = dgs\<rparr>"
      "seen' = seen \<union> cur"
    using assms unfolding resolve_transaction_def by (auto simp: tryq_eq_Ok if_Err_eq_Ok)
  have "unk = []" using resolve_deps_grows [OF b] c(2) by auto
  then show ?thesis
    using a c resolve_inputs_fold [of seen cp "{}" "[]" "[]" "input_pts tx" cur ins "[]"]
    by (auto simp: spent_pts_def resolve_inputs_def try_for_each_eq_Ok split: if_splits)
qed

lemma resolve_transactions_Ok:
  assumes "resolve_transactions X sys cp hc seen txs = Ok (rs, seen')"
  shows "distinct (concat (map spent_pts txs)) \<and> set (concat (map spent_pts txs)) \<inter> seen = {} \<and>
     list_all2 (\<lambda>tx r. rtx_transaction r = tx \<and>
       list_all2 (\<lambda>p m. cp p False = Ok (Live m)) (spent_pts tx) (rtx_inputs r) \<and>
       (\<forall>h\<in>set (tx_header_deps tx). hc h = Ok ())) txs rs"
  using assms
proof (induction txs arbitrary: seen rs)
  case Nil
  then show ?case by simp
next
  case (Cons tx txs)
  obtain r seen1 rs' where r: "resolve_transaction X sys tx seen cp hc = Ok (r, seen1)"
      and rs: "resolve_transactions X sys cp hc seen1 txs = Ok (rs', seen')" "rs = r # rs'"
    using Cons.prems by (auto simp: tryq_eq_Ok)
  note t = resolve_transaction_Ok [OF r] and ih = Cons.IH [OF rs(1)]
  have "set (spent_pts tx) \<inter> set (concat (map spent_pts txs)) = {}" using t ih by blast
  then show ?case using t ih rs(2) by auto
qed

section \<open>The provider interface\<close>

text \<open>
  What a \<open>CellProvider\<close> promises to the resolution: \<open>cell\<close> has no error value, and the metadata
  of a live cell names the out point that was asked for.
\<close>

locale cell_source =
  fixes cell :: cell_provider
  assumes never_err: "cell p w \<noteq> Err e"
    and meta_point: "cell p w = Ok (Live m) \<Longrightarrow> cm_out_point m = p"
begin

lemma resolved_points:
  assumes "resolve_transactions X sys cell hc seen txs = Ok (rs, seen')"
  shows "map (\<lambda>r. map cm_out_point (rtx_inputs r)) rs = map spent_pts txs"
proof -
  have "list_all2 (\<lambda>tx r. list_all2 (\<lambda>p m. cell p False = Ok (Live m)) (spent_pts tx) (rtx_inputs r)) txs rs"
    using resolve_transactions_Ok [OF assms] by (auto elim: list_all2_mono)
  then have "list_all2 (\<lambda>tx r. spent_pts tx = map cm_out_point (rtx_inputs r)) txs rs"
    by (rule list_all2_mono) (auto simp: list_all2_conv_all_nth meta_point intro!: nth_equalityI)
  then show ?thesis by (auto simp: list_all2_conv_all_nth intro!: nth_equalityI)
qed

lemma resolve_cell_error:
  assumes "resolve_cell seen cell unk p w = Err e"
  shows "e = OutPoint (Dead p)"
proof (cases "cell p w")
  case (Ok st)
  then show ?thesis using assms by (cases st) (auto simp: resolve_cell_def split: if_splits)
qed (use assms never_err in \<open>auto simp: resolve_cell_def split: if_splits\<close>)

lemma resolve_inputs_error:
  assumes "resolve_inputs seen cell ps = Err e"
  shows "\<exists>p\<in>set ps. e = OutPoint (Dead p)"
proof -
  obtain p st where "p \<in> set ps" "(case st of (current, inputs, unknown) \<Rightarrow>
       if p \<in> current then Err (OutPoint (Dead p))
       else tryq (resolve_cell seen cell unknown p False) (\<lambda>(m, unknown).
         Ok (insert p current, case m of None \<Rightarrow> inputs | Some c \<Rightarrow> inputs @ [c], unknown))) = Err e"
    using try_fold_Err [OF assms [unfolded resolve_inputs_def]] by (auto simp: case_prod_beta)
  then show ?thesis
    by (cases st) (auto simp: tryq_eq_Err dest: resolve_cell_error split: if_splits prod.splits)
qed

lemma resolve_dep_group_error:
  assumes "resolve_dep_group X (resolve_cell seen cell) unk p = Err e"
  shows "e = OutPoint (InvalidDepGroup p) \<or> (\<exists>q. e = OutPoint (Dead q))"
  using assms
  by (auto simp: resolve_dep_group_def outcome_simps dest!: resolve_cell_error try_fold_Err split: option.splits prod.splits)

lemma resolve_deps_error:
  assumes "resolve_deps_with_system_cell_cache X sys (resolve_cell seen cell) st deps = Err e"
  shows "(\<exists>d\<in>set deps. e = OutPoint (InvalidDepGroup (cd_out_point d))) \<or> (\<exists>q. e = OutPoint (Dead q))"
proof -
  obtain d st' where d: "d \<in> set deps" "(case sys of None \<Rightarrow> resolve_transaction_dep X (resolve_cell seen cell) st' d
       | Some cache \<Rightarrow>
           (case cache d of
              Some (RCell c) \<Rightarrow> (case st' of (cds, dgs, s) \<Rightarrow> Ok (cds @ [c], dgs, s))
            | Some (RGroup g deps) \<Rightarrow> (case st' of (cds, dgs, s) \<Rightarrow> Ok (cds @ deps, dgs @ [g], s))
            | None \<Rightarrow> resolve_transaction_dep X (resolve_cell seen cell) st' d)) = Err e"
    using try_fold_Err [OF assms [unfolded resolve_deps_with_system_cell_cache_def]] by blast
  then have "resolve_transaction_dep X (resolve_cell seen cell) st' d = Err e"
    by (cases st'; cases sys; cases "the sys d"; cases "the (the sys d)") auto
  then have "e = OutPoint (InvalidDepGroup (cd_out_point d)) \<or> (\<exists>q. e = OutPoint (Dead q))"
    by (cases st') (auto simp: resolve_transaction_dep_def tryq_eq_Err
        dest!: resolve_cell_error resolve_dep_group_error split: if_splits option.splits prod.splits)
  then show ?thesis using d(1) by blast
qed

lemma resolution_error:
  assumes "resolve_transaction X sys tx seen cell hc = Err e"
  shows "(\<exists>p. e = OutPoint (Dead p)) \<or> (\<exists>d\<in>set (tx_cell_deps tx). e = OutPoint (InvalidDepGroup (cd_out_point d))) \<or>
     (\<exists>h\<in>set (tx_header_deps tx). hc h = Err e) \<or> (\<exists>ps. ps \<noteq> [] \<and> e = OutPoint (Unknown ps))"
  using assms
  by (auto simp: resolve_transaction_def tryq_eq_Err dest!: resolve_inputs_error resolve_deps_error try_for_each_Err
      split: if_splits prod.splits)

end

lemma overlay_cell_source:
  assumes "cell_source a" and "cell_source b"
  shows "cell_source (overlay_cell a b)"
proof
  fix p w e m
  have "overlay_cell a b p w = a p w \<or> overlay_cell a b p w = b p w"
  proof (cases "a p w")
    case (Ok st)
    then show ?thesis by (cases st) (simp_all add: overlay_cell_def)
  qed (simp_all add: overlay_cell_def)
  then show "overlay_cell a b p w \<noteq> Err e" "overlay_cell a b p w = Ok (Live m) \<Longrightarrow> cm_out_point m = p"
    using assms by (auto simp: cell_source_def)
qed

interpretation block_source: cell_source "block_cell X b m" for X b m
proof
  fix p w e c
  show "block_cell X b m p w \<noteq> Err e"
    by (auto simp: block_cell_def bv_transaction_def Let_def outcome_simps split: option.splits)
  show "block_cell X b m p w = Ok (Live c) \<Longrightarrow> cm_out_point c = p"
    by (auto simp: block_cell_def Let_def outcome_simps split: option.splits)
qed

section \<open>Order within a block\<close>

lemma keys_enumerate: "fst ` set (map (\<lambda>(i, x). (f x, i)) (enumerate n xs)) = f ` set xs"
proof -
  have "fst ` set (map (\<lambda>(i, x). (f x, i)) (enumerate n xs)) = f ` snd ` set (enumerate n xs)"
    by (simp add: image_image case_prod_beta)
  also have "snd ` set (enumerate n xs) = set xs" by (metis list.set_map map_snd_enumerate)
  finally show ?thesis .
qed

lemma map_of_rev_enumerate:
  assumes "j < length xs" and "f (xs ! j) = k"
  shows "\<exists>i. map_of (rev (map (\<lambda>(i, x). (f x, i)) (enumerate n xs))) k = Some i \<and> n + j \<le> i"
  using assms
proof (induction xs arbitrary: n j)
  case Nil
  then show ?case by simp
next
  case (Cons x xs)
  show ?case
  proof (cases "\<exists>j'. j' < length xs \<and> f (xs ! j') = k \<and> j \<le> Suc j'")
    case True
    then obtain j' where j': "j' < length xs" "f (xs ! j') = k" "j \<le> Suc j'" by blast
    obtain i where "map_of (rev (map (\<lambda>(i, x). (f x, i)) (enumerate (Suc n) xs))) k = Some i" "Suc n + j' \<le> i"
      using Cons.IH [OF j'(1,2)] by blast
    then show ?thesis using j'(3) by (simp add: map_add_Some_iff)
  next
    case False
    have j: "j = 0"
    proof (rule ccontr)
      assume "j \<noteq> 0"
      then have "j - 1 < length xs" "f (xs ! (j - 1)) = k" "j \<le> Suc (j - 1)"
        using Cons.prems by (auto simp: nth_Cons')
      then show False using False by blast
    qed
    have "k \<notin> f ` set xs" using False j by (auto simp: in_set_conv_nth)
    then have "map_of (rev (map (\<lambda>(i, x). (f x, i)) (enumerate (Suc n) xs))) k = None"
      using keys_enumerate [of f "Suc n" xs] by (simp only: map_of_eq_None_iff set_rev not_False_eq_True)
    then show ?thesis using Cons.prems j by (simp add: map_add_Some_iff)
  qed
qed

lemma output_indices_le:
  assumes "j < length (bv_transactions b)"
  shows "\<exists>i. output_indices b (tx_hash (bv_transactions b ! j)) = Some i \<and> j \<le> i"
  using map_of_rev_enumerate [OF assms, of tx_hash _ 0] by (simp add: output_indices_def)

lemma check_order_Ok:
  "check_order m idx p = Ok () \<Longrightarrow> m (op_tx_hash p) = Some i \<Longrightarrow> i < idx"
  by (auto simp: check_order_def split: if_splits)

definition uses :: "transaction_view \<Rightarrow> out_point set" where
  "uses tx = cd_out_point ` set (tx_cell_deps tx) \<union> set (input_pts tx)"

lemma block_cell_provider_order:
  assumes "block_cell_provider_new b = Ok m" and "idx < length (bv_transactions b)"
    and p: "p \<in> uses (bv_transactions b ! idx)"
    and j: "j < length (bv_transactions b)" "tx_hash (bv_transactions b ! j) = op_tx_hash p"
  shows "j < idx"
proof -
  have "(idx, bv_transactions b ! idx) \<in> set (enumerate 0 (bv_transactions b))"
    using assms(2) by (simp add: in_set_enumerate_eq)
  then have "check_order (output_indices b) idx p = Ok ()"
    using assms(1) p by (auto simp: block_cell_provider_new_def Let_def tryq_eq_Ok try_for_each_eq_Ok uses_def)
  then show ?thesis using output_indices_le [OF j(1)] j(2) check_order_Ok by fastforce
qed

section \<open>The cache is transparent\<close>

text \<open>
  A cache entry is current for a set of seen inputs and a provider when resolving its
  dependency without the cache gives the entry.
\<close>

definition entry_current :: "'z ext_scheme \<Rightarrow> out_point set \<Rightarrow> cell_provider \<Rightarrow> cell_dep \<Rightarrow> resolved_dep \<Rightarrow> bool" where
  "entry_current X seen cp d e \<longleftrightarrow>
     (\<forall>cds dgs unk. resolve_transaction_dep X (resolve_cell seen cp) (cds, dgs, unk) d =
        Ok (case e of RCell c \<Rightarrow> (cds @ [c], dgs, unk) | RGroup g deps \<Rightarrow> (cds @ deps, dgs @ [g], unk)))"

lemma current_cache_transparent:
  assumes "\<And>d e. cache d = Some e \<Longrightarrow> entry_current X seen cp d e"
  shows "resolve_transaction X (Some cache) tx seen cp hc = resolve_transaction X None tx seen cp hc"
proof -
  have "(case cache d of
          Some (RCell c) \<Rightarrow> (case st of (cds, dgs, s) \<Rightarrow> Ok (cds @ [c], dgs, s))
        | Some (RGroup g deps) \<Rightarrow> (case st of (cds, dgs, s) \<Rightarrow> Ok (cds @ deps, dgs @ [g], s))
        | None \<Rightarrow> resolve_transaction_dep X (resolve_cell seen cp) st d) =
      resolve_transaction_dep X (resolve_cell seen cp) st d" for d st
    using assms [of d] by (auto simp: entry_current_def split: option.splits resolved_dep.splits prod.splits)
  then show ?thesis
    by (simp add: resolve_transaction_def resolve_deps_with_system_cell_cache_def)
qed

text \<open>The sub points of a dependency group that the provider reports as live with its data.\<close>

definition group_points :: "'z ext_scheme \<Rightarrow> cell_provider \<Rightarrow> out_point \<Rightarrow> out_point set" where
  "group_points X cp p =
     (case cp p True of
        Ok (Live m) \<Rightarrow>
          (case cm_mem_cell_data m of
             Some (d, _) \<Rightarrow> (case parse_dep_group_data X d of Ok subs \<Rightarrow> set subs | _ \<Rightarrow> {})
           | None \<Rightarrow> {})
      | _ \<Rightarrow> {})"

lemma build_current:
  assumes "build_cell_meta_from_out_point cp () p True = Ok (m, u)"
  shows "(\<exists>c. m = Some c \<and> cp p True = Ok (Live c)) \<or> (m = None \<and> cp p True = Ok UnknownCell)"
  using assms unfolding build_cell_meta_from_out_point_def
  by (cases "cp p True") (auto split: cell_status.splits)

lemma resolve_live: "p \<notin> seen \<Longrightarrow> cp p w = Ok (Live c) \<Longrightarrow> resolve_cell seen cp unk p w = Ok (Some c, unk)"
  by (simp add: resolve_cell_def)

lemma subs_current:
  assumes "try_fold (\<lambda>(deps, s) sub.
        tryq (build_cell_meta_from_out_point cp s sub True) (\<lambda>(m, s).
        Ok (case m of None \<Rightarrow> deps | Some c \<Rightarrow> deps @ [c], s))) (acc, ()) subs = Ok (deps, ())"
    and "set subs \<inter> seen = {}" and "\<forall>p\<in>set subs. cp p True \<noteq> Ok UnknownCell"
  shows "try_fold (\<lambda>(deps, s) sub.
        tryq (resolve_cell seen cp s sub True) (\<lambda>(m, s).
        Ok (case m of None \<Rightarrow> deps | Some c \<Rightarrow> deps @ [c], s))) (acc, unk) subs = Ok (deps, unk)"
  using assms
proof (induction subs arbitrary: acc)
  case Nil
  then show ?case by simp
next
  case (Cons p subs)
  obtain m where m: "build_cell_meta_from_out_point cp () p True = Ok (m, ())"
    using Cons.prems(1) by (auto simp: tryq_eq_Ok)
  then obtain c where c: "m = Some c" "cp p True = Ok (Live c)" using build_current [OF m] Cons.prems(3) by auto
  then show ?case using Cons m resolve_live [of p seen cp True c unk] by simp
qed

lemma group_current:
  assumes r: "expect_some (resolve_dep_group X (build_cell_meta_from_out_point cp) () p) = Ok (g, deps)"
    and "p \<notin> seen" and "group_points X cp p \<inter> seen = {}" and "\<forall>q\<in>group_points X cp p. cp q True \<noteq> Ok UnknownCell"
  shows "resolve_dep_group X (resolve_cell seen cp) unk p = Ok (Some (g, deps), unk)"
proof -
  have ok: "resolve_dep_group X (build_cell_meta_from_out_point cp) () p = Ok (Some (g, deps), ())"
    using r by (auto simp: expect_some_def split: outcome.splits option.splits prod.splits)
  obtain d h subs where c: "cp p True = Ok (Live g)" "cm_mem_cell_data g = Some (d, h)"
      "map_err (\<lambda>_. OutPoint (InvalidDepGroup p)) (parse_dep_group_data X d) = Ok subs"
    and fold: "try_fold (\<lambda>(deps, s) sub.
        tryq (build_cell_meta_from_out_point cp s sub True) (\<lambda>(m, s).
        Ok (case m of None \<Rightarrow> deps | Some c \<Rightarrow> deps @ [c], s))) ([], ()) subs = Ok (deps, ())"
  proof -
    obtain m where m: "build_cell_meta_from_out_point cp () p True = Ok (m, ())"
      using ok by (auto simp: resolve_dep_group_def tryq_eq_Ok)
    have "m \<noteq> None" using ok m by (cases m) (auto simp: resolve_dep_group_def)
    then obtain c where c: "m = Some c" "cp p True = Ok (Live c)" using build_current [OF m] by auto
    then show thesis
      using ok m that by (auto simp: resolve_dep_group_def tryq_eq_Ok expect_eq_Ok)
  qed
  have "parse_dep_group_data X d = Ok subs" using c(3) by (simp add: map_err_eq_Ok)
  then have "group_points X cp p = set subs" using c(1,2) by (simp add: group_points_def)
  then show ?thesis
    using subs_current [OF fold] assms(2-4) c resolve_live [of p seen cp True g]
    by (simp add: resolve_dep_group_def)
qed

lemma code_dep_not_group [simp]: "cd_dep_type (code_dep tx i) \<noteq> DepGroup" "cd_dep_type (group_dep tx i) = DepGroup"
  by (simp_all add: code_dep_def group_dep_def DepGroup_def)

lemma cell_current:
  assumes "expect_some (build_cell_meta_from_out_point cp () p True) = Ok c" and "p \<notin> seen"
  shows "resolve_cell seen cp unk p True = Ok (Some c, unk)"
proof -
  have "build_cell_meta_from_out_point cp () p True = Ok (Some c, ())"
    using assms(1) by (auto simp: expect_some_def split: outcome.splits option.splits prod.splits)
  then show ?thesis using build_current resolve_live [OF assms(2)] by fastforce
qed

lemma code_entry_current:
  assumes "expect_some (build_cell_meta_from_out_point cp () (cd_out_point d) True) = Ok c"
    and "cd_out_point d \<notin> seen" and "cd_dep_type d \<noteq> DepGroup"
  shows "entry_current X seen cp d (RCell c)"
  using cell_current [OF assms(1,2)] assms(3) by (simp add: entry_current_def resolve_transaction_dep_def)

lemma group_entry_current:
  assumes "expect_some (resolve_dep_group X (build_cell_meta_from_out_point cp) () (cd_out_point d)) = Ok g"
    and "cd_out_point d \<notin> seen" and "group_points X cp (cd_out_point d) \<inter> seen = {}"
    and "\<forall>q\<in>group_points X cp (cd_out_point d). cp q True \<noteq> Ok UnknownCell" and "cd_dep_type d = DepGroup"
  shows "entry_current X seen cp d (RGroup (fst g) (snd g))"
proof -
  have "expect_some (resolve_dep_group X (build_cell_meta_from_out_point cp) () (cd_out_point d)) = Ok (fst g, snd g)"
    using assms(1) by simp
  from group_current [OF this assms(2-4)] assms(5) show ?thesis
    by (simp add: entry_current_def resolve_transaction_dep_def split: prod.splits)
qed

lemma setup_entries_current:
  assumes init: "setup_system_cell_cache X None g cp = Ok (Some cache)"
    and unspent: "\<forall>d\<in>dom cache. cd_out_point d \<notin> seen \<and> group_points X cp (cd_out_point d) \<inter> seen = {}"
    and known: "\<forall>d\<in>dom cache. \<forall>q\<in>group_points X cp (cd_out_point d). cp q True \<noteq> Ok UnknownCell"
    and e: "cache d = Some e"
  shows "entry_current X seen cp d e"
proof -
  let ?cell = "\<lambda>d. expect_some (build_cell_meta_from_out_point cp () (cd_out_point d) True)"
  let ?group = "\<lambda>d. expect_some (resolve_dep_group X (build_cell_meta_from_out_point cp) () (cd_out_point d))"
  obtain s t c1 c2 c3 g1 g2 where cells: "?cell (code_dep s 1) = Ok c1" "?cell (code_dep s 2) = Ok c2"
      "?cell (code_dep s 3) = Ok c3" "?group (group_dep t 0) = Ok g1" "?group (group_dep t 1) = Ok g2"
    and cache: "cache = Map.empty(code_dep s 1 \<mapsto> RCell c1, code_dep s 2 \<mapsto> RCell c2, code_dep s 3 \<mapsto> RCell c3,
       group_dep t 0 \<mapsto> RGroup (fst g1) (snd g1), group_dep t 1 \<mapsto> RGroup (fst g2) (snd g2))"
    using init unfolding setup_system_cell_cache_def Let_def by (auto simp: tryq_eq_Ok)
  have d: "d \<in> dom cache" using e by blast
  have un: "cd_out_point d \<notin> seen" "group_points X cp (cd_out_point d) \<inter> seen = {}"
      "\<forall>q\<in>group_points X cp (cd_out_point d). cp q True \<noteq> Ok UnknownCell"
    using unspent known d by blast+
  consider "d = code_dep s 1" "e = RCell c1" | "d = code_dep s 2" "e = RCell c2" | "d = code_dep s 3" "e = RCell c3"
    | "d = group_dep t 0" "e = RGroup (fst g1) (snd g1)" | "d = group_dep t 1" "e = RGroup (fst g2) (snd g2)"
    using e unfolding cache by (auto split: if_splits)
  then show ?thesis
    by cases (use un cells in \<open>auto intro!: code_entry_current group_entry_current\<close>)
qed

section \<open>An example\<close>

definition example_point :: out_point where
  "example_point = \<lparr>op_tx_hash = replicate 32 9, op_index = 0\<rparr>"

definition example_spend :: transaction where
  "example_spend = example_tx\<lparr>tx_header_deps := [], tx_inputs := [cell_input_new example_point 0]\<rparr>"

text \<open>A block with a cellbase and a transaction that spends one cell.\<close>

definition example_spend_block :: block_view where
  "example_spend_block = block.extend (example_block\<lparr>b_uncles := [],
       b_transactions := [example_tx\<lparr>tx_header_deps := []\<rparr>, example_spend]\<rparr>)
     \<lparr>bv_hash = replicate 32 5, bv_uncle_hashes = [],
      bv_tx_hashes = [replicate 32 1, replicate 32 2], bv_tx_witness_hashes = [replicate 32 3, replicate 32 4]\<rparr>"

text \<open>A provider whose cells are all live and hold a dependency group of one out point.\<close>

definition example_cell :: "out_point \<Rightarrow> cell_meta" where
  "example_cell p = \<lparr>cm_cell_output = hd (tx_outputs example_tx), cm_out_point = p, cm_transaction_info = None,
     cm_data_bytes = 40, cm_mem_cell_data = Some (out_point_vec_write ext_word [example_point], byte32_zero)\<rparr>"

definition example_provider :: cell_provider where
  "example_provider p with_data = Ok (Live (example_cell p))"

lemma example_spend_transactions:
  "bv_transactions example_spend_block =
     [tx_view (example_tx\<lparr>tx_header_deps := []\<rparr>) (replicate 32 1) (replicate 32 3),
      tx_view example_spend (replicate 32 2) (replicate 32 4)]"
  by (simp add: bv_transactions_def example_spend_block_def block.defs)

lemma example_cellbase: "tx_is_cellbase (tx_view (example_tx\<lparr>tx_header_deps := []\<rparr>) h w)"
  by (simp add: tx_is_cellbase_def example_tx_def new_cellbase_input_def cell_input_new_def
      out_point_is_null_def out_point_null_def byte32_is_zero_def byte32_zero_def list_all_iff)

lemma example_not_cellbase: "\<not> tx_is_cellbase (tx_view example_spend h w)"
  by (simp add: tx_is_cellbase_def example_spend_def cell_input_new_def example_point_def
      out_point_is_null_def byte32_is_zero_def list_all_iff)

lemma example_spend_sel:
  "tx_cell_deps example_spend = []" "tx_header_deps example_spend = []"
  "tx_inputs example_spend = [cell_input_new example_point 0]"
  "tx_cell_deps example_tx = []"
  by (simp_all add: example_spend_def example_tx_def)

lemma example_indices:
  "output_indices example_spend_block = [replicate 32 1 \<mapsto> 0, replicate 32 2 \<mapsto> Suc 0]"
  by (simp add: output_indices_def example_spend_transactions)

lemma example_overlay:
  "overlay_cell (block_cell ext_word example_spend_block [replicate 32 1 \<mapsto> 0, replicate 32 2 \<mapsto> Suc 0])
     example_provider example_point w = Ok (Live (example_cell example_point))"
  by (simp add: overlay_cell_def block_cell_def example_point_def example_provider_def)

lemma example_block_order:
  "block_cell_provider_new example_spend_block = Ok [replicate 32 1 \<mapsto> 0, replicate 32 2 \<mapsto> Suc 0]"
  by (simp add: block_cell_provider_new_def Let_def example_spend_transactions example_spend_sel
      example_indices input_pts_def check_order_def cell_input_new_def example_point_def example_tx_def
      new_cellbase_input_def out_point_null_def byte32_zero_def)

lemma example_block_resolves:
  "resolve_block ext_word None example_provider (\<lambda>_. Ok ()) example_spend_block =
     Ok [\<lparr>rtx_transaction = bv_transactions example_spend_block ! 0, rtx_cell_deps = [], rtx_inputs = [],
          rtx_dep_groups = []\<rparr>,
         \<lparr>rtx_transaction = bv_transactions example_spend_block ! 1, rtx_cell_deps = [],
          rtx_inputs = [example_cell example_point], rtx_dep_groups = []\<rparr>]"
  by (simp add: resolve_block_def example_block_order example_spend_transactions
      example_spend_sel resolve_transaction_def example_cellbase
      example_not_cellbase resolve_inputs_def resolve_cell_def example_overlay
      resolve_deps_with_system_cell_cache_def input_pts_def cell_input_new_def)

section \<open>Properties\<close>



text \<open>
  The system cell cache is transparent: a cache set up from the genesis block gives the
  same result of resolving any transaction as no cache, as long as the cached cells and the
  cells of the cached groups are not spent and are known to the provider.
\<close>

theorem system_cell_cache_transparent:
  assumes "setup_system_cell_cache X None g cp = Ok (Some cache)"
    and "\<forall>d\<in>dom cache. cd_out_point d \<notin> seen \<and> group_points X cp (cd_out_point d) \<inter> seen = {}"
    and "\<forall>d\<in>dom cache. \<forall>q\<in>group_points X cp (cd_out_point d). cp q True \<noteq> Ok UnknownCell"
  shows "resolve_transaction X (Some cache) tx seen cp hc = resolve_transaction X None tx seen cp hc"
  by (rule current_cache_transparent [OF setup_entries_current [OF assms]])

lemma example_group: "parse_dep_group_data ext_word (out_point_vec_write ext_word [example_point]) = Ok [example_point]"
proof -
  have "from_slice (out_point_vec_verify ext_word) (out_point_vec_read ext_word)
      (out_point_vec_write ext_word [example_point]) = Ok [example_point]"
    by (rule codec.from_slice_enc [OF out_point_vec_codec [OF ext_word_molecule_ok]])
      (simp_all add: out_point_wf_def byte32_wf_def example_point_def out_point_vec_write_def fixvec_write_def
        ext_word_molecule_ok out_point_write_def byte32_write_def uint32_write_def)
  moreover have "out_point_vec_write ext_word [example_point] \<noteq> []"
    by (simp add: out_point_vec_write_def fixvec_write_def out_point_write_def byte32_write_def example_point_def)
  ultimately show ?thesis by (simp add: parse_dep_group_data_def)
qed

lemma example_setup:
  "\<exists>cache. setup_system_cell_cache ext_word None example_spend_block example_provider = Ok (Some cache)"
  by (simp add: setup_system_cell_cache_def example_spend_transactions vec_get_def Let_def expect_some_def
      build_cell_meta_from_out_point_def example_provider_def resolve_dep_group_def example_cell_def example_group)

theorem system_cell_cache_transparent_witness:
  "\<exists>cache. setup_system_cell_cache ext_word None example_spend_block example_provider = Ok (Some cache) \<and>
     resolve_transaction ext_word (Some cache) (bv_transactions example_spend_block ! 1) {} example_provider (\<lambda>_. Ok ()) =
     resolve_transaction ext_word None (bv_transactions example_spend_block ! 1) {} example_provider (\<lambda>_. Ok ())"
proof -
  obtain cache where c: "setup_system_cell_cache ext_word None example_spend_block example_provider = Ok (Some cache)"
    using example_setup by blast
  show ?thesis
    using c system_cell_cache_transparent [OF c, of "{}"] by (auto simp: example_provider_def)
qed

end
