(* ===== verification/Store.thy ===== *)
theory Store
  imports Cell Consensus
begin

text \<open>
  The chain store (\<open>store/src/store.rs\<close>, \<open>store/src/transaction.rs\<close>), the liveness record of
  a transaction's outputs (\<open>util/types/src/core/transaction_meta.rs\<close>) and the update of the
  cell set when a block joins or leaves the main chain (\<open>chain/src/cell.rs\<close>). A column family
  is a field of the record \<^verbatim>\<open>store\<close>, a map from its keys to the values the accessors unpack;
  columns that hold two kinds of keys, told apart by their length, are two maps. The read-through
  cache of the accessors is absent (\<open>cache()\<close> is \<open>None\<close>). Operations of the key-value engine
  itself do not fail.
\<close>

section \<open>Liveness of the outputs of a transaction\<close>

record transaction_meta =
  tm_block_number :: u64
  tm_epoch_number :: u64
  tm_block_hash :: byte32
  tm_cellbase :: bool
  tm_dead_cell :: "bool list"

definition tm_new :: "u64 \<Rightarrow> u64 \<Rightarrow> byte32 \<Rightarrow> nat \<Rightarrow> bool \<Rightarrow> transaction_meta" where
  "tm_new n e h outputs_count dead =
     \<lparr>tm_block_number = n, tm_epoch_number = e, tm_block_hash = h, tm_cellbase = False,
      tm_dead_cell = replicate outputs_count dead\<rparr>"

definition tm_new_cellbase :: "u64 \<Rightarrow> u64 \<Rightarrow> byte32 \<Rightarrow> nat \<Rightarrow> bool \<Rightarrow> transaction_meta" where
  "tm_new_cellbase n e h outputs_count dead = (tm_new n e h outputs_count dead)\<lparr>tm_cellbase := True\<rparr>"

definition tm_len :: "transaction_meta \<Rightarrow> nat" where
  "tm_len m = length (tm_dead_cell m)"

definition tm_is_empty :: "transaction_meta \<Rightarrow> bool" where
  "tm_is_empty m \<longleftrightarrow> tm_dead_cell m = []"

definition tm_is_dead :: "transaction_meta \<Rightarrow> nat \<Rightarrow> bool option" where
  "tm_is_dead m i = vec_get (tm_dead_cell m) i"

definition tm_all_dead :: "transaction_meta \<Rightarrow> bool" where
  "tm_all_dead m \<longleftrightarrow> list_all (\<lambda>x. x) (tm_dead_cell m)"

definition set_dead :: "transaction_meta \<Rightarrow> nat \<Rightarrow> transaction_meta" where
  "set_dead m i = (if i < tm_len m then m\<lparr>tm_dead_cell := (tm_dead_cell m)[i := True]\<rparr> else m)"

definition unset_dead :: "transaction_meta \<Rightarrow> nat \<Rightarrow> transaction_meta" where
  "unset_dead m i = (if i < tm_len m then m\<lparr>tm_dead_cell := (tm_dead_cell m)[i := False]\<rparr> else m)"

section \<open>The columns\<close>

record block_ext =
  ext_received_at :: u64
  ext_total_difficulty :: u256
  ext_total_uncles_count :: u64
  ext_verified :: "bool option"
  ext_txs_fees :: "capacity list"

text \<open>
  \<open>COLUMN_BLOCK_BODY\<close> has keys (block hash, big-endian index): the entries of a block are a list
  sorted by index, so that the iteration over a hash prefix is this list.
\<close>

record store =
  st_header :: "byte32 \<Rightarrow> header_view option"
  st_uncle :: "byte32 \<Rightarrow> (uncle_block list \<times> byte32 list) option"
  st_proposals :: "byte32 \<Rightarrow> proposal_short_id list option"
  st_body :: "byte32 \<Rightarrow> (u32 \<times> transaction_view) list"
  st_ext :: "byte32 \<Rightarrow> block_ext option"
  st_tx_info :: "byte32 \<Rightarrow> transaction_info option"
  st_index_hash :: "u64 \<Rightarrow> byte32 option"
  st_index_number :: "byte32 \<Rightarrow> u64 option"
  st_uncles :: "byte32 \<Rightarrow> header_view option"
  st_epoch :: "byte32 \<Rightarrow> epoch_ext option"
  st_epoch_number :: "u64 \<Rightarrow> byte32 option"
  st_block_epoch :: "byte32 \<Rightarrow> byte32 option"
  st_tip :: "byte32 option"
  st_current_epoch :: "epoch_ext option"
  st_cell_set :: "byte32 \<Rightarrow> transaction_meta option"

text \<open>The empty key-value store.\<close>

definition store_empty :: store where
  "store_empty = \<lparr>st_header = Map.empty, st_uncle = Map.empty, st_proposals = Map.empty, st_body = \<lambda>_. [],
     st_ext = Map.empty, st_tx_info = Map.empty, st_index_hash = Map.empty, st_index_number = Map.empty,
     st_uncles = Map.empty, st_epoch = Map.empty, st_epoch_number = Map.empty, st_block_epoch = Map.empty,
     st_tip = None, st_current_epoch = None, st_cell_set = Map.empty\<rparr>"

text \<open>Writing one key of a sorted run of keys.\<close>

fun put_sorted :: "'k::linorder \<Rightarrow> 'v \<Rightarrow> ('k \<times> 'v) list \<Rightarrow> ('k \<times> 'v) list" where
  "put_sorted k v [] = [(k, v)]"
| "put_sorted k v ((k', v') # kvs) =
     (if k < k' then (k, v) # (k', v') # kvs
      else if k = k' then (k, v) # kvs
      else (k', v') # put_sorted k v kvs)"

section \<open>Reading\<close>

definition get_block_header :: "store \<Rightarrow> byte32 \<Rightarrow> header_view option" where
  "get_block_header s h = st_header s h"

definition get_block_body :: "store \<Rightarrow> byte32 \<Rightarrow> transaction_view list" where
  "get_block_body s h = map snd (st_body s h)"

definition get_block_txs_hashes :: "store \<Rightarrow> byte32 \<Rightarrow> byte32 list" where
  "get_block_txs_hashes s h = map (\<lambda>(_, tx). tx_hash tx) (st_body s h)"

definition get_block_proposal_txs_ids :: "store \<Rightarrow> byte32 \<Rightarrow> proposal_short_id list option" where
  "get_block_proposal_txs_ids s h = st_proposals s h"

definition get_block_uncles :: "store \<Rightarrow> byte32 \<Rightarrow> (uncle_block list \<times> byte32 list) option" where
  "get_block_uncles s h = st_uncle s h"

text \<open>\<open>BlockView::new_unchecked\<close>.\<close>

definition new_unchecked ::
  "header_view \<Rightarrow> uncle_block list \<times> byte32 list \<Rightarrow> transaction_view list \<Rightarrow> proposal_short_id list \<Rightarrow> block_view" where
  "new_unchecked hv uncles body proposals =
     block.extend
       \<lparr>b_header = header.truncate hv, b_uncles = fst uncles, b_transactions = map transaction.truncate body,
        b_proposals = proposals\<rparr>
       \<lparr>bv_hash = h_hash hv, bv_uncle_hashes = snd uncles, bv_tx_hashes = map tx_hash body,
        bv_tx_witness_hashes = map tx_witness_hash body\<rparr>"

definition get_block :: "store \<Rightarrow> byte32 \<Rightarrow> block_view option result" where
  "get_block s h =
     (case get_block_header s h of
        None \<Rightarrow> Ok None
      | Some hv \<Rightarrow>
          tryq (expect (get_block_uncles s h)) (\<lambda>uncles.
          tryq (expect (get_block_proposal_txs_ids s h)) (\<lambda>proposals.
          Ok (Some (new_unchecked hv uncles (get_block_body s h) proposals)))))"

definition get_block_ext :: "store \<Rightarrow> byte32 \<Rightarrow> block_ext option" where
  "get_block_ext s h = st_ext s h"

definition get_block_hash :: "store \<Rightarrow> u64 \<Rightarrow> byte32 option" where
  "get_block_hash s n = st_index_hash s n"

definition get_block_number :: "store \<Rightarrow> byte32 \<Rightarrow> u64 option" where
  "get_block_number s h = st_index_number s h"

definition is_main_chain :: "store \<Rightarrow> byte32 \<Rightarrow> bool" where
  "is_main_chain s h \<longleftrightarrow> st_index_number s h \<noteq> None"

definition get_tip_header :: "store \<Rightarrow> header_view option" where
  "get_tip_header s = Option.bind (st_tip s) (get_block_header s)"

definition get_transaction_info :: "store \<Rightarrow> byte32 \<Rightarrow> transaction_info option" where
  "get_transaction_info s h = st_tx_info s h"

text \<open>The entry of \<open>COLUMN_BLOCK_BODY\<close> a transaction info points to.\<close>

definition body_entry :: "store \<Rightarrow> transaction_info \<Rightarrow> transaction_view option" where
  "body_entry s i = map_of (st_body s (ti_block_hash i)) (of_nat (ti_index i))"

definition get_transaction :: "store \<Rightarrow> byte32 \<Rightarrow> (transaction_view \<times> byte32) option result" where
  "get_transaction s h =
     (case get_transaction_info s h of
        None \<Rightarrow> Ok None
      | Some i \<Rightarrow> tryq (expect (body_entry s i)) (\<lambda>tx. Ok (Some (tx, ti_block_hash i))))"

definition get_tx_meta :: "store \<Rightarrow> byte32 \<Rightarrow> transaction_meta option" where
  "get_tx_meta s h = st_cell_set s h"

definition get_cell_meta :: "store \<Rightarrow> byte32 \<Rightarrow> u32 \<Rightarrow> cell_meta option result" where
  "get_cell_meta s h index =
     (case get_transaction_info s h of
        None \<Rightarrow> Ok None
      | Some i \<Rightarrow>
          (case body_entry s i of
             None \<Rightarrow> Ok None
           | Some tx \<Rightarrow>
               (case vec_get (tx_outputs tx) (unat index) of
                  None \<Rightarrow> Ok None
                | Some out \<Rightarrow>
                    tryq (expect (vec_get (tx_outputs_data tx) (unat index))) (\<lambda>d.
                    Ok (Some \<lparr>cm_cell_output = out, cm_out_point = out_point_new h index,
                          cm_transaction_info = Some i, cm_data_bytes = of_nat (length d),
                          cm_mem_cell_data = None\<rparr>)))))"

definition get_cell_data :: "'z ext_scheme \<Rightarrow> store \<Rightarrow> byte32 \<Rightarrow> u32 \<Rightarrow> (bytes \<times> byte32) option" where
  "get_cell_data X s h index =
     Option.bind (get_transaction_info s h) (\<lambda>i.
     Option.bind (body_entry s i) (\<lambda>tx.
     map_option (\<lambda>d. (d, calc_data_hash X d)) (vec_get (tx_outputs_data tx) (unat index))))"

definition get_current_epoch_ext :: "store \<Rightarrow> epoch_ext option" where
  "get_current_epoch_ext s = st_current_epoch s"

definition get_epoch_ext :: "store \<Rightarrow> byte32 \<Rightarrow> epoch_ext option" where
  "get_epoch_ext s h = st_epoch s h"

definition get_epoch_index :: "store \<Rightarrow> u64 \<Rightarrow> byte32 option" where
  "get_epoch_index s n = st_epoch_number s n"

definition get_block_epoch_index :: "store \<Rightarrow> byte32 \<Rightarrow> byte32 option" where
  "get_block_epoch_index s h = st_block_epoch s h"

definition get_block_epoch :: "store \<Rightarrow> byte32 \<Rightarrow> epoch_ext option" where
  "get_block_epoch s h = Option.bind (get_block_epoch_index s h) (get_epoch_ext s)"

definition is_uncle :: "store \<Rightarrow> byte32 \<Rightarrow> bool" where
  "is_uncle s h \<longleftrightarrow> st_uncles s h \<noteq> None"

definition get_uncle_header :: "store \<Rightarrow> byte32 \<Rightarrow> header_view option" where
  "get_uncle_header s h = st_uncles s h"

definition block_exists :: "store \<Rightarrow> byte32 \<Rightarrow> bool" where
  "block_exists s h \<longleftrightarrow> st_header s h \<noteq> None"

definition get_cellbase :: "store \<Rightarrow> byte32 \<Rightarrow> transaction_view option" where
  "get_cellbase s h = map_of (st_body s h) 0"

definition store_next_epoch_ext ::
  "'z numext_scheme \<Rightarrow> store \<Rightarrow> consensus \<Rightarrow> epoch_ext \<Rightarrow> header_view \<Rightarrow> epoch_ext option result" where
  "store_next_epoch_ext N s C last_epoch hv =
     next_epoch_ext N C last_epoch hv (get_block_header s)
       (\<lambda>h. map_option ext_total_uncles_count (get_block_ext s h))"

text \<open>\<open>CellProviderWrapper::cell\<close>.\<close>

definition store_cell :: "'z ext_scheme \<Rightarrow> store \<Rightarrow> cell_provider" where
  "store_cell X s p with_data =
     (let h = op_tx_hash p; index = op_index p in
      case get_tx_meta s h of
        None \<Rightarrow> Ok UnknownCell
      | Some m \<Rightarrow>
          (case tm_is_dead m (unat index) of
             Some False \<Rightarrow>
               tryq (tryq (get_cell_meta s h index) expect) (\<lambda>c.
               Ok (Live (if with_data then c\<lparr>cm_mem_cell_data := get_cell_data X s h index\<rparr> else c)))
           | Some True \<Rightarrow> Ok DeadCell
           | None \<Rightarrow> Ok UnknownCell))"

text \<open>\<open>DataLoaderWrapper::load_cell_data\<close>.\<close>

definition load_cell_data :: "'z ext_scheme \<Rightarrow> store \<Rightarrow> cell_meta \<Rightarrow> (bytes \<times> byte32) option" where
  "load_cell_data X s c =
     (case cm_mem_cell_data c of
        Some d \<Rightarrow> Some d
      | None \<Rightarrow> get_cell_data X s (op_tx_hash (cm_out_point c)) (op_index (cm_out_point c)))"

section \<open>Writing\<close>

definition insert_tip_header :: "header_view \<Rightarrow> store \<Rightarrow> store" where
  "insert_tip_header hv s = s\<lparr>st_tip := Some (h_hash hv)\<rparr>"

definition insert_block :: "block_view \<Rightarrow> store \<Rightarrow> store" where
  "insert_block b s =
     (let hash = bv_hash b;
          s = s\<lparr>st_header := (st_header s)(hash \<mapsto> bv_header b)\<rparr>;
          s = s\<lparr>st_uncle := (st_uncle s)(hash \<mapsto> (b_uncles b, bv_uncle_hashes b))\<rparr>;
          s = s\<lparr>st_proposals := (st_proposals s)(hash \<mapsto> b_proposals b)\<rparr>
      in fold (\<lambda>(index, tx) s. s\<lparr>st_body := (st_body s)(hash := put_sorted (of_nat index) tx (st_body s hash))\<rparr>)
           (enumerate 0 (bv_transactions b)) s)"

definition insert_block_ext :: "byte32 \<Rightarrow> block_ext \<Rightarrow> store \<Rightarrow> store" where
  "insert_block_ext h ext s = s\<lparr>st_ext := (st_ext s)(h \<mapsto> ext)\<rparr>"

definition attach_block :: "block_view \<Rightarrow> store \<Rightarrow> store" where
  "attach_block b s =
     (let hv = b_header b; hash = bv_hash b;
          s = fold (\<lambda>(index, h) s. s\<lparr>st_tx_info := (st_tx_info s)(h \<mapsto>
                \<lparr>ti_block_hash = hash, ti_block_number = h_number hv, ti_block_epoch = ef_from_full_value (h_epoch hv),
                 ti_index = unat (of_nat index :: u32)\<rparr>)\<rparr>) (enumerate 0 (bv_tx_hashes b)) s;
          s = s\<lparr>st_index_hash := (st_index_hash s)(bv_number b \<mapsto> hash)\<rparr>;
          s = fold (\<lambda>u s. s\<lparr>st_uncles := (st_uncles s)(uv_hash u \<mapsto> uv_header u)\<rparr>) (bv_uncles b) s
      in s\<lparr>st_index_number := (st_index_number s)(hash \<mapsto> bv_number b)\<rparr>)"

definition detach_block :: "block_view \<Rightarrow> store \<Rightarrow> store" where
  "detach_block b s =
     (let s = fold (\<lambda>h s. s\<lparr>st_tx_info := (st_tx_info s)(h := None)\<rparr>) (bv_tx_hashes b) s;
          s = fold (\<lambda>u s. s\<lparr>st_uncles := (st_uncles s)(uv_hash u := None)\<rparr>) (bv_uncles b) s;
          s = s\<lparr>st_index_hash := (st_index_hash s)(h_number (b_header b) := None)\<rparr>
      in s\<lparr>st_index_number := (st_index_number s)(bv_hash b := None)\<rparr>)"

definition insert_block_epoch_index :: "byte32 \<Rightarrow> byte32 \<Rightarrow> store \<Rightarrow> store" where
  "insert_block_epoch_index block_hash epoch_hash s =
     s\<lparr>st_block_epoch := (st_block_epoch s)(block_hash \<mapsto> epoch_hash)\<rparr>"

definition insert_epoch_ext :: "byte32 \<Rightarrow> epoch_ext \<Rightarrow> store \<Rightarrow> store" where
  "insert_epoch_ext h e s =
     s\<lparr>st_epoch := (st_epoch s)(h \<mapsto> e), st_epoch_number := (st_epoch_number s)(ee_number e \<mapsto> h)\<rparr>"

definition insert_current_epoch_ext :: "epoch_ext \<Rightarrow> store \<Rightarrow> store" where
  "insert_current_epoch_ext e s = s\<lparr>st_current_epoch := Some e\<rparr>"

definition update_cell_set :: "byte32 \<Rightarrow> transaction_meta \<Rightarrow> store \<Rightarrow> store" where
  "update_cell_set h m s = s\<lparr>st_cell_set := (st_cell_set s)(h \<mapsto> m)\<rparr>"

definition delete_cell_set :: "byte32 \<Rightarrow> store \<Rightarrow> store" where
  "delete_cell_set h s = s\<lparr>st_cell_set := (st_cell_set s)(h := None)\<rparr>"

section \<open>The cell set of the main chain\<close>

definition spend_cell :: "out_point \<Rightarrow> store \<Rightarrow> store" where
  "spend_cell p s =
     (let h = op_tx_hash p in
      case get_tx_meta s h of
        None \<Rightarrow> s
      | Some m \<Rightarrow>
          (let m = set_dead m (unat (op_index p)) in
           if tm_all_dead m then delete_cell_set h s else update_cell_set h m s))"

definition meta_of :: "transaction_view \<Rightarrow> header_view \<Rightarrow> bool \<Rightarrow> transaction_meta" where
  "meta_of tx hv dead =
     (if tx_is_cellbase tx then tm_new_cellbase else tm_new)
       (h_number hv) (ef_number (ef_from_full_value (h_epoch hv))) (h_hash hv) (length (tx_outputs tx)) dead"

definition attach_tx_cell :: "block_view \<Rightarrow> transaction_view \<Rightarrow> store \<Rightarrow> store" where
  "attach_tx_cell b tx s =
     update_cell_set (tx_hash tx) (meta_of tx (bv_header b) False) (fold spend_cell (input_pts tx) s)"

definition attach_block_cell :: "block_view \<Rightarrow> store \<Rightarrow> store" where
  "attach_block_cell b s = fold (attach_tx_cell b) (bv_transactions b) s"

text \<open>The all-dead record of a transaction that left the cell set.\<close>

definition recover_meta :: "store \<Rightarrow> byte32 \<Rightarrow> transaction_meta option result" where
  "recover_meta s h =
     tryq (get_transaction s h) (\<lambda>r.
     Ok (Option.bind r (\<lambda>(tx, block_hash).
         map_option (\<lambda>hv. meta_of tx hv True) (get_block_header s block_hash))))"

definition restore_cell :: "store \<Rightarrow> out_point \<Rightarrow> store result" where
  "restore_cell s p =
     (let h = op_tx_hash p; index = unat (op_index p) in
      case get_tx_meta s h of
        Some m \<Rightarrow> Ok (update_cell_set h (unset_dead m index) s)
      | None \<Rightarrow>
          tryq (recover_meta s h) (\<lambda>r.
          Ok (case r of None \<Rightarrow> s | Some m \<Rightarrow> update_cell_set h (unset_dead m index) s)))"

definition detach_block_cell :: "block_view \<Rightarrow> store \<Rightarrow> store result" where
  "detach_block_cell b s =
     try_fold (\<lambda>s tx. try_fold restore_cell (delete_cell_set (tx_hash tx) s) (input_pts tx)) s
       (rev (bv_transactions b))"

section \<open>The stored body of a block\<close>

lemma put_sorted_last: "\<forall>(k', _)\<in>set kvs. k' < k \<Longrightarrow> put_sorted k v kvs = kvs @ [(k, v)]"
  by (induction kvs) auto

lemma unat_of_nat_u32: "n < 2 ^ 32 \<Longrightarrow> unat (of_nat n :: u32) = n"
  by (simp add: unat_of_nat)

text \<open>The entries of the transactions of a block.\<close>

definition body_entries :: "nat \<Rightarrow> 'a list \<Rightarrow> (u32 \<times> 'a) list" where
  "body_entries n xs = map (\<lambda>(i, x). (of_nat i, x)) (enumerate n xs)"

lemma fold_put_sorted:
  "\<forall>(k, _)\<in>set kvs. unat k < n \<Longrightarrow> n + length xs \<le> 2 ^ 32 \<Longrightarrow>
   fold (\<lambda>(i, x) kvs. put_sorted (of_nat i :: u32) x kvs) (enumerate n xs) kvs = kvs @ body_entries n xs"
proof (induction xs arbitrary: n kvs)
  case (Cons x xs)
  have n: "unat (of_nat n :: u32) = n" using Cons.prems(2) by (intro unat_of_nat_u32) simp
  then have "put_sorted (of_nat n) x kvs = kvs @ [(of_nat n :: u32, x)]"
    using Cons.prems(1) by (intro put_sorted_last) (auto simp: word_less_nat_alt)
  then show ?case
    using Cons.IH [of "kvs @ [(of_nat n, x)]" "Suc n"] Cons.prems n by (fastforce simp: body_entries_def)
qed (simp add: body_entries_def)

lemma map_of_body_entries:
  assumes "i < length xs" and "n + length xs \<le> 2 ^ 32"
  shows "map_of (body_entries n xs) (of_nat (n + i)) = Some (xs ! i)"
  using assms
proof (induction xs arbitrary: n i)
  case (Cons x xs)
  have inj: "(of_nat n :: u32) \<noteq> of_nat (n + Suc j)" if "j < length xs" for j
  proof
    assume "(of_nat n :: u32) = of_nat (n + Suc j)"
    then have "unat (of_nat n :: u32) = unat (of_nat (n + Suc j) :: u32)" by (rule arg_cong)
    then show False using Cons.prems(2) that unat_of_nat_u32 [of n] unat_of_nat_u32 [of "n + Suc j"] by auto
  qed
  show ?case
  proof (cases i)
    case (Suc j)
    then show ?thesis using Cons.IH [of j "Suc n"] Cons.prems inj [of j] by (simp add: body_entries_def)
  qed (simp add: body_entries_def)
qed simp

lemma fold_put_body:
  "fold (\<lambda>x s. s\<lparr>st_body := (st_body s)(h := f x (st_body s h))\<rparr>) xs s =
     s\<lparr>st_body := (st_body s)(h := fold f xs (st_body s h))\<rparr>"
  by (induction xs arbitrary: s) simp_all

lemma insert_block_columns:
  "insert_block b s = s\<lparr>st_header := (st_header s)(bv_hash b \<mapsto> bv_header b),
     st_uncle := (st_uncle s)(bv_hash b \<mapsto> (b_uncles b, bv_uncle_hashes b)),
     st_proposals := (st_proposals s)(bv_hash b \<mapsto> b_proposals b),
     st_body := (st_body s)(bv_hash b := fold (\<lambda>(i, x) kvs. put_sorted (of_nat i :: u32) x kvs)
       (enumerate 0 (bv_transactions b)) (st_body s (bv_hash b)))\<rparr>"
  by (simp add: insert_block_def Let_def case_prod_unfold
      fold_put_body [where f = "\<lambda>p. put_sorted (of_nat (fst p)) (snd p)"])

lemma insert_block_fresh:
  assumes "st_body s (bv_hash b) = []" and "length (bv_transactions b) \<le> 2 ^ 32"
  shows "st_body (insert_block b s) (bv_hash b) = body_entries 0 (bv_transactions b)"
  using assms fold_put_sorted [of "[]" 0 "bv_transactions b"] by (simp add: insert_block_columns)

text \<open>The caches of a block view have one hash for each transaction.\<close>

definition view_ok :: "block_view \<Rightarrow> bool" where
  "view_ok b \<longleftrightarrow> length (bv_tx_hashes b) = length (b_transactions b) \<and>
     length (bv_tx_witness_hashes b) = length (b_transactions b)"

lemma view_ok_transactions:
  assumes "view_ok b"
  shows "map transaction.truncate (bv_transactions b) = b_transactions b"
    and "map tx_hash (bv_transactions b) = bv_tx_hashes b"
    and "map tx_witness_hash (bv_transactions b) = bv_tx_witness_hashes b"
    and "length (bv_transactions b) = length (b_transactions b)"
  using assms
  by (auto simp: bv_transactions_def view_ok_def tx_view_def transaction.defs intro!: nth_equalityI)

section \<open>The store as a provider\<close>

interpretation store_source: cell_source "store_cell X s" for X s
proof
  fix p w e c
  show "store_cell X s p w \<noteq> Err e"
    by (auto simp: store_cell_def get_cell_meta_def Let_def outcome_simps split: option.splits bool.splits)
  show "store_cell X s p w = Ok (Live c) \<Longrightarrow> cm_out_point c = p"
    by (auto simp: store_cell_def get_cell_meta_def Let_def outcome_simps out_point_new_def
        split: option.splits bool.splits if_splits)
qed

text \<open>A block over the store, as the chain resolves transactions.\<close>

interpretation chain_source: cell_source "overlay_cell (block_cell X b m) (store_cell X s)" for X b m s
  by (rule overlay_cell_source [OF block_source.cell_source_axioms store_source.cell_source_axioms])

section \<open>Properties\<close>

text \<open>
  A stored block reads back unchanged: after \<open>insert_block\<close> the accessor \<open>get_block\<close> puts the
  same block view together from the header, uncle, proposal and body columns, with the
  transactions in their order.
\<close>

theorem get_inserted_block:
  assumes "view_ok b" and "st_body s (bv_hash b) = []" and "length (b_transactions b) \<le> 2 ^ 32"
  shows "get_block (insert_block b s) (bv_hash b) = Ok (Some b)"
proof -
  have "get_block_body (insert_block b s) (bv_hash b) = bv_transactions b"
    using insert_block_fresh [OF assms(2)] assms(1,3) view_ok_transactions(4)
    by (simp add: get_block_body_def body_entries_def case_prod_unfold comp_def)
  then show ?thesis
    using view_ok_transactions [OF assms(1)]
    by (simp add: get_block_def get_block_header_def get_block_uncles_def get_block_proposal_txs_ids_def
        insert_block_columns new_unchecked_def bv_header_def header_view_of_def header.defs block.defs)
qed

theorem get_inserted_block_witness:
  "get_block (insert_block example_spend_block store_empty) (replicate 32 5) = Ok (Some example_spend_block)"
  using get_inserted_block [of example_spend_block store_empty]
  by (simp add: view_ok_def example_spend_block_def block.defs store_empty_def)

end
