(* ===== verification/Dao.thy ===== *)
theory Dao
  imports Store
begin

text \<open>
  The NervosDAO accounting: the packed field of a header and its genesis value
  (\<open>util/dao/utils/src/lib.rs\<close>) and the calculator over the chain store
  (\<open>util/dao/src/lib.rs\<close>). Products are taken in \<open>u128\<close> as in the code, so that the conversions
  back to \<open>u64\<close> are visible. A \<open>Byte32\<close> has 32 bytes, so that the ranges of the field exist.
\<close>

section \<open>The field of a header\<close>

definition DEFAULT_ACCUMULATED_RATE :: u64 where "DEFAULT_ACCUMULATED_RATE = 10000000000000000"

definition read_u64 :: "bytes \<Rightarrow> u64" where
  "read_u64 bs = from_le_bytes (take 8 bs)"

definition extract_dao_data :: "byte32 \<Rightarrow> (u64 \<times> capacity \<times> capacity \<times> capacity) result" where
  "extract_dao_data d =
     (let c = read_u64 d; ar = read_u64 (drop 8 d); s = read_u64 (drop 16 d); u = read_u64 (drop 24 d)
      in Ok (ar, c, s, u))"

definition pack_dao_data :: "u64 \<Rightarrow> capacity \<Rightarrow> capacity \<Rightarrow> capacity \<Rightarrow> byte32" where
  "pack_dao_data ar c s u = to_le_bytes c @ to_le_bytes ar @ to_le_bytes s @ to_le_bytes u"

section \<open>The genesis value\<close>

text \<open>The unspent outputs of a genesis transaction: their capacity and their occupied capacity.\<close>

definition statistics_outputs ::
  "out_point set \<Rightarrow> bytes \<Rightarrow> ratio \<Rightarrow> nat \<Rightarrow> transaction_view \<Rightarrow> (capacity \<times> capacity) result" where
  "statistics_outputs dead_cells satoshi_pubkey_hash satoshi_cell_occupied_ratio tx_index tx =
     (let alive = (\<lambda>index. out_point_new (tx_hash tx) (of_nat index) \<notin> dead_cells) in
      tryq (cap_result (try_fold (\<lambda>capacity (_, out). safe_add capacity (co_capacity out)) 0
              (filter (\<lambda>(i, _). alive i) (enumerate 0 (tx_outputs tx))))) (\<lambda>c.
      tryq (cap_result (try_fold (\<lambda>capacity (_, out, d).
              tryq (if tx_index = 0 \<and> sc_args (co_lock out) = satoshi_pubkey_hash
                    then safe_mul_ratio (co_capacity out) satoshi_cell_occupied_ratio
                    else tryq (capacity_bytes (length d)) (cell_occupied_capacity out)) (safe_add capacity)) 0
              (filter (\<lambda>(i, _). alive i) (enumerate 0 (outputs_with_data tx))))) (\<lambda>u.
      Ok (c, u))))"

definition genesis_dao_data_with_satoshi_gift ::
  "transaction_view list \<Rightarrow> bytes \<Rightarrow> ratio \<Rightarrow> capacity \<Rightarrow> capacity \<Rightarrow> byte32 result" where
  "genesis_dao_data_with_satoshi_gift txs satoshi_pubkey_hash satoshi_cell_occupied_ratio
     initial_primary_issuance initial_secondary_issuance =
     (let dead_cells = set (concat (map input_pts txs)) in
      tryq (cap_result (safe_add initial_primary_issuance initial_secondary_issuance)) (\<lambda>initial_issuance.
      tryq (try_fold (\<lambda>(c, u) (tx_index, tx).
              tryq (statistics_outputs dead_cells satoshi_pubkey_hash satoshi_cell_occupied_ratio tx_index tx)
                (\<lambda>(tx_c, tx_u).
              tryq (cap_result (safe_add c tx_c)) (\<lambda>c.
              tryq (cap_result (safe_add u tx_u)) (\<lambda>u. Ok (c, u)))))
              (initial_issuance, 0) (enumerate 0 txs)) (\<lambda>(c, u).
      if c = 0 then Err (DaoErr ZeroC)
      else Ok (pack_dao_data DEFAULT_ACCUMULATED_RATE c initial_secondary_issuance u))))"

section \<open>Scaled products\<close>

text \<open>\<open>u128::from(a) * u128::from(b) / u128::from(c)\<close>.\<close>

definition mul_div :: "u64 \<Rightarrow> u64 \<Rightarrow> u64 \<Rightarrow> u128 result" where
  "mul_div a b c = tryq (p_mul (ucast a) (ucast b)) (\<lambda>x. p_div x (ucast c))"

definition u64_try_from :: "u128 \<Rightarrow> u64 result" where
  "u64_try_from x = (if unat x < 2 ^ 64 then Ok (ucast x) else Err (DaoErr DaoOverflow))"

section \<open>Occupied capacities\<close>

definition modified_occupied_capacity :: "cell_meta \<Rightarrow> consensus \<Rightarrow> capacity capacity_result" where
  "modified_occupied_capacity m C =
     (case cm_transaction_info m of
        Some i \<Rightarrow>
          if ti_is_genesis i \<and> ti_is_cellbase i \<and> sc_args (co_lock (cm_cell_output m)) = c_satoshi_pubkey_hash C
          then safe_mul_ratio (co_capacity (cm_cell_output m)) (c_satoshi_cell_occupied_ratio C)
          else cm_occupied_capacity m
      | None \<Rightarrow> cm_occupied_capacity m)"

definition added_occupied_capacities :: "resolved_transaction list \<Rightarrow> capacity result" where
  "added_occupied_capacities rtxs =
     cap_result (try_fold (\<lambda>capacities rtx.
       tryq (try_fold (\<lambda>tx_capacities (out, d).
               tryq (tryq (capacity_bytes (length d)) (cell_occupied_capacity out)) (safe_add tx_capacities)) 0
               (outputs_with_data (rtx_transaction rtx))) (safe_add capacities)) 0 rtxs)"

definition input_occupied_capacities :: "consensus \<Rightarrow> resolved_transaction \<Rightarrow> capacity result" where
  "input_occupied_capacities C rtx =
     cap_result (try_fold (\<lambda>capacities m. tryq (modified_occupied_capacity m C) (safe_add capacities)) 0
       (rtx_inputs rtx))"

text \<open>The sum at the start of \<open>dao_field\<close>.\<close>

definition freed_occupied_capacities :: "consensus \<Rightarrow> resolved_transaction list \<Rightarrow> capacity result" where
  "freed_occupied_capacities C rtxs =
     try_fold (\<lambda>capacities rtx.
       tryq (input_occupied_capacities C rtx) (\<lambda>c. cap_result (safe_add capacities c))) 0 rtxs"

section \<open>Withdrawals\<close>

definition calculate_maximum_withdraw ::
  "store \<Rightarrow> cell_output \<Rightarrow> capacity \<Rightarrow> byte32 \<Rightarrow> byte32 \<Rightarrow> capacity result" where
  "calculate_maximum_withdraw s out output_data_capacity deposit_header_hash withdrawing_header_hash =
     tryq (ok_or (DaoErr DaoInvalidHeader) (get_block_header s deposit_header_hash)) (\<lambda>deposit_header.
     tryq (ok_or (DaoErr DaoInvalidHeader) (get_block_header s withdrawing_header_hash)) (\<lambda>withdrawing_header.
     if h_number withdrawing_header \<le> h_number deposit_header then Err (DaoErr DaoInvalidOutPoint)
     else
       tryq (extract_dao_data (h_dao deposit_header)) (\<lambda>(deposit_ar, _, _, _).
       tryq (extract_dao_data (h_dao withdrawing_header)) (\<lambda>(withdrawing_ar, _, _, _).
       tryq (cap_result (cell_occupied_capacity out output_data_capacity)) (\<lambda>occupied_capacity.
       tryq (cap_result (safe_sub (co_capacity out) occupied_capacity)) (\<lambda>counted_capacity.
       tryq (mul_div counted_capacity withdrawing_ar deposit_ar) (\<lambda>withdraw_counted_capacity.
       cap_result (safe_add (ucast withdraw_counted_capacity) occupied_capacity))))))))"

definition maximum_withdraw :: "store \<Rightarrow> out_point \<Rightarrow> byte32 \<Rightarrow> capacity result" where
  "maximum_withdraw s p withdrawing_header_hash =
     tryq (tryq (get_transaction s (op_tx_hash p)) (ok_or (DaoErr DaoInvalidOutPoint))) (\<lambda>(tx, block_hash).
     tryq (ok_or (DaoErr DaoInvalidOutPoint) (vec_get (tx_outputs tx) (unat (op_index p)))) (\<lambda>out.
     tryq (ok_or (DaoErr DaoInvalidOutPoint) (vec_get (tx_outputs_data tx) (unat (op_index p)))) (\<lambda>output_data.
     tryq (cap_result (capacity_bytes (length output_data))) (\<lambda>c.
     calculate_maximum_withdraw s out c block_hash withdrawing_header_hash))))"

definition is_dao_type_script :: "consensus \<Rightarrow> script \<Rightarrow> bool result" where
  "is_dao_type_script C t =
     (if sc_hash_type t = 1 then tryq (expect (c_dao_type_hash C)) (\<lambda>h. Ok (sc_code_hash t = h)) else Ok False)"

definition is_withdrawing_input :: "'z ext_scheme \<Rightarrow> store \<Rightarrow> cell_meta \<Rightarrow> bool" where
  "is_withdrawing_input X s m =
     (case load_cell_data X s m of
        Some (d, _) \<Rightarrow> length d = 8 \<and> 0 < read_u64 d
      | None \<Rightarrow> False)"

text \<open>The index of the deposit header among the header dependencies, from the witness of an input.\<close>

definition header_dep_index :: "'z ext_scheme \<Rightarrow> transaction_view \<Rightarrow> nat \<Rightarrow> u64 result" where
  "header_dep_index X tx i =
     tryq (ok_or (DaoErr DaoInvalidOutPoint) (vec_get (tx_witnesses tx) i)) (\<lambda>witness_data.
     tryq (map_err (\<lambda>_. DaoErr InvalidDaoFormat)
             (from_slice (witness_args_verify X) (witness_args_read X) witness_data)) (\<lambda>witness.
     case wa_input_type witness of
       None \<Rightarrow> Err (DaoErr InvalidDaoFormat)
     | Some d \<Rightarrow> if length d \<noteq> 8 then Err (DaoErr InvalidDaoFormat) else Ok (read_u64 d)))"

definition input_maximum_withdraw ::
  "'z ext_scheme \<Rightarrow> consensus \<Rightarrow> store \<Rightarrow> resolved_transaction \<Rightarrow> nat \<Rightarrow> cell_meta \<Rightarrow> capacity result" where
  "input_maximum_withdraw X C s rtx i m =
     (let out = cm_cell_output m; tx = rtx_transaction rtx; header_deps = set (tx_header_deps tx) in
      tryq (case co_type out of None \<Rightarrow> Ok False | Some t \<Rightarrow> is_dao_type_script C t) (\<lambda>is_dao.
      if is_dao \<and> is_withdrawing_input X s m then
        tryq (case cm_transaction_info m of
                Some info \<Rightarrow> if ti_block_hash info \<in> header_deps then Ok (ti_block_hash info)
                             else Err (DaoErr DaoInvalidOutPoint)
              | None \<Rightarrow> Err (DaoErr DaoInvalidOutPoint)) (\<lambda>withdrawing_header_hash.
        tryq (tryq (header_dep_index X tx i) (\<lambda>k.
                case vec_get (tx_header_deps tx) (unat k) of
                  Some h \<Rightarrow> if h \<in> header_deps then Ok h else Err (DaoErr DaoInvalidOutPoint)
                | None \<Rightarrow> Err (DaoErr DaoInvalidOutPoint))) (\<lambda>deposit_header_hash.
        tryq (cap_result (capacity_bytes (unat (cm_data_bytes m)))) (\<lambda>c.
        calculate_maximum_withdraw s out c deposit_header_hash withdrawing_header_hash)))
      else Ok (co_capacity out)))"

definition transaction_maximum_withdraw ::
  "'z ext_scheme \<Rightarrow> consensus \<Rightarrow> store \<Rightarrow> resolved_transaction \<Rightarrow> capacity result" where
  "transaction_maximum_withdraw X C s rtx =
     try_fold (\<lambda>capacities (i, m).
       tryq (input_maximum_withdraw X C s rtx i m) (\<lambda>c. cap_result (safe_add c capacities))) 0
       (enumerate 0 (rtx_inputs rtx))"

definition transaction_fee ::
  "'z ext_scheme \<Rightarrow> consensus \<Rightarrow> store \<Rightarrow> resolved_transaction \<Rightarrow> capacity result" where
  "transaction_fee X C s rtx =
     tryq (transaction_maximum_withdraw X C s rtx) (\<lambda>maximum_withdraw.
     cap_result (tryq (outputs_capacity (rtx_transaction rtx)) (safe_sub maximum_withdraw)))"

definition withdrawed_interests ::
  "'z ext_scheme \<Rightarrow> consensus \<Rightarrow> store \<Rightarrow> resolved_transaction list \<Rightarrow> capacity result" where
  "withdrawed_interests X C s rtxs =
     tryq (try_fold (\<lambda>capacities rtx.
             tryq (transaction_maximum_withdraw X C s rtx) (\<lambda>c. cap_result (safe_add capacities c))) 0 rtxs)
       (\<lambda>maximum_withdraws.
     tryq (cap_result (try_fold (\<lambda>capacities rtx.
             tryq (try_fold (\<lambda>tx_capacities m. safe_add tx_capacities (co_capacity (cm_cell_output m))) 0
                     (rtx_inputs rtx)) (safe_add capacities)) 0 rtxs)) (\<lambda>input_capacities.
     cap_result (safe_sub maximum_withdraws input_capacities)))"

section \<open>Block rewards\<close>

definition primary_block_reward :: "store \<Rightarrow> header_view \<Rightarrow> capacity result" where
  "primary_block_reward s target =
     tryq (ok_or (DaoErr DaoInvalidHeader)
             (Option.bind (get_block_epoch_index s (h_hash target)) (get_epoch_ext s))) (\<lambda>target_epoch.
     ee_block_reward target_epoch (h_number target))"

definition secondary_block_reward :: "consensus \<Rightarrow> store \<Rightarrow> header_view \<Rightarrow> capacity result" where
  "secondary_block_reward C s target =
     (if h_number target = 0 then Ok 0
      else
        tryq (ok_or (DaoErr DaoInvalidHeader) (get_block_header s (h_parent_hash target))) (\<lambda>target_parent.
        tryq (ok_or (DaoErr DaoInvalidHeader)
                (Option.bind (get_block_epoch_index s (h_hash target)) (get_epoch_ext s))) (\<lambda>target_epoch.
        tryq (ee_secondary_block_issuance target_epoch (h_number target) (c_secondary_epoch_reward C)) (\<lambda>target_g2.
        tryq (extract_dao_data (h_dao target_parent)) (\<lambda>(_, target_parent_c, _, target_parent_u).
        tryq (mul_div target_g2 target_parent_u target_parent_c) (\<lambda>reward128.
        u64_try_from reward128))))))"

definition base_block_reward :: "consensus \<Rightarrow> store \<Rightarrow> header_view \<Rightarrow> capacity result" where
  "base_block_reward C s parent =
     tryq (p_add (h_number parent) 1) (\<lambda>n.
     tryq (tryq (finalize_target C n) (ok_or (DaoErr DaoInvalidHeader))) (\<lambda>target_number.
     tryq (ok_or (DaoErr DaoInvalidHeader)
             (Option.bind (get_block_hash s target_number) (get_block_header s))) (\<lambda>target.
     tryq (primary_block_reward s target) (\<lambda>primary.
     tryq (secondary_block_reward C s target) (\<lambda>secondary.
     cap_result (safe_add primary secondary))))))"

section \<open>The field of the next block\<close>

definition dao_field ::
  "'z ext_scheme \<Rightarrow> consensus \<Rightarrow> store \<Rightarrow> resolved_transaction list \<Rightarrow> header_view \<Rightarrow> byte32 result" where
  "dao_field X C s rtxs parent =
     tryq (freed_occupied_capacities C rtxs) (\<lambda>freed_occupied_capacities.
     tryq (added_occupied_capacities rtxs) (\<lambda>added_occupied_capacities.
     tryq (withdrawed_interests X C s rtxs) (\<lambda>withdrawed_interests.
     tryq (extract_dao_data (h_dao parent)) (\<lambda>(parent_ar, parent_c, parent_s, parent_u).
     tryq (ok_or (DaoErr DaoInvalidHeader)
             (Option.bind (get_block_epoch_index s (h_hash parent)) (get_epoch_ext s))) (\<lambda>parent_block_epoch.
     tryq (store_next_epoch_ext X s C parent_block_epoch parent) (\<lambda>next_epoch.
     let current_block_epoch = (case next_epoch of Some e \<Rightarrow> e | None \<Rightarrow> parent_block_epoch) in
     tryq (p_add (h_number parent) 1) (\<lambda>current_block_number.
     tryq (ee_secondary_block_issuance current_block_epoch current_block_number (c_secondary_epoch_reward C)) (\<lambda>current_g2.
     tryq (tryq (ee_block_reward current_block_epoch current_block_number) (\<lambda>c. cap_result (safe_add c current_g2)))
       (\<lambda>current_g.
     tryq (mul_div current_g2 parent_u parent_c) (\<lambda>miner_issuance128.
     tryq (u64_try_from miner_issuance128) (\<lambda>miner_issuance.
     tryq (cap_result (safe_sub current_g2 miner_issuance)) (\<lambda>nervosdao_issuance.
     tryq (cap_result (safe_add parent_c current_g)) (\<lambda>current_c.
     tryq (cap_result (tryq (safe_add parent_u added_occupied_capacities) (\<lambda>u. safe_sub u freed_occupied_capacities)))
       (\<lambda>current_u.
     tryq (cap_result (tryq (safe_add parent_s nervosdao_issuance) (\<lambda>s. safe_sub s withdrawed_interests)))
       (\<lambda>current_s.
     tryq (mul_div parent_ar current_g2 parent_c) (\<lambda>ar_increase128.
     tryq (u64_try_from ar_increase128) (\<lambda>ar_increase.
     tryq (ok_or (DaoErr DaoOverflow) (checked_add parent_ar ar_increase)) (\<lambda>current_ar.
     Ok (pack_dao_data current_ar current_c current_s current_u)))))))))))))))))))"

section \<open>Exactness of the products\<close>

lemma unat_ucast_128 [simp]: "unat (ucast (x :: u64) :: u128) = unat x"
  using unat_bound [of x] by (simp add: unsigned_ucast_eq take_bit_eq_mod)

lemma mul_div_eq_Ok [panic_simps]:
  "mul_div a b c = Ok x \<longleftrightarrow> c \<noteq> 0 \<and> unat x = unat a * unat b div unat c"
proof -
  have "unat a * unat b < 2 ^ 64 * 2 ^ 64"
    using unat_bound [of a] unat_bound [of b] by (intro mult_strict_mono) auto
  then have "unat (ucast a * ucast b :: u128) = unat a * unat b" by (simp add: unat_mul_exact)
  moreover have "unat a * unat b < 2 ^ 128" using \<open>unat a * unat b < 2 ^ 64 * 2 ^ 64\<close> by simp
  moreover have "(ucast c :: u128) = 0 \<longleftrightarrow> c = 0" by (metis unat_eq_0 unat_ucast_128)
  ultimately show ?thesis
    by (auto simp: mul_div_def tryq_eq_Ok panic_simps intro!: exI [of _ "ucast a * ucast b"])
qed

lemma mul_div_not_Err [panic_simps]: "mul_div a b c \<noteq> Err e"
  by (simp add: mul_div_def tryq_eq_Err panic_simps)

lemma u64_try_from_eq_Ok [panic_simps]: "u64_try_from x = Ok y \<longleftrightarrow> unat x < 2 ^ 64 \<and> unat y = unat x"
proof -
  have "unat x < 2 ^ 64 \<Longrightarrow> unat (ucast x :: u64) = unat x" by (simp add: unsigned_ucast_eq take_bit_eq_mod)
  then show ?thesis by (auto simp: u64_try_from_def intro: unat_eqI)
qed

lemma unat_ucast_64: "unat (ucast (x :: u128) :: u64) = unat x mod 2 ^ 64"
  by (simp add: unsigned_ucast_eq take_bit_eq_mod)

section \<open>The packed field\<close>

lemma read_u64_field: "read_u64 (to_le_bytes (x :: u64) @ bs) = x"
  by (simp add: read_u64_def from_to_le_bytes)

lemma extract_pack: "extract_dao_data (pack_dao_data ar c s u) = Ok (ar, c, s, u)"
proof -
  have l: "length (to_le_bytes (x :: u64)) = 8" for x by simp
  have "read_u64 (to_le_bytes u) = u" using read_u64_field [of u "[]"] by simp
  then show ?thesis by (simp add: extract_dao_data_def pack_dao_data_def Let_def l read_u64_field)
qed

lemma length_pack_dao_data [simp]: "length (pack_dao_data ar c s u) = 32"
  by (simp add: pack_dao_data_def)

lemma pack_extract:
  assumes "length d = 32" and "extract_dao_data d = Ok (ar, c, s, u)"
  shows "pack_dao_data ar c s u = d"
proof -
  have r: "to_le_bytes (read_u64 bs) = take 8 bs" if "8 \<le> length bs" for bs
    using that to_from_le_bytes [where 'a = 64, of "take 8 bs"] by (simp add: read_u64_def)
  have "take 8 d @ take 8 (drop 8 d) @ take 8 (drop 16 d) @ take 8 (drop 24 d) = d"
    using take_add [of 8 8 d] take_add [of 16 8 d] take_add [of 24 8 d] assms(1) by simp
  then show ?thesis
    using assms by (auto simp: pack_dao_data_def extract_dao_data_def Let_def r)
qed

section \<open>Sums\<close>

lemma withdraw_parts:
  assumes "transaction_maximum_withdraw X C s rtx = Ok w"
  shows "\<exists>cs. list_all2 (\<lambda>(i, m) c. input_maximum_withdraw X C s rtx i m = Ok c) (enumerate 0 (rtx_inputs rtx)) cs \<and>
     unat w = sum_list (map unat cs)"
proof -
  have eq: "transaction_maximum_withdraw X C s rtx =
      try_fold (\<lambda>capacities x. tryq ((\<lambda>(i, m). input_maximum_withdraw X C s rtx i m) x)
        (\<lambda>c. cap_result (safe_add c capacities))) 0 (enumerate 0 (rtx_inputs rtx))"
    unfolding transaction_maximum_withdraw_def by (simp add: case_prod_unfold)
  obtain cs where "list_all2 (\<lambda>x y. (case x of (i, m) \<Rightarrow> input_maximum_withdraw X C s rtx i m) = Ok y)
      (enumerate 0 (rtx_inputs rtx)) cs" "unat w = unat (0 :: u64) + sum_list (map unat cs)"
    using rcap_flip.try_fold_map_sum [OF assms [unfolded eq]] by blast
  then show ?thesis by (auto simp: case_prod_unfold)
qed

text \<open>An input that is not a deposit: without type script, or with one that is not the NervosDAO's.\<close>

definition not_dao :: "consensus \<Rightarrow> cell_meta \<Rightarrow> bool" where
  "not_dao C m \<longleftrightarrow> (case co_type (cm_cell_output m) of None \<Rightarrow> True | Some t \<Rightarrow> is_dao_type_script C t = Ok False)"

lemma input_withdraw_plain:
  "not_dao C m \<Longrightarrow> input_maximum_withdraw X C s rtx i m = Ok (cm_capacity m)"
  by (auto simp: input_maximum_withdraw_def not_dao_def Let_def cm_capacity_def split: option.splits)

lemma plain_inputs_withdraw:
  assumes "transaction_maximum_withdraw X C s rtx = Ok w" and "\<forall>m\<in>set (rtx_inputs rtx). not_dao C m"
  shows "unat w = sum_list (map (\<lambda>m. unat (cm_capacity m)) (rtx_inputs rtx))"
proof -
  obtain cs where cs: "list_all2 (\<lambda>(i, m) c. input_maximum_withdraw X C s rtx i m = Ok c) (enumerate 0 (rtx_inputs rtx)) cs"
      "unat w = sum_list (map unat cs)" using withdraw_parts [OF assms(1)] by blast
  have l: "length cs = length (rtx_inputs rtx)" using list_all2_lengthD [OF cs(1)] by simp
  have "cs = map cm_capacity (rtx_inputs rtx)"
  proof (rule nth_equalityI)
    fix i
    assume i: "i < length cs"
    then have "input_maximum_withdraw X C s rtx i (rtx_inputs rtx ! i) = Ok (cs ! i)"
      using list_all2_nthD2 [OF cs(1) i] l by (simp add: nth_enumerate_eq)
    moreover have "not_dao C (rtx_inputs rtx ! i)" using assms(2) i l by simp
    ultimately show "cs ! i = map cm_capacity (rtx_inputs rtx) ! i"
      using i l by (simp add: input_withdraw_plain)
  qed (simp add: l)
  then show ?thesis using cs(2) by (simp add: o_def)
qed

lemma fee_parts:
  assumes "transaction_fee X C s rtx = Ok fee"
  shows "\<exists>w. transaction_maximum_withdraw X C s rtx = Ok w \<and>
     unat fee + sum_list (map (\<lambda>out. unat (co_capacity out)) (tx_outputs (rtx_transaction rtx))) = unat w"
proof -
  obtain w outs where w: "transaction_maximum_withdraw X C s rtx = Ok w"
      "outputs_capacity (rtx_transaction rtx) = Ok outs" "safe_sub w outs = Ok fee"
    using assms by (auto simp: transaction_fee_def outcome_simps)
  then show ?thesis
    using total_capacity_eq_Ok [of "tx_outputs (rtx_transaction rtx)" outs]
    by (auto simp: outputs_capacity_def checked_simps)
qed

section \<open>The field of the next block\<close>

lemma dao_field_parts:
  assumes "dao_field X C s rtxs parent = Ok f" and "extract_dao_data (h_dao parent) = Ok (ar, c, sv, u)"
  shows "\<exists>e ne n g g2 freed added interests (miner :: u64) (incr :: u64) c' s' u' ar'.
     get_block_epoch s (h_hash parent) = Some e \<and> store_next_epoch_ext X s C e parent = Ok ne \<and>
     p_add (h_number parent) 1 = (Ok n :: u64 result) \<and>
     ee_block_reward (case ne of Some e' \<Rightarrow> e' | None \<Rightarrow> e) n = Ok g \<and>
     ee_secondary_block_issuance (case ne of Some e' \<Rightarrow> e' | None \<Rightarrow> e) n (c_secondary_epoch_reward C) = Ok g2 \<and>
     freed_occupied_capacities C rtxs = Ok freed \<and> added_occupied_capacities rtxs = Ok added \<and>
     withdrawed_interests X C s rtxs = Ok interests \<and> c \<noteq> 0 \<and>
     unat miner = unat g2 * unat u div unat c \<and> unat incr = unat ar * unat g2 div unat c \<and> unat miner \<le> unat g2 \<and>
     unat c' = unat c + (unat g + unat g2) \<and> unat u' + unat freed = unat u + unat added \<and>
     unat s' + unat interests = unat sv + (unat g2 - unat miner) \<and> unat ar' = unat ar + unat incr \<and>
     f = pack_dao_data ar' c' s' u'"
proof -
  obtain e ne n g g2 gt freed added interests miner128 miner nd incr128 incr c' u1 u' s1 s' ar' where parts:
     "get_block_epoch s (h_hash parent) = Some e" "store_next_epoch_ext X s C e parent = Ok ne"
     "p_add (h_number parent) 1 = (Ok n :: u64 result)"
     "ee_block_reward (case ne of Some e' \<Rightarrow> e' | None \<Rightarrow> e) n = Ok g"
     "ee_secondary_block_issuance (case ne of Some e' \<Rightarrow> e' | None \<Rightarrow> e) n (c_secondary_epoch_reward C) = Ok g2"
     "freed_occupied_capacities C rtxs = Ok freed" "added_occupied_capacities rtxs = Ok added"
     "withdrawed_interests X C s rtxs = Ok interests"
     "mul_div g2 u c = Ok miner128" "u64_try_from miner128 = Ok miner" "safe_sub g2 miner = Ok nd"
     "safe_add g g2 = Ok gt" "safe_add c gt = Ok c'" "safe_add u added = Ok u1" "safe_sub u1 freed = Ok u'"
     "safe_add sv nd = Ok s1" "safe_sub s1 interests = Ok s'"
     "mul_div ar g2 c = Ok incr128" "u64_try_from incr128 = Ok incr" "checked_add ar incr = Some ar'"
     "f = pack_dao_data ar' c' s' u'"
    using assms(1) unfolding dao_field_def assms(2) Let_def get_block_epoch_def
    by (auto simp: tryq_eq_Ok cap_result_eq_Ok ok_or_eq_Ok)
  have "c \<noteq> 0" "unat miner128 = unat g2 * unat u div unat c" "unat incr128 = unat ar * unat g2 div unat c"
    using parts(9,18) by (simp_all add: mul_div_eq_Ok)
  moreover have "unat miner = unat miner128" "unat incr = unat incr128" using parts(10,19) by (simp_all add: u64_try_from_eq_Ok)
  moreover have "unat miner \<le> unat g2" "unat nd = unat g2 - unat miner" using parts(11) by (simp_all add: safe_sub_eq_Ok)
  moreover have "unat gt = unat g + unat g2" "unat c' = unat c + unat gt" "unat u1 = unat u + unat added"
      "unat s1 = unat sv + unat nd" using parts(12,13,14,16) by (simp_all add: safe_add_eq_Ok)
  moreover have "unat freed \<le> unat u1" "unat u' = unat u1 - unat freed" "unat interests \<le> unat s1"
      "unat s' = unat s1 - unat interests" using parts(15,17) by (simp_all add: safe_sub_eq_Ok)
  moreover have "unat ar' = unat ar + unat incr" using parts(20) by (simp add: checked_add_eq_Some)
  ultimately have nums: "c \<noteq> 0" "unat miner = unat g2 * unat u div unat c" "unat incr = unat ar * unat g2 div unat c"
      "unat miner \<le> unat g2" "unat c' = unat c + (unat g + unat g2)" "unat u' + unat freed = unat u + unat added"
      "unat s' + unat interests = unat sv + (unat g2 - unat miner)" "unat ar' = unat ar + unat incr"
    by linarith+
  show ?thesis by (intro exI conjI) (rule parts nums)+
qed

section \<open>Withdrawals\<close>

lemma withdraw_exact:
  assumes "calculate_maximum_withdraw s out d dh wh = Ok w"
  shows "\<exists>deposit withdrawing occupied ar_d ar_w. get_block_header s dh = Some deposit \<and>
     get_block_header s wh = Some withdrawing \<and> h_number deposit < h_number withdrawing \<and>
     extract_dao_data (h_dao deposit) = Ok ar_d \<and> extract_dao_data (h_dao withdrawing) = Ok ar_w \<and> fst ar_d \<noteq> 0 \<and>
     cell_occupied_capacity out d = Ok occupied \<and> unat occupied \<le> unat (co_capacity out) \<and>
     unat w = unat occupied +
       (unat (co_capacity out) - unat occupied) * unat (fst ar_w) div unat (fst ar_d) mod 2 ^ 64"
proof -
  obtain deposit withdrawing where h: "get_block_header s dh = Some deposit" "get_block_header s wh = Some withdrawing"
      "h_number deposit < h_number withdrawing"
    using assms by (auto simp: calculate_maximum_withdraw_def tryq_eq_Ok ok_or_eq_Ok not_le split: if_splits)
  obtain ar_d ar_w where ar: "extract_dao_data (h_dao deposit) = Ok ar_d" "extract_dao_data (h_dao withdrawing) = Ok ar_w"
    by (simp add: extract_dao_data_def Let_def)
  obtain occupied counted x where x: "cell_occupied_capacity out d = Ok occupied"
      "safe_sub (co_capacity out) occupied = Ok counted" "mul_div counted (fst ar_w) (fst ar_d) = Ok x"
      "safe_add (ucast x) occupied = Ok w"
    using assms h(3) unfolding calculate_maximum_withdraw_def h ok_or.simps tryq.simps ar
    by (auto simp: tryq_eq_Ok cap_result_eq_Ok case_prod_unfold not_le [symmetric])
  have "unat counted = unat (co_capacity out) - unat occupied" "unat occupied \<le> unat (co_capacity out)"
    using x(2) by (simp_all add: safe_sub_eq_Ok)
  moreover have "fst ar_d \<noteq> 0" "unat x = unat counted * unat (fst ar_w) div unat (fst ar_d)"
    using x(3) by (simp_all add: mul_div_eq_Ok)
  moreover have "unat w = unat x mod 2 ^ 64 + unat occupied" using x(4) by (simp only: safe_add_eq_Ok unat_ucast_64)
  ultimately have nums: "fst ar_d \<noteq> 0" "unat occupied \<le> unat (co_capacity out)"
      "unat w = unat occupied + (unat (co_capacity out) - unat occupied) * unat (fst ar_w) div unat (fst ar_d) mod 2 ^ 64"
    by (simp_all only: add.commute not_False_eq_True)
  show ?thesis by (intro exI conjI) (rule h ar x(1) nums)+
qed

section \<open>An example\<close>

text \<open>A deposit and a withdrawing header, and a cell of 200 bytes with 62 bytes occupied.\<close>

definition example_deposit_header :: header_view where
  "example_deposit_header = header_view_of
     (example_header\<lparr>h_number := 10, h_dao := pack_dao_data 1000 500000 700 100000\<rparr>) (replicate 32 1)"

definition example_withdraw_header :: header_view where
  "example_withdraw_header = header_view_of
     (example_header\<lparr>h_number := 20, h_dao := pack_dao_data 1500 600000 700 100000\<rparr>) (replicate 32 2)"

definition example_dao_store :: store where
  "example_dao_store = store_empty\<lparr>
     st_header := [replicate 32 1 \<mapsto> example_deposit_header, replicate 32 2 \<mapsto> example_withdraw_header],
     st_block_epoch := [replicate 32 1 \<mapsto> replicate 32 3],
     st_epoch := [replicate 32 3 \<mapsto> example_epoch\<lparr>ee_start_number := 0, ee_length := 100, ee_base_block_reward := 50\<rparr>]\<rparr>"

definition example_dao_output :: cell_output where
  "example_dao_output = \<lparr>co_capacity = 20000000000,
     co_lock = \<lparr>sc_code_hash = byte32_zero, sc_hash_type = 0, sc_args = replicate 20 0\<rparr>, co_type = None\<rparr>"

lemma example_occupied: "cell_occupied_capacity example_dao_output 0 = Ok 6100000000"
  by (simp add: cell_occupied_capacity_def example_dao_output_def script_occupied_capacity_def capacity_bytes_def
      checked_mul_def BYTE_SHANNONS_def safe_add_def checked_add_def)

lemma example_dao_sel:
  "get_block_header example_dao_store (replicate 32 1) = Some example_deposit_header"
  "get_block_header example_dao_store (replicate 32 2) = Some example_withdraw_header"
  "h_number example_deposit_header = 10" "h_number example_withdraw_header = 20"
  "extract_dao_data (h_dao example_deposit_header) = Ok (1000, 500000, 700, 100000)"
  "extract_dao_data (h_dao example_withdraw_header) = Ok (1500, 600000, 700, 100000)"
  by (simp_all add: get_block_header_def example_dao_store_def example_deposit_header_def example_withdraw_header_def
      extract_pack)

lemma example_withdraw:
  "calculate_maximum_withdraw example_dao_store example_dao_output 0 (replicate 32 1) (replicate 32 2) = Ok 26950000000"
proof -
  have c: "co_capacity example_dao_output = 20000000000" by (simp add: example_dao_output_def)
  have m: "mul_div 13900000000 1500 1000 = Ok 20850000000" by (simp add: mul_div_eq_Ok)
  have u: "(ucast (20850000000 :: u128) :: u64) = 20850000000" by (rule unat_eqI) (simp add: unat_ucast_64)
  show ?thesis
    by (simp add: calculate_maximum_withdraw_def example_dao_sel example_occupied safe_sub_def checked_sub_def
      c m u safe_add_def checked_add_def)
qed

lemma example_dao_field:
  "dao_field ext_word example_consensus example_dao_store [] example_deposit_header =
     Ok (pack_dao_data 1227398260 613699130187 490958904810 100000)"
proof -
  let ?e = "example_epoch\<lparr>ee_start_number := 0, ee_length := 100, ee_base_block_reward := 50\<rparr>"
  have e: "Option.bind (get_block_epoch_index example_dao_store (h_hash example_deposit_header)) (get_epoch_ext example_dao_store) = Some ?e"
    by (simp add: get_block_epoch_index_def get_epoch_ext_def example_dao_store_def example_deposit_header_def)
  have n: "store_next_epoch_ext ext_word example_dao_store example_consensus ?e example_deposit_header = Ok None"
    by (simp add: store_next_epoch_ext_def next_epoch_ext_def p_add_def checked_add_def p_sub_def checked_sub_def
        example_dao_sel Let_def)
  have g: "ee_block_reward ?e 11 = Ok 50"
    by (simp add: ee_block_reward_def example_epoch_def p_add_def checked_add_def)
  have g2: "ee_secondary_block_issuance ?e 11 (c_secondary_epoch_reward example_consensus) = Ok 613698630137"
    by (simp add: ee_secondary_block_issuance_def example_consensus_def p_div_def checked_div_def p_mod_def
        checked_rem_def p_add_def checked_add_def safe_add_def)
  have m: "mul_div 613698630137 100000 500000 = Ok 122739726027" "mul_div 1000 613698630137 500000 = Ok 1227397260"
    by (simp_all add: mul_div_eq_Ok)
  have t: "u64_try_from 122739726027 = Ok 122739726027" "u64_try_from 1227397260 = Ok 1227397260"
    by (simp_all add: u64_try_from_eq_Ok)
  show ?thesis
    by (simp add: dao_field_def freed_occupied_capacities_def added_occupied_capacities_def withdrawed_interests_def
        example_dao_sel e n g g2 m t p_add_def checked_add_def safe_add_def safe_sub_def checked_sub_def)
qed

section \<open>Properties\<close>

text \<open>
  C9. The accounting of the DAO field: the total issuance grows by exactly the primary and the
  secondary issuance of the block, the occupied capacity changes by what the outputs add and
  the inputs free, the interest pool gains what the secondary issuance leaves after the miner's
  share and loses the interest that is paid out, the accumulated rate grows by its share, and
  none of this wraps around.
\<close>

theorem dao_field_accounting:
  assumes "dao_field X C s rtxs parent = Ok f" and "extract_dao_data (h_dao parent) = Ok (ar, c, sv, u)"
  shows "\<exists>e ne n g g2 freed added interests ar' c' s' u'.
     get_block_epoch s (h_hash parent) = Some e \<and> store_next_epoch_ext X s C e parent = Ok ne \<and>
     unat n = unat (h_number parent) + 1 \<and>
     ee_block_reward (case ne of Some e' \<Rightarrow> e' | None \<Rightarrow> e) n = Ok g \<and>
     ee_secondary_block_issuance (case ne of Some e' \<Rightarrow> e' | None \<Rightarrow> e) n (c_secondary_epoch_reward C) = Ok g2 \<and>
     freed_occupied_capacities C rtxs = Ok freed \<and> added_occupied_capacities rtxs = Ok added \<and>
     withdrawed_interests X C s rtxs = Ok interests \<and>
     extract_dao_data f = Ok (ar', c', s', u') \<and>
     unat c' = unat c + unat g + unat g2 \<and>
     unat u' + unat freed = unat u + unat added \<and>
     unat s' + unat interests = unat sv + (unat g2 - unat g2 * unat u div unat c) \<and>
     unat ar' = unat ar + unat ar * unat g2 div unat c"
proof -
  obtain e ne n g g2 freed added interests miner incr c' s' u' ar' where p:
     "get_block_epoch s (h_hash parent) = Some e" "store_next_epoch_ext X s C e parent = Ok ne"
     "p_add (h_number parent) 1 = (Ok n :: u64 result)"
     "ee_block_reward (case ne of Some e' \<Rightarrow> e' | None \<Rightarrow> e) n = Ok g"
     "ee_secondary_block_issuance (case ne of Some e' \<Rightarrow> e' | None \<Rightarrow> e) n (c_secondary_epoch_reward C) = Ok g2"
     "freed_occupied_capacities C rtxs = Ok freed" "added_occupied_capacities rtxs = Ok added"
     "withdrawed_interests X C s rtxs = Ok interests"
     "unat (miner :: u64) = unat g2 * unat u div unat c" "unat (incr :: u64) = unat ar * unat g2 div unat c"
     "unat c' = unat c + (unat g + unat g2)" "unat u' + unat freed = unat u + unat added"
     "unat s' + unat interests = unat sv + (unat g2 - unat miner)" "unat ar' = unat ar + unat incr"
     "f = pack_dao_data ar' c' s' u'"
    using dao_field_parts [OF assms] by blast
  have n: "unat n = unat (h_number parent) + 1" using p(3) by (simp add: panic_simps)
  have f: "extract_dao_data f = Ok (ar', c', s', u')" unfolding p(15) by (rule extract_pack)
  have nums: "unat c' = unat c + unat g + unat g2"
      "unat s' + unat interests = unat sv + (unat g2 - unat g2 * unat u div unat c)"
      "unat ar' = unat ar + unat ar * unat g2 div unat c"
    using p(9-14) by (simp_all only: add.assoc)
  show ?thesis by (intro exI conjI) (rule p(1,2) n p(4-8) f nums p(12))+
qed

theorem dao_field_accounting_witness:
  "\<exists>(g :: u64) (g2 :: u64). unat (613699130187 :: u64) = unat (500000 :: u64) + unat g + unat g2 \<and>
     unat (1227398260 :: u64) = unat (1000 :: u64) + unat (1000 :: u64) * unat g2 div unat (500000 :: u64)"
proof -
  obtain g g2 ar' c' s' u' where a:
    "extract_dao_data (pack_dao_data 1227398260 613699130187 490958904810 100000) = Ok (ar', c', s', u')"
    "unat c' = unat (500000 :: u64) + unat (g :: u64) + unat (g2 :: u64)"
    "unat ar' = unat (1000 :: u64) + unat (1000 :: u64) * unat g2 div unat (500000 :: u64)"
    using dao_field_accounting [OF example_dao_field example_dao_sel(5)] by blast
  have "ar' = 1227398260" "c' = 613699130187" using a(1) by (simp_all add: extract_pack)
  from a(2,3) [unfolded this] show ?thesis by (intro exI conjI)
qed



end
