(* ===== verification/Block_Verifier.thy ===== *)
theory Block_Verifier
  imports Store
begin

text \<open>
  The rules of a block that need no chain context (\<open>verification/src/block_verifier.rs\<close>): the
  limits, the cellbase, duplicates and the roots in the header.
\<close>

definition block_proposals_limit_verify :: "u64 \<Rightarrow> block_view \<Rightarrow> unit result" where
  "block_proposals_limit_verify block_proposals_limit b =
     (let proposals_len = of_nat (length (b_proposals b)) in
      if proposals_len \<le> block_proposals_limit then Ok ()
      else Err (Block (BlockErr ExceededMaximumProposalsLimit)))"

definition block_bytes_verify :: "'z ext_scheme \<Rightarrow> u64 \<Rightarrow> block_view \<Rightarrow> unit result" where
  "block_bytes_verify X block_bytes_limit b =
     (if bv_is_genesis b then Ok ()
      else tryq (serialized_size_without_uncle_proposals X b) (\<lambda>n.
        if of_nat n \<le> block_bytes_limit then Ok () else Err (Block (BlockErr ExceededMaximumBlockBytes))))"

definition cellbase_verify :: "'z ext_scheme \<Rightarrow> block_view \<Rightarrow> unit result" where
  "cellbase_verify X b =
     (if bv_is_genesis b then Ok ()
      else if length (filter tx_is_cellbase (bv_transactions b)) \<noteq> 1 then
        Err (Block (CellbaseError InvalidQuantity))
      else tryq (expect (vec_get (bv_transactions b) 0)) (\<lambda>cellbase.
        if \<not> tx_is_cellbase cellbase then Err (Block (CellbaseError InvalidPosition))
        else if length (tx_outputs cellbase) > 1 \<or> length (tx_outputs_data cellbase) > 1 \<or>
            length (tx_outputs cellbase) \<noteq> length (tx_outputs_data cellbase) then
          Err (Block (CellbaseError InvalidOutputQuantity))
        else if \<not> (case vec_get (tx_outputs_data cellbase) 0 of Some d \<Rightarrow> d = [] | None \<Rightarrow> True) then
          Err (Block (CellbaseError InvalidOutputData))
        else tryq (case vec_get (tx_witnesses cellbase) 0 of
             None \<Rightarrow> Ok False
           | Some w \<Rightarrow>
               (case from_slice (cellbase_witness_verify X) (cellbase_witness_read X) w of
                  Ok _ \<Rightarrow> Ok True | Err _ \<Rightarrow> Ok False | Panic \<Rightarrow> Panic)) (\<lambda>valid.
        if \<not> valid then Err (Block (CellbaseError InvalidWitness))
        else if list_ex (\<lambda>out. co_type out \<noteq> None) (tx_outputs cellbase) then
          Err (Block (CellbaseError InvalidTypeScript))
        else tryq (expect (vec_get (tx_inputs cellbase) 0)) (\<lambda>cellbase_input.
          if cellbase_input \<noteq> new_cellbase_input (bv_number b) then Err (Block (CellbaseError InvalidInput))
          else Ok ()))))"

definition duplicate_verify :: "block_view \<Rightarrow> unit result" where
  "duplicate_verify b =
     (if \<not> all_insert {} (map tx_hash (bv_transactions b)) then Err (Block (BlockErr CommitTransactionDuplicate))
      else if \<not> all_insert {} (b_proposals b) then Err (Block (BlockErr ProposalTransactionDuplicate))
      else Ok ())"

definition merkle_root_verify :: "'z ext_scheme \<Rightarrow> block_view \<Rightarrow> unit result" where
  "merkle_root_verify X b =
     (if h_transactions_root (b_header b) \<noteq> calc_transactions_root X b then Err (Block (BlockErr TransactionsRoot))
      else if h_proposals_hash (b_header b) \<noteq> block_calc_proposals_hash X b then
        Err (Block (BlockErr ProposalTransactionsHash))
      else Ok ())"

definition verify_block :: "'z ext_scheme \<Rightarrow> consensus \<Rightarrow> block_view \<Rightarrow> unit result" where
  "verify_block X C b =
     tryq (block_proposals_limit_verify (c_max_block_proposals_limit C) b) (\<lambda>_.
     tryq (block_bytes_verify X (c_max_block_bytes C) b) (\<lambda>_.
     tryq (cellbase_verify X b) (\<lambda>_.
     tryq (duplicate_verify b) (\<lambda>_.
     merkle_root_verify X b))))"

section \<open>Lemmas\<close>

lemma serialized_size_total:
  fixes b :: "'a block_scheme"
  assumes "molecule_ok X"
  shows "\<exists>n. serialized_size_without_uncle_proposals X b = (Ok n :: (nat, 'e) outcome)"
proof -
  let ?b = "b\<lparr>b_uncles := map (\<lambda>u. u\<lparr>ub_proposals := []\<rparr>) (b_uncles b)\<rparr>"
  let ?n = "sum_list (map (\<lambda>u. length (concat (ub_proposals u))) (b_uncles b))"
  have "length (block_write X b) = length (block_write X ?b) + ?n"
    using uncles_without_proposals [OF assms, of "b_uncles b"] assms
    by (simp add: block_write_def table_size_def)
  then show ?thesis
    by (simp add: serialized_size_without_uncle_proposals_def Let_def NUMBER_SIZE_def
        length_proposals_write [OF assms] o_def list_ex_iff)
qed

lemma cellbase_witness_not_Panic:
  "molecule_ok X \<Longrightarrow> from_slice (cellbase_witness_verify X) (cellbase_witness_read X) w \<noteq> Panic"
  by (rule codec.from_slice_not_Panic [OF cellbase_witness_codec])

lemma one_cellbase:
  assumes "length (filter P xs) = 1" and "xs ! 0 = x" and "P x"
  shows "\<exists>rest. xs = x # rest \<and> (\<forall>y\<in>set rest. \<not> P y)"
  using assms by (cases xs) (auto simp: filter_empty_conv)

lemma cellbase_verify_Ok:
  assumes "cellbase_verify X b = Ok ()" and "\<not> bv_is_genesis b"
  shows "\<exists>cellbase rest w. bv_transactions b = cellbase # rest \<and> tx_is_cellbase cellbase \<and>
     (\<forall>tx\<in>set rest. \<not> tx_is_cellbase tx) \<and>
     length (tx_outputs cellbase) \<le> 1 \<and> length (tx_outputs_data cellbase) = length (tx_outputs cellbase) \<and>
     (\<forall>d\<in>set (tx_outputs_data cellbase). d = []) \<and> (\<forall>out\<in>set (tx_outputs cellbase). co_type out = None) \<and>
     tx_inputs cellbase = [new_cellbase_input (bv_number b)] \<and>
     from_slice (cellbase_witness_verify X) (cellbase_witness_read X) (tx_witnesses cellbase ! 0) = Ok w"
proof -
  let ?c = "bv_transactions b ! 0"
  have 1: "length (filter tx_is_cellbase (bv_transactions b)) = 1"
    using assms by (auto simp: cellbase_verify_def split: if_splits)
  then have "bv_transactions b \<noteq> []" by auto
  then have c: "vec_get (bv_transactions b) 0 = Some ?c" by (simp add: vec_get_def)
  note v = assms(1) [unfolded cellbase_verify_def c, simplified assms(2) 1 if_False, simplified]
  have cb: "tx_is_cellbase ?c" using v by (auto split: if_splits)
  obtain rest where rest: "bv_transactions b = ?c # rest" "\<forall>tx\<in>set rest. \<not> tx_is_cellbase tx"
    using one_cellbase [OF 1 refl cb] by blast
  have w: "length (tx_inputs ?c) = 1" "length (tx_witnesses ?c) = 1" using cb by (simp_all add: tx_is_cellbase_def)
  have outs: "length (tx_outputs ?c) \<le> 1" "length (tx_outputs_data ?c) = length (tx_outputs ?c)"
      "\<forall>d\<in>set (tx_outputs_data ?c). d = []"
  proof -
    have o: "\<not> 1 < length (tx_outputs_data ?c)" "length (tx_outputs ?c) = length (tx_outputs_data ?c)"
        "tx_outputs_data ?c \<noteq> [] \<longrightarrow> tx_outputs_data ?c ! 0 = []"
      using v by (auto simp: vec_get_def split: if_splits)
    then show "length (tx_outputs ?c) \<le> 1" "length (tx_outputs_data ?c) = length (tx_outputs ?c)" by simp_all
    show "\<forall>d\<in>set (tx_outputs_data ?c). d = []" using o(1,3) by (cases "tx_outputs_data ?c") auto
  qed
  have ws: "\<exists>w. from_slice (cellbase_witness_verify X) (cellbase_witness_read X) (tx_witnesses ?c ! 0) = Ok w"
      "\<not> list_ex (\<lambda>out. co_type out \<noteq> None) (tx_outputs ?c)" "tx_inputs ?c ! 0 = new_cellbase_input (bv_number b)"
    using v cb w by (auto simp: outcome_simps vec_get_def split: if_splits outcome.splits)
  then have "tx_inputs ?c = [new_cellbase_input (bv_number b)]" using w(1) by (cases "tx_inputs ?c") auto
  then show ?thesis using rest cb outs ws by (auto simp: list_ex_iff)
qed

text \<open>The roots that \<open>into_view\<close> puts into the header pass the check of the roots.\<close>

lemma merkle_root_verify_into_view: "merkle_root_verify X (block_into_view X b) = Ok ()"
  by (simp add: merkle_root_verify_def block_into_view_def block_into_view_internal_def reset_header_with_hashes_def
      Let_def calc_transactions_root_def calc_raw_transactions_root_def calc_witnesses_root_def
      block_calc_proposals_hash_def block.defs)

section \<open>An example\<close>

definition example_witness :: cellbase_witness where
  "example_witness = \<lparr>cw_lock = \<lparr>sc_code_hash = byte32_zero, sc_hash_type = 0, sc_args = []\<rparr>, cw_message = []\<rparr>"

definition example_cellbase_tx :: transaction where
  "example_cellbase_tx = \<lparr>tx_version = 0, tx_cell_deps = [], tx_header_deps = [], tx_inputs = [new_cellbase_input 7],
     tx_outputs = [], tx_outputs_data = [], tx_witnesses = [cellbase_witness_write ext_word example_witness]\<rparr>"

definition example_cellbase_block :: block_view where
  "example_cellbase_block = block_into_view ext_word
     \<lparr>b_header = example_header, b_uncles = [], b_transactions = [example_cellbase_tx], b_proposals = []\<rparr>"

lemma example_witness_parses:
  "from_slice (cellbase_witness_verify ext_word) (cellbase_witness_read ext_word)
     (cellbase_witness_write ext_word example_witness) = Ok example_witness"
  by (rule codec.from_slice_enc [OF cellbase_witness_codec [OF ext_word_molecule_ok]])
    (simp_all add: cellbase_witness_wf_def script_wf_def byte32_wf_def example_witness_def byte32_zero_def
      cellbase_witness_write_def table_size_def ext_word_molecule_ok script_write_def bytes_write_def fixvec_write_def
      byte32_write_def byte_write_def)

lemma example_cellbase_block_transactions:
  "bv_transactions example_cellbase_block =
     [tx_view example_cellbase_tx (calc_tx_hash ext_word example_cellbase_tx) (calc_witness_hash ext_word example_cellbase_tx)]"
  "bv_number example_cellbase_block = 7" "b_proposals example_cellbase_block = []"
  by (simp_all add: example_cellbase_block_def bv_transactions_def block_into_view_def Let_def calc_tx_hashes_def
      calc_tx_witness_hashes_def block_into_view_internal_def reset_header_with_hashes_def block.defs bv_number_def
      example_header_def)

lemma example_block_verifies:
  "verify_block ext_word (example_consensus\<lparr>c_max_block_bytes := - 1\<rparr>) example_cellbase_block = Ok ()"
proof -
  have g: "\<not> bv_is_genesis example_cellbase_block"
    by (simp add: bv_is_genesis_def example_cellbase_block_transactions)
  obtain n where n: "serialized_size_without_uncle_proposals ext_word example_cellbase_block = (Ok n :: nat result)"
    using serialized_size_total [OF ext_word_molecule_ok] by blast
  have cb: "tx_is_cellbase (tx_view example_cellbase_tx h w)" for h w
    by (simp add: tx_is_cellbase_def example_cellbase_tx_def new_cellbase_input_def cell_input_new_def
      out_point_is_null_def out_point_null_def byte32_is_zero_def byte32_zero_def list_all_iff)
  have "cellbase_verify ext_word example_cellbase_block = Ok ()"
    using g cb by (simp add: cellbase_verify_def example_cellbase_block_transactions vec_get_def example_cellbase_tx_def
      example_witness_parses)
  then show ?thesis
    using g n merkle_root_verify_into_view [of ext_word]
    by (simp add: verify_block_def block_proposals_limit_verify_def block_bytes_verify_def duplicate_verify_def
        example_cellbase_block_transactions) (simp add: example_cellbase_block_def)
qed

lemma example_cellbase_block_size: "length (block_write ext_word example_cellbase_block) < 2 ^ 64"
proof -
  have m: "length (merkle_root ext_word [x, y]) = 32" for x y
    by (simp add: merkle_root_def ext_word_def numext.defs merge_byte32_def byte32_zero_def)
  show ?thesis
    by (simp add: example_cellbase_block_def block_into_view_def Let_def reset_header_with_hashes_def
        block_into_view_internal_def block.defs block_calc_proposals_hash_def block_calc_uncles_hash_def
        calc_ids_hash_def calc_uncle_vec_hash_def BLANK_HASH_def block_write_def example_header_def m
        example_cellbase_tx_def table_size_def
      ext_word_molecule_ok header_write_def raw_header_write_def
      uncle_block_vec_write_def uncle_block_write_def length_dynvec_write transaction_vec_write_def
      transaction_write_def raw_transaction_write_def proposal_short_id_vec_write_def fixvec_write_def
      proposal_short_id_write_def cell_dep_vec_write_def byte32_vec_write_def cell_input_vec_write_def
      cell_output_vec_write_def bytes_vec_write_def bytes_write_def cell_input_write_def
      out_point_write_def byte_write_def script_write_def cellbase_witness_write_def example_witness_def
      new_cellbase_input_def cell_input_new_def out_point_null_def byte32_write_def
      byte32_zero_def)
qed

section \<open>Properties\<close>

text \<open>
  C22. What a verified block guarantees: beyond the genesis block, the first transaction and no
  other is a cellbase, its single input names the block's number, it has at most one output,
  without type script and with empty data, and its witness parses; transactions and proposals
  have no duplicates, the limits hold, and the header commits to the transactions and the
  proposals.
\<close>

theorem verified_block_rules:
  assumes "verify_block X C b = Ok ()" and "\<not> bv_is_genesis b"
    and "length (b_proposals b) < 2 ^ 64" and "length (block_write X b) < 2 ^ 64"
  shows "(\<exists>cellbase rest w. bv_transactions b = cellbase # rest \<and> tx_is_cellbase cellbase \<and>
       (\<forall>tx\<in>set rest. \<not> tx_is_cellbase tx) \<and>
       length (tx_outputs cellbase) \<le> 1 \<and> length (tx_outputs_data cellbase) = length (tx_outputs cellbase) \<and>
       (\<forall>d\<in>set (tx_outputs_data cellbase). d = []) \<and> (\<forall>out\<in>set (tx_outputs cellbase). co_type out = None) \<and>
       tx_inputs cellbase = [new_cellbase_input (bv_number b)] \<and>
       from_slice (cellbase_witness_verify X) (cellbase_witness_read X) (tx_witnesses cellbase ! 0) = Ok w) \<and>
     distinct (map tx_hash (bv_transactions b)) \<and> distinct (b_proposals b) \<and>
     length (b_proposals b) \<le> unat (c_max_block_proposals_limit C) \<and>
     (\<exists>n. serialized_size_without_uncle_proposals X b = (Ok n :: nat result) \<and> n \<le> unat (c_max_block_bytes C)) \<and>
     h_transactions_root (b_header b) = calc_transactions_root X b \<and>
     h_proposals_hash (b_header b) = block_calc_proposals_hash X b"
proof -
  note v = assms(1) [unfolded verify_block_def tryq_eq_Ok]
  have cb: "cellbase_verify X b = Ok ()" and du: "duplicate_verify b = Ok ()" and mr: "merkle_root_verify X b = Ok ()"
    and pl: "block_proposals_limit_verify (c_max_block_proposals_limit C) b = Ok ()"
    and bb: "block_bytes_verify X (c_max_block_bytes C) b = Ok ()" using v by auto
  have "unat (of_nat (length (b_proposals b)) :: u64) = length (b_proposals b)"
    using assms(3) by (simp add: unat_of_nat take_bit_eq_mod)
  then have l: "length (b_proposals b) \<le> unat (c_max_block_proposals_limit C)"
    using pl by (simp add: block_proposals_limit_verify_def Let_def word_le_nat_alt split: if_splits)
  obtain n where n: "serialized_size_without_uncle_proposals X b = (Ok n :: nat result)"
      "(of_nat n :: u64) \<le> c_max_block_bytes C"
    using bb assms(2) by (auto simp: block_bytes_verify_def tryq_eq_Ok split: if_splits)
  have "n \<le> length (block_write X b)"
    using n(1) by (auto simp: serialized_size_without_uncle_proposals_def Let_def split: if_splits)
  then have "unat (of_nat n :: u64) = n" using assms(4) by (simp add: unat_of_nat take_bit_eq_mod)
  then have s: "n \<le> unat (c_max_block_bytes C)" using n(2) by (simp add: word_le_nat_alt)
  have "distinct (map tx_hash (bv_transactions b))" "distinct (b_proposals b)"
    "h_transactions_root (b_header b) = calc_transactions_root X b"
    "h_proposals_hash (b_header b) = block_calc_proposals_hash X b"
    using du mr by (simp_all add: duplicate_verify_def merkle_root_verify_def split: if_splits)
  then show ?thesis using cellbase_verify_Ok [OF cb assms(2)] l n(1) s by blast
qed

theorem verified_block_rules_witness:
  "verify_block ext_word (example_consensus\<lparr>c_max_block_bytes := - 1\<rparr>) example_cellbase_block = Ok () \<and>
   h_transactions_root (b_header example_cellbase_block) = calc_transactions_root ext_word example_cellbase_block"
proof -
  have "\<not> bv_is_genesis example_cellbase_block" "length (b_proposals example_cellbase_block) < 2 ^ 64"
    by (simp_all add: bv_is_genesis_def example_cellbase_block_transactions)
  from verified_block_rules [OF example_block_verifies this example_cellbase_block_size]
  show ?thesis using example_block_verifies by blast
qed

text \<open>
  Verifying a block never panics: whatever the transactions of the block are, every index the
  rules take is in range and no size computation underflows.
\<close>

theorem verify_block_no_panic:
  assumes "molecule_ok X"
  shows "verify_block X C b \<noteq> Panic"
proof -
  obtain n where n: "serialized_size_without_uncle_proposals X b = (Ok n :: nat result)"
    using serialized_size_total [OF assms] by blast
  have "cellbase_verify X b \<noteq> Panic"
  proof (cases "bv_transactions b")
    case (Cons tx txs)
    show ?thesis
    proof (cases "tx_is_cellbase tx")
      case True
      then have "tx_inputs tx \<noteq> []" by (auto simp: tx_is_cellbase_def)
      then show ?thesis
        using Cons cellbase_witness_not_Panic [OF assms]
        by (auto simp: cellbase_verify_def outcome_simps split: option.splits outcome.splits)
    qed (simp add: cellbase_verify_def Cons vec_get_def)
  qed (simp add: cellbase_verify_def)
  then show ?thesis
    using n by (auto simp: verify_block_def block_proposals_limit_verify_def block_bytes_verify_def Let_def
        duplicate_verify_def merkle_root_verify_def outcome_simps)
qed

theorem verify_block_no_panic_witness:
  "verify_block ext_word example_consensus (example_spend_block\<lparr>b_transactions := []\<rparr>) \<noteq> Panic"
  by (rule verify_block_no_panic [OF ext_word_molecule_ok])

end
