(* ===== verification/Genesis_Verifier.thy ===== *)
theory Genesis_Verifier
  imports Dao Block_Verifier
begin

text \<open>
  The genesis block: the first epoch (\<open>build_genesis_epoch_ext\<close> of \<open>spec/src/consensus.rs\<close>), the issuance
  of the block (\<open>calculate_block_reward\<close> of \<open>spec/src/lib.rs\<close>) and the rules of the genesis block
  (\<open>verification/src/genesis_verifier.rs\<close>).
\<close>

section \<open>The first epoch\<close>

definition build_genesis_epoch_ext :: "'z numext_scheme \<Rightarrow> capacity \<Rightarrow> u32 \<Rightarrow> u64 \<Rightarrow> u64 \<Rightarrow> epoch_ext result" where
  "build_genesis_epoch_ext N epoch_reward compact_target genesis_epoch_length epoch_duration_target =
     tryq (p_div epoch_reward genesis_epoch_length) (\<lambda>block_reward.
     tryq (p_mod epoch_reward genesis_epoch_length) (\<lambda>remainder_reward.
     tryq (p_div genesis_epoch_length 40) (\<lambda>genesis_orphan_count.
     tryq (expect (compact_to_difficulty N compact_target)) (\<lambda>difficulty.
     tryq (p_add genesis_epoch_length genesis_orphan_count) (\<lambda>blocks.
     tryq (expect (nx_mul N difficulty (ucast blocks))) (\<lambda>hashes.
     tryq (expect (nx_div N hashes (ucast epoch_duration_target))) (\<lambda>genesis_hash_rate.
     Ok \<lparr>ee_number = 0, ee_base_block_reward = block_reward, ee_remainder_reward = remainder_reward,
         ee_previous_epoch_hash_rate = genesis_hash_rate, ee_last_block_hash_in_previous_epoch = byte32_zero,
         ee_start_number = 0, ee_length = genesis_epoch_length, ee_compact_target = compact_target\<rparr>)))))))"

definition calculate_block_reward :: "capacity \<Rightarrow> u64 \<Rightarrow> capacity result" where
  "calculate_block_reward epoch_reward epoch_length =
     tryq (p_mod epoch_reward epoch_length) (\<lambda>r.
     if r \<noteq> 0 then tryq (p_div epoch_reward epoch_length) (\<lambda>q. p_add q 1) else p_div epoch_reward epoch_length)"

section \<open>The rules\<close>

definition genesis_number_verify :: "block_view \<Rightarrow> unit result" where
  "genesis_number_verify block = (if bv_number block \<noteq> 0 then Err (Header (NumberError 0 (bv_number block))) else Ok ())"

definition genesis_epoch_verify :: "block_view \<Rightarrow> unit result" where
  "genesis_epoch_verify block =
     (let n = ef_number (ef_from_full_value (h_epoch (b_header block)))
      in if n \<noteq> 0 then Err (Header (EpochError (NumberMismatch 0 n))) else Ok ())"

definition genesis_parent_hash_verify :: "block_view \<Rightarrow> unit result" where
  "genesis_parent_hash_verify block =
     (if h_parent_hash (b_header block) \<noteq> replicate 32 0 then Err (Block (UnknownParentError (h_parent_hash (b_header block)))) else Ok ())"

definition genesis_uncles_verify :: "block_view \<Rightarrow> unit result" where
  "genesis_uncles_verify block =
     (if bv_uncle_hashes block \<noteq> [] then Err (Block (UnclesError (OverCount 0 (of_nat (length (bv_uncle_hashes block)))))) else Ok ())"

definition genesis_dao_verify :: "consensus \<Rightarrow> block_view \<Rightarrow> unit result" where
  "genesis_dao_verify C block =
     (let txs = bv_transactions block; epoch_length = ee_length (c_genesis_epoch_ext C) in
      tryq (calculate_block_reward (c_initial_primary_epoch_reward C) epoch_length) (\<lambda>primary_issuance.
      tryq (calculate_block_reward (c_secondary_epoch_reward C) epoch_length) (\<lambda>secondary_issuance.
      tryq (genesis_dao_data_with_satoshi_gift txs (c_satoshi_pubkey_hash C) (c_satoshi_cell_occupied_ratio C)
              primary_issuance secondary_issuance) (\<lambda>dao.
      if dao \<noteq> h_dao (b_header block) then Err (Block (BlockErr InvalidDAO)) else Ok ()))))"

definition genesis_cellbase_verify :: "block_view \<Rightarrow> unit result" where
  "genesis_cellbase_verify block =
     (if length (filter tx_is_cellbase (bv_transactions block)) \<noteq> 1 then Err (Block (CellbaseError InvalidQuantity))
      else tryq (expect (vec_get (bv_transactions block) 0)) (\<lambda>cellbase.
        if \<not> tx_is_cellbase cellbase then Err (Block (CellbaseError InvalidPosition))
        else if length (tx_outputs cellbase) \<noteq> length (tx_outputs_data cellbase) then Err (Block (CellbaseError InvalidOutputQuantity))
        else tryq (expect (vec_get (tx_inputs cellbase) 0)) (\<lambda>cellbase_input.
          if cellbase_input \<noteq> new_cellbase_input (bv_number block) then Err (Block (CellbaseError InvalidInput)) else Ok ())))"

definition genesis_verify :: "'z ext_scheme \<Rightarrow> consensus \<Rightarrow> unit result" where
  "genesis_verify X C =
     tryq (genesis_number_verify (c_genesis_block C)) (\<lambda>_.
     tryq (genesis_epoch_verify (c_genesis_block C)) (\<lambda>_.
     tryq (genesis_parent_hash_verify (c_genesis_block C)) (\<lambda>_.
     tryq (genesis_cellbase_verify (c_genesis_block C)) (\<lambda>_.
     tryq (genesis_uncles_verify (c_genesis_block C)) (\<lambda>_.
     tryq (genesis_dao_verify C (c_genesis_block C)) (\<lambda>_.
     verify_block X C (c_genesis_block C)))))))"

section \<open>The issuance of the genesis block\<close>

text \<open>The rounded-up share of the epoch reward is what the first block of the first epoch is paid.\<close>

lemma genesis_block_reward:
  assumes "build_genesis_epoch_ext N R t l d = Ok e" and "calculate_block_reward R l = Ok g"
  shows "ee_block_reward e 0 = Ok g"
  using assms cap.amount_cap [of "R mod l"]
  by (auto simp: build_genesis_epoch_ext_def calculate_block_reward_def ee_block_reward_def outcome_simps p_div_def checked_div_def
      p_mod_def checked_rem_def p_add_def checked_add_def safe_add_def word_neq_0_conv split: if_splits)

lemma genesis_secondary_issuance:
  assumes "build_genesis_epoch_ext N R t l d = Ok e" and "calculate_block_reward S l = Ok g"
  shows "ee_secondary_block_issuance e 0 S = Ok g"
  using assms cap.amount_cap [of "S mod l"]
  by (auto simp: build_genesis_epoch_ext_def calculate_block_reward_def ee_secondary_block_issuance_def outcome_simps p_div_def checked_div_def
      p_mod_def checked_rem_def p_add_def checked_add_def safe_add_def word_neq_0_conv split: if_splits)

text \<open>The capacity of the outputs of a transaction that are not among the spent cells.\<close>

definition unspent_capacity :: "out_point set \<Rightarrow> transaction_view \<Rightarrow> nat" where
  "unspent_capacity dead tx = (\<Sum>i\<leftarrow>filter (\<lambda>i. out_point_new (tx_hash tx) (of_nat i) \<notin> dead) [0..<length (tx_outputs tx)].
     unat (co_capacity (tx_outputs tx ! i)))"

lemma statistics_outputs_capacity:
  assumes "statistics_outputs dead h r k tx = Ok (c, u)"
  shows "unat c = unspent_capacity dead tx"
proof -
  have "try_fold (\<lambda>capacity (_, out). safe_add capacity (co_capacity out)) z xs = Ok c \<Longrightarrow>
      unat c = unat z + sum_list (map (\<lambda>p. unat (co_capacity (snd p))) xs)" for z :: capacity and xs :: "(nat \<times> cell_output) list"
    by (induction xs arbitrary: z) (auto simp: outcome_simps dest!: cap.add_Ok)
  then have "unat c = sum_list (map (\<lambda>p. unat (co_capacity (snd p)))
      (filter (\<lambda>p. out_point_new (tx_hash tx) (of_nat (fst p)) \<notin> dead) (enumerate 0 (tx_outputs tx))))"
    using assms unfolding statistics_outputs_def Let_def by (fastforce simp: outcome_simps case_prod_unfold)
  also have "enumerate 0 (tx_outputs tx) = map (\<lambda>i. (i, tx_outputs tx ! i)) [0..<length (tx_outputs tx)]"
    by (rule nth_equalityI) (simp_all add: nth_enumerate_eq)
  finally show ?thesis by (simp add: unspent_capacity_def filter_map comp_def)
qed

lemma genesis_dao_data_total:
  assumes "genesis_dao_data_with_satoshi_gift txs h r p s = Ok dao"
  shows "\<exists>c u. dao = pack_dao_data DEFAULT_ACCUMULATED_RATE c s u \<and>
     unat c = unat p + unat s + sum_list (map (unspent_capacity (set (concat (map input_pts txs)))) txs)"
proof -
  let ?dead = "set (concat (map input_pts txs))"
  let ?step = "\<lambda>(c, u) (i, tx). tryq (statistics_outputs ?dead h r i tx) (\<lambda>(tx_c, tx_u).
      tryq (cap_result (safe_add c tx_c)) (\<lambda>c. tryq (cap_result (safe_add u tx_u)) (\<lambda>u. Ok (c, u))))"
  have sum: "try_fold ?step (c, u) xs = Ok (c', u') \<Longrightarrow> unat c' = unat c + sum_list (map (\<lambda>x. unspent_capacity ?dead (snd x)) xs)" for c u c' u' xs
  proof (induction xs arbitrary: c u)
    case (Cons x xs)
    then obtain tc tu c1 u1 where "statistics_outputs ?dead h r (fst x) (snd x) = Ok (tc, tu)" "safe_add c tc = Ok c1"
        "try_fold ?step (c1, u1) xs = Ok (c', u')"
      by (auto simp: outcome_simps case_prod_unfold)
    then show ?case using Cons.IH [of c1 u1] statistics_outputs_capacity cap.add_Ok by fastforce
  qed simp
  obtain i c u where i: "safe_add p s = Ok i" "try_fold ?step (i, 0) (enumerate 0 txs) = Ok (c, u)"
      "dao = pack_dao_data DEFAULT_ACCUMULATED_RATE c s u"
    using assms unfolding genesis_dao_data_with_satoshi_gift_def Let_def by (auto simp: outcome_simps split: if_splits)
  have "map (\<lambda>x. unspent_capacity ?dead (snd x)) (enumerate 0 txs) = map (unspent_capacity ?dead) txs"
    by (rule nth_equalityI) (simp_all add: nth_enumerate_eq)
  then show ?thesis using sum [OF i(2)] cap.add_Ok [OF i(1)] i(3) by auto
qed

lemma genesis_cellbase_Ok:
  assumes "genesis_cellbase_verify b = Ok ()"
  shows "\<exists>cellbase rest. bv_transactions b = cellbase # rest \<and> tx_is_cellbase cellbase \<and> list_all (\<lambda>tx. \<not> tx_is_cellbase tx) rest \<and>
     length (tx_outputs cellbase) = length (tx_outputs_data cellbase) \<and> tx_inputs cellbase = [new_cellbase_input (bv_number b)]"
proof -
  let ?c = "bv_transactions b ! 0"
  have 1: "length (filter tx_is_cellbase (bv_transactions b)) = 1" using assms by (auto simp: genesis_cellbase_verify_def split: if_splits)
  then have "bv_transactions b \<noteq> []" by auto
  then have c: "vec_get (bv_transactions b) 0 = Some ?c" by (simp add: vec_get_def)
  note v = assms [unfolded genesis_cellbase_verify_def c, simplified 1, simplified]
  have cb: "tx_is_cellbase ?c" using v by (auto split: if_splits)
  then have i: "length (tx_inputs ?c) = 1" by (simp add: tx_is_cellbase_def)
  then have "tx_inputs ?c ! 0 = new_cellbase_input (bv_number b)" "length (tx_outputs ?c) = length (tx_outputs_data ?c)"
    using v by (auto simp: outcome_simps vec_get_def split: if_splits)
  moreover from this(1) i have "tx_inputs ?c = [new_cellbase_input (bv_number b)]" by (cases "tx_inputs ?c") auto
  ultimately show ?thesis using one_cellbase [OF 1 refl cb] cb by (auto simp: list_all_iff)
qed

section \<open>An example\<close>

definition example_gift :: transaction where
  "example_gift = \<lparr>tx_version = 0, tx_cell_deps = [], tx_header_deps = [], tx_inputs = [new_cellbase_input 0],
     tx_outputs = [\<lparr>co_capacity = 1000000000000, co_lock = cw_lock example_witness, co_type = None\<rparr>], tx_outputs_data = [[]], tx_witnesses = [[]]\<rparr>"

definition example_genesis_block :: block_view where
  "example_genesis_block = block_into_view ext_word
     \<lparr>b_header = example_header\<lparr>h_number := 0, h_epoch := 0, h_parent_hash := replicate 32 0,
        h_dao := pack_dao_data DEFAULT_ACCUMULATED_RATE 1253150684932 61369863014 4100000000\<rparr>,
      b_uncles = [], b_transactions = [example_gift], b_proposals = []\<rparr>"

definition example_genesis_epoch :: epoch_ext where
  "example_genesis_epoch = \<lparr>ee_number = 0, ee_base_block_reward = 191780821917, ee_remainder_reward = 808, ee_previous_epoch_hash_rate = 0,
     ee_last_block_hash_in_previous_epoch = byte32_zero, ee_start_number = 0, ee_length = 1000, ee_compact_target = 0x20800000\<rparr>"

definition example_genesis_consensus :: consensus where
  "example_genesis_consensus = example_consensus\<lparr>c_genesis_block := example_genesis_block, c_genesis_epoch_ext := example_genesis_epoch,
     c_satoshi_pubkey_hash := replicate 20 1\<rparr>"

lemma example_genesis_sel:
  "bv_number example_genesis_block = 0" "bv_is_genesis example_genesis_block" "bv_uncle_hashes example_genesis_block = []"
  "h_epoch (b_header example_genesis_block) = 0" "h_parent_hash (b_header example_genesis_block) = replicate 32 0"
  "h_dao (b_header example_genesis_block) = pack_dao_data DEFAULT_ACCUMULATED_RATE 1253150684932 61369863014 4100000000"
  "bv_transactions example_genesis_block = [tx_view example_gift (calc_tx_hash ext_word example_gift) (calc_witness_hash ext_word example_gift)]"
  "b_proposals example_genesis_block = []"
  by (simp_all add: example_genesis_block_def bv_transactions_def block_into_view_def Let_def calc_tx_hashes_def bv_is_genesis_def
      calc_tx_witness_hashes_def block_into_view_internal_def reset_header_with_hashes_def block.defs bv_number_def)

lemma example_genesis_first_epoch:
  "build_genesis_epoch_ext ext_word (c_initial_primary_epoch_reward example_genesis_consensus) 0x20800000 1000 14400 =
     Ok (c_genesis_epoch_ext example_genesis_consensus)"
  by (simp add: build_genesis_epoch_ext_def example_easy_difficulty example_genesis_consensus_def example_consensus_def example_genesis_epoch_def
      p_div_def checked_div_def p_mod_def checked_rem_def p_add_def checked_add_def)
    (simp add: ext_word_def numext.defs numext_word_def checked_mul_def checked_div_def)

lemma example_genesis_verifies: "genesis_verify ext_word example_genesis_consensus = Ok ()"
proof -
  have b: "c_genesis_block example_genesis_consensus = example_genesis_block" by (simp add: example_genesis_consensus_def)
  have cb: "tx_is_cellbase (tx_view example_gift h w)" for h w
    by (simp add: tx_is_cellbase_def example_gift_def new_cellbase_input_def cell_input_new_def out_point_is_null_def out_point_null_def
        byte32_is_zero_def byte32_zero_def list_all_iff)
  have "genesis_cellbase_verify example_genesis_block = Ok ()"
    using cb by (simp add: genesis_cellbase_verify_def example_genesis_sel vec_get_def example_gift_def)
  moreover have r: "calculate_block_reward (c_initial_primary_epoch_reward example_genesis_consensus) 1000 = Ok 191780821918"
    "calculate_block_reward (c_secondary_epoch_reward example_genesis_consensus) 1000 = Ok 61369863014"
    by (simp_all add: calculate_block_reward_def example_genesis_consensus_def example_consensus_def p_div_def checked_div_def p_mod_def
        checked_rem_def p_add_def checked_add_def)
  have "genesis_dao_data_with_satoshi_gift (bv_transactions example_genesis_block) (replicate 20 1) ratio 191780821918 61369863014 =
      Ok (pack_dao_data DEFAULT_ACCUMULATED_RATE 1253150684932 61369863014 4100000000)" for ratio
  proof -
    have "out_point_new (calc_tx_hash ext_word example_gift) 0 \<noteq> out_point_null"
      by (simp add: out_point_new_def out_point_null_def)
    then show ?thesis
      by (simp add: genesis_dao_data_with_satoshi_gift_def statistics_outputs_def example_genesis_sel example_gift_def input_pts_def
          new_cellbase_input_def cell_input_new_def outputs_with_data_def Let_def safe_add_def checked_add_def
          cell_occupied_capacity_def script_occupied_capacity_def capacity_bytes_def checked_mul_def BYTE_SHANNONS_def example_witness_def)
  qed
  then have "genesis_dao_verify example_genesis_consensus example_genesis_block = Ok ()"
    using r by (simp add: genesis_dao_verify_def Let_def example_genesis_sel)
      (simp add: example_genesis_consensus_def example_genesis_epoch_def)
  moreover have "verify_block ext_word example_genesis_consensus example_genesis_block = Ok ()"
    using merkle_root_verify_into_view [of ext_word]
    by (simp add: verify_block_def block_proposals_limit_verify_def block_bytes_verify_def duplicate_verify_def cellbase_verify_def
        example_genesis_sel) (simp add: example_genesis_block_def)
  moreover have "ef_number (ef_from_full_value 0) = 0" by (simp add: ef_from_full_value_def ef_fields_new word_unat_eq_iff unat_ef_fields)
  ultimately show ?thesis
    by (simp add: genesis_verify_def b genesis_number_verify_def genesis_epoch_verify_def genesis_parent_hash_verify_def
        genesis_uncles_verify_def example_genesis_sel Let_def)
qed

section \<open>Properties\<close>

text \<open>
  C24. What a verified genesis block guarantees: number zero, no parent, no uncles, a cellbase as its
  first transaction and no other, no transaction twice, and a header that commits to the transactions.
  Its NervosDAO field starts the accounting of the chain exactly: the total is what the first epoch
  pays its block zero in primary and secondary issuance plus the capacity of all outputs that the
  block does not spend itself.
\<close>

theorem verified_genesis_rules:
  assumes "genesis_verify X C = Ok ()"
    and "build_genesis_epoch_ext N (c_initial_primary_epoch_reward C) t l d = Ok (c_genesis_epoch_ext C)"
  shows "bv_number (c_genesis_block C) = 0 \<and> h_parent_hash (b_header (c_genesis_block C)) = replicate 32 0 \<and>
     bv_uncle_hashes (c_genesis_block C) = [] \<and>
     (\<exists>cellbase rest. bv_transactions (c_genesis_block C) = cellbase # rest \<and> tx_is_cellbase cellbase \<and>
        list_all (\<lambda>tx. \<not> tx_is_cellbase tx) rest \<and> tx_inputs cellbase = [new_cellbase_input 0]) \<and>
     distinct (map tx_hash (bv_transactions (c_genesis_block C))) \<and>
     h_transactions_root (b_header (c_genesis_block C)) = calc_transactions_root X (c_genesis_block C) \<and>
     (\<exists>g g2 c u. ee_block_reward (c_genesis_epoch_ext C) 0 = Ok g \<and>
        ee_secondary_block_issuance (c_genesis_epoch_ext C) 0 (c_secondary_epoch_reward C) = Ok g2 \<and>
        h_dao (b_header (c_genesis_block C)) = pack_dao_data DEFAULT_ACCUMULATED_RATE c g2 u \<and>
        unat c = unat g + unat g2 + sum_list (map (unspent_capacity (set (concat (map input_pts (bv_transactions (c_genesis_block C))))))
          (bv_transactions (c_genesis_block C))))"
proof -
  let ?b = "c_genesis_block C"
  note v = assms(1) [unfolded genesis_verify_def tryq_eq_Ok]
  have n: "bv_number ?b = 0" using v by (auto simp: genesis_number_verify_def split: if_splits)
  obtain dao g g2 where r: "calculate_block_reward (c_initial_primary_epoch_reward C) (ee_length (c_genesis_epoch_ext C)) = Ok g"
      "calculate_block_reward (c_secondary_epoch_reward C) (ee_length (c_genesis_epoch_ext C)) = Ok g2"
      "genesis_dao_data_with_satoshi_gift (bv_transactions ?b) (c_satoshi_pubkey_hash C) (c_satoshi_cell_occupied_ratio C) g g2 = Ok dao"
      "dao = h_dao (b_header ?b)"
    using v by (auto simp: genesis_dao_verify_def Let_def outcome_simps split: if_splits)
  have l: "ee_length (c_genesis_epoch_ext C) = l"
    using assms(2) by (auto simp: build_genesis_epoch_ext_def outcome_simps) (metis epoch_ext.select_convs(7))
  note iss = genesis_block_reward [OF assms(2) r(1) [unfolded l]] genesis_secondary_issuance [OF assms(2) r(2) [unfolded l]]
  have "duplicate_verify ?b = Ok ()" "merkle_root_verify X ?b = Ok ()" using v by (auto simp: verify_block_def outcome_simps)
  then have "distinct (map tx_hash (bv_transactions ?b))" "h_transactions_root (b_header ?b) = calc_transactions_root X ?b"
    by (simp_all add: duplicate_verify_def merkle_root_verify_def split: if_splits)
  moreover have "h_parent_hash (b_header ?b) = replicate 32 0" "bv_uncle_hashes ?b = []"
    using v by (auto simp: genesis_parent_hash_verify_def genesis_uncles_verify_def split: if_splits)
  moreover have "genesis_cellbase_verify ?b = Ok ()" using v by auto
  ultimately show ?thesis
    using n genesis_cellbase_Ok [of ?b] iss genesis_dao_data_total [OF r(3)] unfolding r(4) by (metis (no_types, lifting))
qed

theorem verified_genesis_rules_witness:
  "genesis_verify ext_word example_genesis_consensus = Ok () \<and>
   (\<exists>g g2 c u. ee_block_reward example_genesis_epoch 0 = Ok g \<and>
      h_dao (b_header example_genesis_block) = pack_dao_data DEFAULT_ACCUMULATED_RATE c g2 u \<and>
      unat c = unat g + unat g2 + unspent_capacity {out_point_null} (bv_transactions example_genesis_block ! 0))"
proof -
  have c: "c_genesis_block example_genesis_consensus = example_genesis_block" "c_genesis_epoch_ext example_genesis_consensus = example_genesis_epoch"
    by (simp_all add: example_genesis_consensus_def)
  have i: "set (concat (map input_pts (bv_transactions example_genesis_block))) = {out_point_null}"
    by (simp add: example_genesis_sel input_pts_def example_gift_def new_cellbase_input_def cell_input_new_def)
  have s: "sum_list (map f (bv_transactions example_genesis_block)) = f (bv_transactions example_genesis_block ! 0)" for f :: "transaction_view \<Rightarrow> nat"
    by (simp add: example_genesis_sel)
  show ?thesis
    using verified_genesis_rules [OF example_genesis_verifies example_genesis_first_epoch] example_genesis_verifies
    unfolding c i s by blast
qed

end
