(* ===== verification/Cell_Set.thy ===== *)
theory Cell_Set
  imports Store
begin

text \<open>
  Attaching a block to the main chain and detaching it again: the columns of the index and the
  cell set (\<open>attach_block\<close>, \<open>detach_block\<close> of \<open>store/src/transaction.rs\<close>, \<open>attach_block_cell\<close>,
  \<open>detach_block_cell\<close> of \<open>chain/src/cell.rs\<close>). The cell set is followed one key at a time: on
  one key, attaching is a sequence of deaths of outputs and detaching a sequence of recoveries.
\<close>

section \<open>One record\<close>

lemma set_dead_update: "set_dead m i = m\<lparr>tm_dead_cell := (tm_dead_cell m)[i := True]\<rparr>"
  by (simp add: set_dead_def tm_len_def list_update_beyond)

lemma unset_dead_update: "unset_dead m i = m\<lparr>tm_dead_cell := (tm_dead_cell m)[i := False]\<rparr>"
  by (simp add: unset_dead_def tm_len_def list_update_beyond)

lemma nth_fold_update:
  "j < length d \<Longrightarrow> fold (\<lambda>i d. d[i := b]) is d ! j = (if j \<in> set is then b else d ! j)"
  by (induction "is" arbitrary: d) (auto simp: nth_list_update)

lemma length_fold_update [simp]: "length (fold (\<lambda>i d. d[i := b]) is d) = length d"
  by (induction "is" arbitrary: d) auto

lemma fold_set_dead: "fold (\<lambda>i m. set_dead m i) is m = m\<lparr>tm_dead_cell := fold (\<lambda>i d. d[i := True]) is (tm_dead_cell m)\<rparr>"
  by (induction "is" arbitrary: m) (auto simp: set_dead_update)

lemma fold_unset_dead: "fold (\<lambda>i m. unset_dead m i) is m = m\<lparr>tm_dead_cell := fold (\<lambda>i d. d[i := False]) is (tm_dead_cell m)\<rparr>"
  by (induction "is" arbitrary: m) (auto simp: unset_dead_update)

text \<open>The outputs at the positions \<open>is\<close> exist and are live.\<close>

definition live_at :: "transaction_meta \<Rightarrow> nat list \<Rightarrow> bool" where
  "live_at m is \<longleftrightarrow> distinct is \<and> (\<forall>i\<in>set is. tm_is_dead m i = Some False)"

definition all_dead_meta :: "transaction_meta \<Rightarrow> transaction_meta" where
  "all_dead_meta m = m\<lparr>tm_dead_cell := replicate (tm_len m) True\<rparr>"

lemma unset_set_dead:
  assumes "live_at m is" and "set js = set is"
  shows "fold (\<lambda>i m. unset_dead m i) js (fold (\<lambda>i m. set_dead m i) is m) = m"
proof -
  have "fold (\<lambda>i d. d[i := False]) js (fold (\<lambda>i d. d[i := True]) is (tm_dead_cell m)) = tm_dead_cell m"
    using assms by (intro nth_equalityI) (auto simp: nth_fold_update live_at_def tm_is_dead_def)
  then show ?thesis by (simp add: fold_set_dead fold_unset_dead)
qed

lemma unset_all_dead:
  assumes "live_at m is" and "set js = set is" and "tm_all_dead (fold (\<lambda>i m. set_dead m i) is m)"
  shows "fold (\<lambda>i m. unset_dead m i) js (all_dead_meta m) = m"
proof -
  let ?d = "tm_dead_cell m"
  have d: "j \<in> set is \<or> ?d ! j" if "j < length ?d" for j
    using assms(3) that by (auto simp: tm_all_dead_def fold_set_dead list_all_length nth_fold_update split: if_splits)
  have "fold (\<lambda>i d. d[i := False]) js (replicate (length ?d) True) = ?d"
    using assms(1,2) d by (intro nth_equalityI) (auto simp: nth_fold_update live_at_def tm_is_dead_def)
  then show ?thesis by (simp add: all_dead_meta_def fold_unset_dead tm_len_def)
qed

section \<open>One key of the cell set\<close>

definition spend_at :: "byte32 \<Rightarrow> out_point \<Rightarrow> transaction_meta option \<Rightarrow> transaction_meta option" where
  "spend_at k p v =
     (if op_tx_hash p = k then
        Option.bind v (\<lambda>m. let m = set_dead m (unat (op_index p)) in if tm_all_dead m then None else Some m)
      else v)"

definition restore_at :: "transaction_meta option \<Rightarrow> byte32 \<Rightarrow> out_point \<Rightarrow> transaction_meta option \<Rightarrow> transaction_meta option" where
  "restore_at r k p v =
     (if op_tx_hash p = k then
        map_option (\<lambda>m. unset_dead m (unat (op_index p))) (case v of None \<Rightarrow> r | Some m \<Rightarrow> Some m)
      else v)"

text \<open>The positions of the outputs of one transaction among a list of out points.\<close>

definition positions :: "byte32 \<Rightarrow> out_point list \<Rightarrow> nat list" where
  "positions k ps = map (\<lambda>p. unat (op_index p)) (filter (\<lambda>p. op_tx_hash p = k) ps)"

lemma positions_simps [simp]:
  "positions k [] = []" "positions k (ps @ qs) = positions k ps @ positions k qs"
  "positions k (p # ps) = (if op_tx_hash p = k then unat (op_index p) # positions k ps else positions k ps)"
  by (simp_all add: positions_def)

lemma distinct_positions: "distinct ps \<Longrightarrow> distinct (positions k ps)"
  by (auto simp: positions_def distinct_map inj_on_def intro!: out_point.equality unat_eqI)

lemma spend_at_None [simp]: "fold (spend_at k) ps None = None"
  by (induction ps) (auto simp: spend_at_def)

lemma live_at_Cons:
  "live_at m (i # is) \<longleftrightarrow> i \<notin> set is \<and> tm_is_dead m i = Some False \<and> live_at (set_dead m i) is"
  by (auto simp: live_at_def tm_is_dead_def set_dead_update nth_list_update split: if_splits)

lemma live_not_all_dead: "live_at m (i # is) \<Longrightarrow> \<not> tm_all_dead m"
  by (auto simp: live_at_def tm_all_dead_def tm_is_dead_def list_all_length)

lemma fold_spend_at:
  "live_at m (positions k ps) \<Longrightarrow> fold (spend_at k) ps (Some m) =
     (let m' = fold (\<lambda>i m. set_dead m i) (positions k ps) m in
      if positions k ps \<noteq> [] \<and> tm_all_dead m' then None else Some m')"
proof (induction ps arbitrary: m)
  case (Cons p ps)
  show ?case
  proof (cases "op_tx_hash p = k")
    case True
    let ?m = "set_dead m (unat (op_index p))"
    have l: "live_at ?m (positions k ps)" using Cons.prems True by (simp add: live_at_Cons)
    have "positions k ps = []" if "tm_all_dead ?m"
      using l that live_not_all_dead by (cases "positions k ps") auto
    moreover have "spend_at k p (Some m) = (if tm_all_dead ?m then None else Some ?m)"
      using True by (simp add: spend_at_def Let_def)
    ultimately show ?thesis using True Cons.IH [OF l]
      by (cases "positions k ps = []") (auto simp: Let_def)
  qed (use Cons in \<open>simp add: spend_at_def\<close>)
qed simp

lemma restore_at_simps:
  "restore_at r k p (Some m) = Some (if op_tx_hash p = k then unset_dead m (unat (op_index p)) else m)"
  "restore_at r k p None = (if op_tx_hash p = k then map_option (\<lambda>m. unset_dead m (unat (op_index p))) r else None)"
  by (simp_all add: restore_at_def)

lemma fold_restore_Some:
  "fold (restore_at r k) ps (Some m) = Some (fold (\<lambda>i m. unset_dead m i) (positions k ps) m)"
  by (induction ps arbitrary: m) (auto simp: restore_at_simps)

lemma fold_restore_None:
  "fold (restore_at r k) ps None =
     (if positions k ps = [] then None else map_option (fold (\<lambda>i m. unset_dead m i) (positions k ps)) r)"
proof (induction ps)
  case (Cons p ps)
  then show ?case by (cases r) (auto simp: restore_at_simps fold_restore_Some)
qed simp

lemma restore_spend:
  assumes "live_at m (positions k ps)" and "set (positions k qs) = set (positions k ps)" and "r = Some (all_dead_meta m)"
  shows "fold (restore_at r k) qs (fold (spend_at k) ps (Some m)) = Some m"
proof -
  have "positions k qs = [] \<longleftrightarrow> positions k ps = []" using assms(2) by (metis set_empty)
  then show ?thesis
    using unset_set_dead [OF assms(1,2)] unset_all_dead [OF assms(1,2)] assms(3)
    by (auto simp: fold_spend_at [OF assms(1)] Let_def fold_restore_Some fold_restore_None)
qed

section \<open>The whole cell set\<close>

lemma spend_cell_set: "spend_cell p s = s\<lparr>st_cell_set := \<lambda>k. spend_at k p (st_cell_set s k)\<rparr>"
  by (auto simp: spend_cell_def spend_at_def get_tx_meta_def Let_def delete_cell_set_def update_cell_set_def
      fun_eq_iff split: option.splits intro!: store.equality)

lemma fold_spend_cell: "fold spend_cell ps s = s\<lparr>st_cell_set := \<lambda>k. fold (spend_at k) ps (st_cell_set s k)\<rparr>"
  by (induction ps arbitrary: s) (simp_all add: spend_cell_set)

text \<open>What attaching a list of transactions makes of a key of the cell set.\<close>

definition attach_at :: "block_view \<Rightarrow> byte32 \<Rightarrow> transaction_view list \<Rightarrow> transaction_meta option \<Rightarrow> transaction_meta option" where
  "attach_at b k txs v =
     fold (\<lambda>tx v. if tx_hash tx = k then Some (meta_of tx (bv_header b) False) else fold (spend_at k) (input_pts tx) v) txs v"

lemma fold_attach_tx_cell:
  "fold (attach_tx_cell b) txs s = s\<lparr>st_cell_set := \<lambda>k. attach_at b k txs (st_cell_set s k)\<rparr>"
proof (induction txs arbitrary: s)
  case (Cons tx txs)
  have "attach_tx_cell b tx s =
      s\<lparr>st_cell_set := \<lambda>k. if tx_hash tx = k then Some (meta_of tx (bv_header b) False)
                        else fold (spend_at k) (input_pts tx) (st_cell_set s k)\<rparr>"
    by (auto simp: attach_tx_cell_def fold_spend_cell update_cell_set_def fun_eq_iff intro!: store.equality)
  then show ?case using Cons.IH by (simp add: attach_at_def)
qed (simp add: attach_at_def)

lemma attach_at_other:
  "k \<notin> tx_hash ` set txs \<Longrightarrow> attach_at b k txs v = fold (spend_at k) (concat (map input_pts txs)) v"
  by (induction txs arbitrary: v) (auto simp: attach_at_def)

text \<open>
  Every transaction info points to a stored transaction, so that recovering the record of a
  transaction never panics.
\<close>

definition infos_stored :: "store \<Rightarrow> bool" where
  "infos_stored s \<longleftrightarrow> (\<forall>h i. st_tx_info s h = Some i \<longrightarrow> body_entry s i \<noteq> None)"

definition recovered :: "store \<Rightarrow> byte32 \<Rightarrow> transaction_meta option" where
  "recovered s h = (case recover_meta s h of Ok r \<Rightarrow> r | _ \<Rightarrow> None)"

lemma recover_meta_Ok: "infos_stored s \<Longrightarrow> recover_meta s h = Ok (recovered s h)"
  by (fastforce simp: recovered_def recover_meta_def get_transaction_def get_transaction_info_def infos_stored_def
      split: option.splits)

lemma recovered_cell_set [simp]:
  "recovered (s\<lparr>st_cell_set := cs\<rparr>) = recovered s" "infos_stored (s\<lparr>st_cell_set := cs\<rparr>) = infos_stored s"
  by (simp_all add: fun_eq_iff recovered_def recover_meta_def get_transaction_def get_transaction_info_def
      get_block_header_def body_entry_def infos_stored_def cong: option.case_cong)

lemma restore_cell_set:
  "infos_stored s \<Longrightarrow> restore_cell s p =
     Ok (s\<lparr>st_cell_set := \<lambda>k. restore_at (recovered s k) k p (st_cell_set s k)\<rparr>)"
  by (auto simp: restore_cell_def restore_at_def get_tx_meta_def Let_def update_cell_set_def recover_meta_Ok
      fun_eq_iff split: option.splits intro!: store.equality)

lemma try_fold_restore_cell:
  "infos_stored s \<Longrightarrow> try_fold restore_cell s ps =
     Ok (s\<lparr>st_cell_set := \<lambda>k. fold (restore_at (recovered s k) k) ps (st_cell_set s k)\<rparr>)"
  by (induction ps arbitrary: s) (simp_all add: restore_cell_set)

text \<open>What detaching a list of transactions, given last first, makes of a key of the cell set.\<close>

definition detach_at :: "transaction_meta option \<Rightarrow> byte32 \<Rightarrow> transaction_view list \<Rightarrow> transaction_meta option \<Rightarrow> transaction_meta option" where
  "detach_at r k txs v =
     fold (\<lambda>tx v. fold (restore_at r k) (input_pts tx) (if tx_hash tx = k then None else v)) txs v"

lemma try_fold_detach:
  "infos_stored s \<Longrightarrow>
   try_fold (\<lambda>s tx. try_fold restore_cell (delete_cell_set (tx_hash tx) s) (input_pts tx)) s txs =
     Ok (s\<lparr>st_cell_set := \<lambda>k. detach_at (recovered s k) k txs (st_cell_set s k)\<rparr>)"
proof (induction txs arbitrary: s)
  case (Cons tx txs)
  have d: "infos_stored (delete_cell_set (tx_hash tx) s)" "recovered (delete_cell_set (tx_hash tx) s) = recovered s"
    using Cons.prems by (simp_all add: delete_cell_set_def)
  have "try_fold restore_cell (delete_cell_set (tx_hash tx) s) (input_pts tx) =
      Ok (s\<lparr>st_cell_set := \<lambda>k. fold (restore_at (recovered s k) k) (input_pts tx)
                              (if tx_hash tx = k then None else st_cell_set s k)\<rparr>)"
    unfolding try_fold_restore_cell [OF d(1)] d(2)
    by (auto simp: delete_cell_set_def fun_eq_iff intro!: store.equality arg_cong2 [of _ _ _ _ "fold _"])
  then show ?case using Cons.IH Cons.prems by (simp add: detach_at_def)
qed (simp add: detach_at_def)

lemma detach_at_other:
  "k \<notin> tx_hash ` set txs \<Longrightarrow> detach_at r k txs v = fold (restore_at r k) (concat (map input_pts txs)) v"
  by (induction txs arbitrary: v) (auto simp: detach_at_def)

lemma restore_None [simp]: "fold (restore_at None k) ps None = None"
  by (induction ps) (auto simp: restore_at_simps)

lemma detach_at_None [simp]: "detach_at None k txs None = None"
  by (induction txs) (auto simp: detach_at_def)

lemma detach_at_own: "k \<in> tx_hash ` set txs \<Longrightarrow> detach_at None k txs v = None"
proof (induction txs arbitrary: v)
  case (Cons tx txs)
  then show ?case
    using detach_at_None [of k txs] by (cases "tx_hash tx = k") (auto simp: detach_at_def)
qed simp

section \<open>The index\<close>

text \<open>The block's own keys are not yet in the index.\<close>

definition fresh_block :: "store \<Rightarrow> block_view \<Rightarrow> bool" where
  "fresh_block s b \<longleftrightarrow>
     (\<forall>h\<in>set (bv_tx_hashes b). st_tx_info s h = None \<and> st_cell_set s h = None) \<and>
     (\<forall>u\<in>set (bv_uncles b). st_uncles s (uv_hash u) = None) \<and>
     st_index_hash s (bv_number b) = None \<and> st_index_number s (bv_hash b) = None"

lemma fold_put_info:
  "fold (\<lambda>x s. s\<lparr>st_tx_info := (st_tx_info s)(f x := g x)\<rparr>) xs s =
     s\<lparr>st_tx_info := fold (\<lambda>x m. m(f x := g x)) xs (st_tx_info s)\<rparr>"
  by (induction xs arbitrary: s) simp_all

lemma fold_put_uncles:
  "fold (\<lambda>x s. s\<lparr>st_uncles := (st_uncles s)(f x := g x)\<rparr>) xs s =
     s\<lparr>st_uncles := fold (\<lambda>x m. m(f x := g x)) xs (st_uncles s)\<rparr>"
  by (induction xs arbitrary: s) simp_all

lemma fold_upd_other: "k \<notin> f ` set xs \<Longrightarrow> fold (\<lambda>x m. m(f x := g x)) xs m k = m k"
  by (induction xs arbitrary: m) auto

lemma fold_clear: "fold (\<lambda>x m. m(f x := None)) xs m k = (if k \<in> f ` set xs then None else m k)"
  by (induction xs arbitrary: m) auto

lemma clear_fold_upd:
  assumes "\<forall>x\<in>set xs. m (f x) = None" and "f ` set xs = f' ` set ys"
  shows "fold (\<lambda>x m. m(f' x := None)) ys (fold (\<lambda>x m. m(f x := g x)) xs m) = m"
proof
  fix k
  show "fold (\<lambda>x m. m(f' x := None)) ys (fold (\<lambda>x m. m(f x := g x)) xs m) k = m k"
  proof (cases "k \<in> f ` set xs")
    case True
    then have "m k = None" using assms(1) by auto
    then show ?thesis using True assms(2) by (simp add: fold_clear del: fun_upd_apply)
  qed (use assms(2) in \<open>simp add: fold_clear fold_upd_other del: fun_upd_apply\<close>)
qed

lemma snd_enumerate: "snd ` set (enumerate n xs) = set xs"
  by (metis map_snd_enumerate list.set_map)

lemma detach_attach_block:
  assumes "fresh_block s b"
  shows "detach_block b (attach_block b s\<lparr>st_cell_set := cs\<rparr>) = s\<lparr>st_cell_set := cs\<rparr>"
proof -
  have "\<forall>x\<in>set (enumerate 0 (bv_tx_hashes b)). st_tx_info s (snd x) = None"
    using assms unfolding fresh_block_def snd_enumerate [of 0 "bv_tx_hashes b", symmetric] by blast
  note a = clear_fold_upd [where f = snd and m = "st_tx_info s" and f' = "\<lambda>h. h" and ys = "bv_tx_hashes b", OF this]
  have "\<forall>u\<in>set (bv_uncles b). st_uncles s (uv_hash u) = None" using assms by (simp add: fresh_block_def)
  note u = clear_fold_upd [where f = uv_hash and m = "st_uncles s" and f' = uv_hash and ys = "bv_uncles b", OF this]
  show ?thesis using assms
    by (intro store.equality) (simp_all add: detach_block_def attach_block_def Let_def fold_put_info fold_put_uncles
      case_prod_unfold a u snd_enumerate fresh_block_def bv_number_def fun_upd_idem)
qed

section \<open>A block that resolves\<close>

text \<open>
  The cell set agrees with the stored transactions: the record of a transaction differs from
  its recovered record only in the dead outputs. No transaction has the zero hash.
\<close>

definition cell_set_sound :: "store \<Rightarrow> bool" where
  "cell_set_sound s \<longleftrightarrow> infos_stored s \<and>
     (\<forall>h m. st_cell_set s h = Some m \<longrightarrow> recovered s h = Some (all_dead_meta m)) \<and>
     (\<forall>h. byte32_is_zero h \<longrightarrow> st_cell_set s h = None \<and> st_tx_info s h = None)"

lemma recovered_None: "st_tx_info s h = None \<Longrightarrow> recovered s h = None"
  by (simp add: recovered_def recover_meta_def get_transaction_def get_transaction_info_def)

lemma positions_spent:
  "\<not> byte32_is_zero k \<Longrightarrow> positions k (concat (map input_pts txs)) = positions k (concat (map spent_pts txs))"
  by (induction txs)
    (auto simp: spent_pts_def tx_is_cellbase_def input_pts_def out_point_is_null_def positions_def length_Suc_conv)

lemma output_indices_None: "h \<notin> tx_hash ` set (bv_transactions b) \<Longrightarrow> output_indices b h = None"
  by (auto simp: output_indices_def map_of_eq_None_iff in_set_enumerate_eq)

lemma overlay_store_live:
  assumes "overlay_cell (block_cell X b (output_indices b)) (store_cell X s) p w = Ok (Live c)"
    and "op_tx_hash p \<notin> tx_hash ` set (bv_transactions b)"
  shows "\<exists>m. st_cell_set s (op_tx_hash p) = Some m \<and> tm_is_dead m (unat (op_index p)) = Some False"
  using assms(1) output_indices_None [OF assms(2)]
  by (auto simp: overlay_cell_def block_cell_def store_cell_def Let_def get_tx_meta_def
      split: option.splits bool.splits)

lemma block_cell_provider_new_indices: "block_cell_provider_new b = Ok m \<Longrightarrow> m = output_indices b"
  by (auto simp: block_cell_provider_new_def Let_def tryq_eq_Ok)

text \<open>
  What the resolution gives on every key: an input of the block outside the block itself spends
  a live output, no two inputs the same one.
\<close>

definition spendable :: "store \<Rightarrow> block_view \<Rightarrow> bool" where
  "spendable s b \<longleftrightarrow> (\<forall>k. k \<notin> tx_hash ` set (bv_transactions b) \<longrightarrow> \<not> byte32_is_zero k \<longrightarrow>
     (case st_cell_set s k of
        None \<Rightarrow> positions k (concat (map input_pts (bv_transactions b))) = []
      | Some m \<Rightarrow> live_at m (positions k (concat (map input_pts (bv_transactions b))))))"

lemma resolved_spendable:
  assumes "resolve_block X sys (store_cell X s) hc b = Ok rs"
  shows "spendable s b"
  unfolding spendable_def
proof (intro allI impI)
  fix k
  assume k: "k \<notin> tx_hash ` set (bv_transactions b)" "\<not> byte32_is_zero k"
  let ?ps = "concat (map spent_pts (bv_transactions b))"
  obtain seen where "resolve_transactions X sys (overlay_cell (block_cell X b (output_indices b)) (store_cell X s)) hc {}
      (bv_transactions b) = Ok (rs, seen)"
    using assms block_cell_provider_new_indices by (auto simp: resolve_block_def tryq_eq_Ok)
  note r = resolve_transactions_Ok [OF this]
  have "\<exists>c. overlay_cell (block_cell X b (output_indices b)) (store_cell X s) p False = Ok (Live c)" if "p \<in> set ?ps" for p
    using r that by (auto simp: list_all2_conv_all_nth in_set_conv_nth)
  then have l: "\<exists>m. st_cell_set s k = Some m \<and> tm_is_dead m i = Some False" if "i \<in> set (positions k ?ps)" for i
    using that overlay_store_live k(1) unfolding positions_def by fastforce
  show "case st_cell_set s k of
        None \<Rightarrow> positions k (concat (map input_pts (bv_transactions b))) = []
      | Some m \<Rightarrow> live_at m (positions k (concat (map input_pts (bv_transactions b))))"
    unfolding positions_spent [OF k(2)]
  proof (cases "st_cell_set s k")
    case None
    then show "case st_cell_set s k of None \<Rightarrow> positions k ?ps = [] | Some m \<Rightarrow> live_at m (positions k ?ps)"
      using l by (cases "positions k ?ps") auto
  next
    case (Some m)
    then show "case st_cell_set s k of None \<Rightarrow> positions k ?ps = [] | Some m \<Rightarrow> live_at m (positions k ?ps)"
      using l r distinct_positions unfolding live_at_def by fastforce
  qed
qed

lemma detach_attach_key:
  assumes sp: "spendable s b" and sound: "cell_set_sound s" and fresh: "fresh_block s b"
    and hashes: "map tx_hash (bv_transactions b) = bv_tx_hashes b"
  shows "detach_at (recovered s k) k (rev (bv_transactions b))
      (attach_at b k (bv_transactions b) (st_cell_set s k)) = st_cell_set s k"
proof -
  let ?txs = "bv_transactions b" and ?ps = "concat (map input_pts (bv_transactions b))"
  have own: "tx_hash ` set ?txs = set (bv_tx_hashes b)" unfolding hashes [symmetric] by simp
  consider "k \<in> tx_hash ` set ?txs" | "k \<notin> tx_hash ` set ?txs" "byte32_is_zero k"
    | "k \<notin> tx_hash ` set ?txs" "\<not> byte32_is_zero k" by blast
  then show ?thesis
  proof cases
    case 1
    then have "st_tx_info s k = None" "st_cell_set s k = None" using fresh own by (auto simp: fresh_block_def)
    then show ?thesis using 1 by (simp add: recovered_None detach_at_own)
  next
    case 2
    then have "st_tx_info s k = None" "st_cell_set s k = None" using sound by (auto simp: cell_set_sound_def)
    then show ?thesis using 2 by (simp add: recovered_None attach_at_other)
  next
    case 3
    have perm: "set (positions k (concat (map input_pts (rev ?txs)))) = set (positions k ?ps)"
      by (auto simp: positions_def)
    have eq: "detach_at (recovered s k) k (rev ?txs) (attach_at b k ?txs (st_cell_set s k)) =
        fold (restore_at (recovered s k) k) (concat (map input_pts (rev ?txs))) (fold (spend_at k) ?ps (st_cell_set s k))"
      using 3 by (simp add: attach_at_other detach_at_other)
    have sp: "case st_cell_set s k of None \<Rightarrow> positions k ?ps = [] | Some m \<Rightarrow> live_at m (positions k ?ps)"
      using sp 3 by (simp add: spendable_def)
    show ?thesis
    proof (cases "st_cell_set s k")
      case None
      then have "positions k (concat (map input_pts (rev ?txs))) = []" using perm sp by (metis option.case(1) set_empty)
      then show ?thesis by (subst eq) (simp add: None fold_restore_None)
    next
      case (Some m)
      then have "live_at m (positions k ?ps)" "recovered s k = Some (all_dead_meta m)"
        using sp sound by (simp_all add: cell_set_sound_def)
      from restore_spend [OF this(1) perm this(2)] show ?thesis by (subst eq) (simp only: Some)
    qed
  qed
qed

text \<open>A block joins the main chain.\<close>

definition attach_main :: "block_view \<Rightarrow> store \<Rightarrow> store" where
  "attach_main b s = attach_block_cell b (attach_block b s)"

lemma attach_main_cell_set:
  "attach_main b s = (attach_block b s)\<lparr>st_cell_set := \<lambda>k. attach_at b k (bv_transactions b) (st_cell_set s k)\<rparr>"
  by (simp add: attach_main_def attach_block_cell_def fold_attach_tx_cell
      attach_block_def Let_def fold_put_info fold_put_uncles case_prod_unfold)

lemma detach_attach_main:
  assumes "spendable s b" and "cell_set_sound s" and "fresh_block s b" and "map tx_hash (bv_transactions b) = bv_tx_hashes b"
  shows "detach_block_cell b (detach_block b (attach_main b s)) = Ok s"
  using assms(2) detach_attach_key [OF assms] detach_attach_block [OF assms(3)]
  by (simp add: attach_main_cell_set detach_block_cell_def try_fold_detach cell_set_sound_def)

section \<open>Attaching keeps the cell set sound\<close>

lemma all_dead_set_dead [simp]: "all_dead_meta (set_dead m i) = all_dead_meta m"
  by (simp add: all_dead_meta_def set_dead_update tm_len_def)

lemma all_dead_meta_of [simp]: "all_dead_meta (meta_of tx hv d) = meta_of tx hv True"
  by (simp add: all_dead_meta_def meta_of_def tm_len_def tm_new_def tm_new_cellbase_def)

lemma fold_spend_template:
  "fold (spend_at k) ps v = Some m \<Longrightarrow> \<exists>m0. v = Some m0 \<and> all_dead_meta m = all_dead_meta m0"
proof (induction ps arbitrary: v)
  case (Cons p ps)
  then obtain m1 where "spend_at k p v = Some m1" "all_dead_meta m = all_dead_meta m1" by auto
  then show ?case by (auto simp: spend_at_def Let_def split: if_splits Option.bind_splits)
qed simp

lemma attach_at_template:
  assumes "attach_at b k txs v = Some m"
  shows "(\<exists>m0. v = Some m0 \<and> k \<notin> tx_hash ` set txs \<and> all_dead_meta m = all_dead_meta m0) \<or>
     (\<exists>tx\<in>set txs. tx_hash tx = k \<and> all_dead_meta m = meta_of tx (bv_header b) True)"
  using assms
proof (induction txs arbitrary: v)
  case (Cons tx txs)
  let ?v = "if tx_hash tx = k then Some (meta_of tx (bv_header b) False) else fold (spend_at k) (input_pts tx) v"
  have "attach_at b k txs ?v = Some m" using Cons.prems by (simp add: attach_at_def)
  from Cons.IH [OF this] show ?case
    using fold_spend_template [of k "input_pts tx" v] by (auto split: if_splits)
qed (simp add: attach_at_def)

text \<open>The transactions of the block have distinct hashes, none of them zero, and fit the index.\<close>

definition hashes_ok :: "block_view \<Rightarrow> bool" where
  "hashes_ok b \<longleftrightarrow> view_ok b \<and> distinct (bv_tx_hashes b) \<and> (\<forall>h\<in>set (bv_tx_hashes b). \<not> byte32_is_zero h) \<and>
     length (b_transactions b) \<le> 2 ^ 32"

lemma fold_upd_distinct:
  "distinct (map f xs) \<Longrightarrow> i < length xs \<Longrightarrow> fold (\<lambda>x m. m(f x := g x)) xs m (f (xs ! i)) = g (xs ! i)"
proof (induction xs arbitrary: i m)
  case (Cons x xs)
  then show ?case by (cases i) (auto simp: fold_upd_other fun_upd_same simp del: fun_upd_apply)
qed simp

text \<open>The transaction infos after the block joined the main chain.\<close>

definition block_info :: "block_view \<Rightarrow> nat \<Rightarrow> transaction_info" where
  "block_info b i = \<lparr>ti_block_hash = bv_hash b, ti_block_number = h_number (b_header b),
     ti_block_epoch = ef_from_full_value (h_epoch (b_header b)), ti_index = unat (of_nat i :: u32)\<rparr>"

lemma attach_block_infos:
  "st_tx_info (attach_block b s) =
     fold (\<lambda>x m. m(snd x := Some (block_info b (fst x)))) (enumerate 0 (bv_tx_hashes b)) (st_tx_info s)"
  by (simp add: attach_block_def Let_def fold_put_info fold_put_uncles case_prod_unfold block_info_def)

lemma attach_block_other [simp]:
  "st_header (attach_block b s) = st_header s" "st_body (attach_block b s) = st_body s"
  "st_cell_set (attach_block b s) = st_cell_set s"
  by (simp_all add: attach_block_def Let_def fold_put_info fold_put_uncles case_prod_unfold)

lemma attach_block_info_old:
  "h \<notin> set (bv_tx_hashes b) \<Longrightarrow> st_tx_info (attach_block b s) h = st_tx_info s h"
  by (simp add: attach_block_infos fold_upd_other snd_enumerate)

lemma attach_block_info_new:
  assumes "distinct (bv_tx_hashes b)" and "i < length (bv_tx_hashes b)"
  shows "st_tx_info (attach_block b s) (bv_tx_hashes b ! i) = Some (block_info b i)"
proof -
  have "distinct (map snd (enumerate 0 (bv_tx_hashes b)))" using assms(1) by simp
  from fold_upd_distinct [OF this, of i "\<lambda>x. Some (block_info b (fst x))"] show ?thesis
    using assms(2) by (simp add: attach_block_infos nth_enumerate_eq del: fun_upd_apply)
qed

text \<open>The header and the body of the block are stored.\<close>

definition stored :: "store \<Rightarrow> block_view \<Rightarrow> bool" where
  "stored s b \<longleftrightarrow> st_header s (bv_hash b) = Some (bv_header b) \<and>
     st_body s (bv_hash b) = body_entries 0 (bv_transactions b)"

lemma attached_entry:
  assumes "hashes_ok b" and "stored s b" and "i < length (bv_tx_hashes b)"
  shows "body_entry (attach_block b s) (block_info b i) = Some (bv_transactions b ! i)"
  using assms map_of_body_entries [of i "bv_transactions b" 0] view_ok_transactions(4) [of b]
  by (simp add: hashes_ok_def view_ok_def stored_def body_entry_def block_info_def)

lemma attached_recovered:
  assumes "hashes_ok b" and "stored s b" and "i < length (bv_tx_hashes b)"
  shows "recovered (attach_block b s) (bv_tx_hashes b ! i) = Some (meta_of (bv_transactions b ! i) (bv_header b) True)"
  using assms attach_block_info_new [of b i s] attached_entry [OF assms]
  by (simp add: recovered_def recover_meta_def get_transaction_def get_transaction_info_def hashes_ok_def
      get_block_header_def stored_def block_info_def)

lemma attached_other:
  "body_entry (attach_block b s) = body_entry s"
  "h \<notin> set (bv_tx_hashes b) \<Longrightarrow> recovered (attach_block b s) h = recovered s h"
proof -
  show e: "body_entry (attach_block b s) = body_entry s" by (simp add: body_entry_def fun_eq_iff)
  show "h \<notin> set (bv_tx_hashes b) \<Longrightarrow> recovered (attach_block b s) h = recovered s h"
    by (simp add: e recovered_def recover_meta_def get_transaction_def get_transaction_info_def get_block_header_def
        attach_block_info_old cong: option.case_cong)
qed

lemma attach_block_infos_stored:
  assumes "infos_stored s" and "hashes_ok b" and "stored s b"
  shows "infos_stored (attach_block b s)"
  unfolding infos_stored_def
proof (intro allI impI)
  fix h i
  assume i: "st_tx_info (attach_block b s) h = Some i"
  show "body_entry (attach_block b s) i \<noteq> None"
  proof (cases "h \<in> set (bv_tx_hashes b)")
    case True
    then show ?thesis
      using i assms(2) attach_block_info_new attached_entry [OF assms(2,3)]
      by (fastforce simp: in_set_conv_nth hashes_ok_def)
  next
    case False
    then show ?thesis using i assms(1) attach_block_info_old [OF False]
      unfolding attached_other(1) by (simp add: infos_stored_def)
  qed
qed

lemma attach_main_sound:
  assumes sound: "cell_set_sound s" and ok: "hashes_ok b" and st: "stored s b"
  shows "cell_set_sound (attach_main b s)"
proof -
  have hs: "tx_hash ` set (bv_transactions b) = set (bv_tx_hashes b)"
    using ok view_ok_transactions(2) [of b] by (metis hashes_ok_def list.set_map)
  have rec: "recovered (attach_block b s) k = Some (all_dead_meta m)"
    if m: "attach_at b k (bv_transactions b) (st_cell_set s k) = Some m" for k m
    using attach_at_template [OF m]
  proof
    assume "\<exists>m0. st_cell_set s k = Some m0 \<and> k \<notin> tx_hash ` set (bv_transactions b) \<and> all_dead_meta m = all_dead_meta m0"
    then show ?thesis using attached_other(2) sound hs by (auto simp: cell_set_sound_def)
  next
    assume "\<exists>tx\<in>set (bv_transactions b). tx_hash tx = k \<and> all_dead_meta m = meta_of tx (bv_header b) True"
    then obtain i where "i < length (bv_transactions b)" "tx_hash (bv_transactions b ! i) = k"
        "all_dead_meta m = meta_of (bv_transactions b ! i) (bv_header b) True" by (auto simp: in_set_conv_nth)
    then show ?thesis using attached_recovered [OF ok st, of i] view_ok_transactions(2) [of b] ok
      by (metis hashes_ok_def length_map nth_map)
  qed
  have zero: "attach_at b k (bv_transactions b) (st_cell_set s k) = None \<and> st_tx_info (attach_block b s) k = None"
    if "byte32_is_zero k" for k
  proof -
    have "k \<notin> set (bv_tx_hashes b)" using ok that by (auto simp: hashes_ok_def)
    then show ?thesis using hs sound that by (simp add: attach_at_other attach_block_info_old cell_set_sound_def)
  qed
  show ?thesis
    using attach_block_infos_stored [OF _ ok st] sound rec zero by (simp add: attach_main_cell_set cell_set_sound_def)
qed

section \<open>The live cells\<close>

definition live_cells :: "store \<Rightarrow> out_point set" where
  "live_cells s = {p. \<exists>m. st_cell_set s (op_tx_hash p) = Some m \<and> tm_is_dead m (unat (op_index p)) = Some False}"

definition alive :: "transaction_meta option \<Rightarrow> nat \<Rightarrow> bool" where
  "alive v i \<longleftrightarrow> (\<exists>m. v = Some m \<and> tm_is_dead m i = Some False)"

lemma nth_update_at: "j < length xs \<Longrightarrow> xs[i := x] ! j = (if i = j then x else xs ! j)"
  by simp

lemma alive_spend_at: "alive (spend_at k p v) i \<longleftrightarrow> alive v i \<and> \<not> (op_tx_hash p = k \<and> unat (op_index p) = i)"
  by (cases v)
    (auto simp: spend_at_def alive_def Let_def set_dead_update tm_is_dead_def tm_all_dead_def list_all_length
      nth_update_at split: if_splits)

lemma alive_fold_spend: "alive (fold (spend_at k) ps v) i \<longleftrightarrow> alive v i \<and> i \<notin> set (positions k ps)"
  by (induction ps arbitrary: v) (auto simp: alive_spend_at)

lemma attach_at_append: "attach_at b k (xs @ ys) v = attach_at b k ys (attach_at b k xs v)"
  by (simp add: attach_at_def)

lemma alive_attach_own:
  assumes "k \<notin> tx_hash ` set post" and "tx_hash tx = k"
  shows "alive (attach_at b k (pre @ tx # post) v) i \<longleftrightarrow>
     i < length (tx_outputs tx) \<and> i \<notin> set (positions k (concat (map input_pts post)))"
proof -
  have "attach_at b k (pre @ tx # post) v =
      fold (spend_at k) (concat (map input_pts post)) (Some (meta_of tx (bv_header b) False))"
    using assms attach_at_other [OF assms(1)] by (simp add: attach_at_append) (simp add: attach_at_def)
  moreover have "alive (Some (meta_of tx (bv_header b) False)) i \<longleftrightarrow> i < length (tx_outputs tx)"
    by (auto simp: alive_def tm_is_dead_def meta_of_def tm_new_def tm_new_cellbase_def)
  ultimately show ?thesis by (simp add: alive_fold_spend)
qed

text \<open>Within the block, a cell is only spent after the transaction that creates it.\<close>

definition in_order :: "block_view \<Rightarrow> bool" where
  "in_order b \<longleftrightarrow> (\<forall>i < length (bv_transactions b). \<forall>j < length (bv_transactions b).
     \<forall>p \<in> set (input_pts (bv_transactions b ! i)). tx_hash (bv_transactions b ! j) = op_tx_hash p \<longrightarrow> j < i)"

lemma resolved_in_order:
  assumes "resolve_block X sys cp hc b = Ok rs"
  shows "in_order b"
proof -
  obtain m where "block_cell_provider_new b = Ok m" using assms by (auto simp: resolve_block_def tryq_eq_Ok)
  from block_cell_provider_order [OF this] show ?thesis unfolding in_order_def uses_def by blast
qed

definition created :: "block_view \<Rightarrow> out_point set" where
  "created b = {p. \<exists>tx\<in>set (bv_transactions b). op_tx_hash p = tx_hash tx \<and> unat (op_index p) < length (tx_outputs tx)}"

definition spent :: "block_view \<Rightarrow> out_point set" where
  "spent b = set (concat (map input_pts (bv_transactions b)))"

lemma positions_spent_iff: "unat (op_index p) \<in> set (positions (op_tx_hash p) ps) \<longleftrightarrow> p \<in> set ps"
  by (auto simp: positions_def) (metis out_point.equality old.unit.exhaust unat_eqI)

lemma alive_own_iff:
  assumes ord: "in_order b" and d: "distinct (map tx_hash (bv_transactions b))" and tx: "tx \<in> set (bv_transactions b)"
    and k: "tx_hash tx = op_tx_hash p"
  shows "alive (attach_at b (op_tx_hash p) (bv_transactions b) v) (unat (op_index p)) \<longleftrightarrow>
     unat (op_index p) < length (tx_outputs tx) \<and> p \<notin> spent b"
proof -
  obtain pre post where txs: "bv_transactions b = pre @ tx # post" using tx by (meson split_list)
  have "tx_hash tx \<notin> tx_hash ` set post" using d by (simp add: txs)
  then have post: "op_tx_hash p \<notin> tx_hash ` set post" unfolding k .
  have early: "p \<notin> set (input_pts t)" if early: "t \<in> set (pre @ [tx])" for t
  proof
    assume p: "p \<in> set (input_pts t)"
    obtain i where i: "i < length (pre @ [tx])" "t = (pre @ [tx]) ! i"
      using early unfolding in_set_conv_nth by blast
    have "bv_transactions b = (pre @ [tx]) @ post" by (simp add: txs)
    then have t: "t = bv_transactions b ! i" using i by (metis nth_append)
    have l: "i < length (bv_transactions b)" "length pre < length (bv_transactions b)"
        "tx_hash (bv_transactions b ! length pre) = op_tx_hash p"
      using i(1) k by (simp_all add: txs)
    have "length pre < i" using ord [unfolded in_order_def, rule_format, OF l(1,2) _ l(3)] p t by simp
    then show False using i(1) by simp
  qed
  have "p \<in> spent b \<longleftrightarrow> p \<in> set (concat (map input_pts post))" using early by (auto simp: spent_def txs)
  then show ?thesis using alive_attach_own [OF post k] by (simp add: txs positions_spent_iff)
qed

lemma live_cells_attach:
  assumes ord: "in_order b" and ok: "hashes_ok b" and fresh: "fresh_block s b"
  shows "live_cells (attach_main b s) = (live_cells s \<union> created b) - spent b"
proof -
  note v = view_ok_transactions(2) [of b]
  have hs: "tx_hash ` set (bv_transactions b) = set (bv_tx_hashes b)" and d: "distinct (map tx_hash (bv_transactions b))"
    using ok v unfolding hashes_ok_def by (metis list.set_map, simp)
  have "p \<in> live_cells (attach_main b s) \<longleftrightarrow> p \<in> (live_cells s \<union> created b) - spent b" for p
  proof (cases "op_tx_hash p \<in> tx_hash ` set (bv_transactions b)")
    case True
    then obtain tx where tx: "tx \<in> set (bv_transactions b)" "tx_hash tx = op_tx_hash p" by auto
    have "p \<notin> live_cells s" using True fresh hs by (auto simp: live_cells_def fresh_block_def)
    moreover have "t = tx" if "t \<in> set (bv_transactions b)" "op_tx_hash p = tx_hash t" for t
      using d tx that unfolding distinct_map by (metis inj_onD)
    then have "p \<in> created b \<longleftrightarrow> unat (op_index p) < length (tx_outputs tx)"
      unfolding created_def mem_Collect_eq using tx by metis
    ultimately show ?thesis
      using alive_own_iff [OF ord d tx, of "st_cell_set s (op_tx_hash p)"]
      by (auto simp: live_cells_def attach_main_cell_set alive_def)
  next
    case False
    then have "p \<notin> created b" by (auto simp: created_def)
    then show ?thesis
      using alive_fold_spend [of "op_tx_hash p" _ "st_cell_set s (op_tx_hash p)" "unat (op_index p)"]
      by (auto simp: live_cells_def attach_main_cell_set attach_at_other [OF False] alive_def spent_def positions_spent_iff)
  qed
  then show ?thesis by blast
qed

section \<open>Histories of the main chain\<close>

text \<open>
  The stores reached by storing blocks, attaching a block to the main chain after its
  transactions resolved, and detaching the last one. The list holds the blocks of the main
  chain, last first.
\<close>

inductive main_chain :: "'z ext_scheme \<Rightarrow> block_view list \<Rightarrow> store \<Rightarrow> bool" for X where
  start: "main_chain X [] store_empty"
| store_block: "main_chain X bs s \<Longrightarrow> st_header s (bv_hash b) = None \<Longrightarrow> st_body s (bv_hash b) = [] \<Longrightarrow>
    main_chain X bs (insert_block b s)"
| attach: "main_chain X bs s \<Longrightarrow> stored s b \<Longrightarrow> fresh_block s b \<Longrightarrow> hashes_ok b \<Longrightarrow>
    resolve_block X sys (store_cell X s) hc b = Ok rs \<Longrightarrow>
    main_chain X (b # bs) (attach_block_cell b (attach_block b s))"
| detach: "main_chain X (b # bs) s \<Longrightarrow> detach_block_cell b (detach_block b s) = Ok s' \<Longrightarrow> main_chain X bs s'"

text \<open>The live cells a chain of blocks leaves, last block first.\<close>

fun utxo :: "block_view list \<Rightarrow> out_point set" where
  "utxo [] = {}"
| "utxo (b # bs) = (utxo bs \<union> created b) - spent b"

text \<open>A store is the result of attaching the blocks one after another.\<close>

fun built :: "block_view list \<Rightarrow> store \<Rightarrow> bool" where
  "built [] s \<longleftrightarrow> st_cell_set s = Map.empty \<and> st_tx_info s = Map.empty \<and> st_index_number s = Map.empty"
| "built (b # bs) s \<longleftrightarrow> (\<exists>s0. built bs s0 \<and> s = attach_main b s0 \<and> stored s0 b \<and> fresh_block s0 b \<and> hashes_ok b \<and>
     spendable s0 b \<and> in_order b)"

lemma insert_block_commutes: "insert_block c (attach_main b s) = attach_main b (insert_block c s)"
  by (simp add: attach_main_cell_set insert_block_columns attach_block_def Let_def fold_put_info fold_put_uncles
      case_prod_unfold)

lemma built_insert_block:
  "built bs s \<Longrightarrow> st_header s (bv_hash c) = None \<Longrightarrow> st_body s (bv_hash c) = [] \<Longrightarrow> built bs (insert_block c s)"
proof (induction bs arbitrary: s)
  case (Cons b bs)
  then obtain s0 where s0: "built bs s0" "s = attach_main b s0" "stored s0 b" "fresh_block s0 b" "hashes_ok b"
      "spendable s0 b" "in_order b" by auto
  have c: "st_header s0 (bv_hash c) = None" "st_body s0 (bv_hash c) = []"
    using Cons.prems(2,3) s0(2) by (simp_all add: attach_main_cell_set)
  then have "bv_hash b \<noteq> bv_hash c" using s0(3) by (auto simp: stored_def)
  then have "stored (insert_block c s0) b" "fresh_block (insert_block c s0) b" "spendable (insert_block c s0) b"
    using s0(3,4,6) by (simp_all add: insert_block_columns stored_def fresh_block_def spendable_def)
  then show ?case using Cons.IH [OF s0(1) c] s0 insert_block_commutes by auto
qed (simp add: insert_block_columns)

lemma built_sound: "built bs s \<Longrightarrow> cell_set_sound s"
proof (induction bs arbitrary: s)
  case Nil
  then show ?case by (simp add: cell_set_sound_def infos_stored_def)
next
  case (Cons b bs)
  then show ?case using attach_main_sound by auto
qed

lemma built_utxo: "built bs s \<Longrightarrow> live_cells s = utxo bs"
proof (induction bs arbitrary: s)
  case Nil
  then show ?case by (simp add: live_cells_def)
next
  case (Cons b bs)
  then show ?case using live_cells_attach by auto
qed

lemma attach_main_index: "st_index_number (attach_main b s) = (st_index_number s)(bv_hash b \<mapsto> bv_number b)"
  by (simp add: attach_main_cell_set attach_block_def Let_def fold_put_info fold_put_uncles case_prod_unfold)

lemma built_index: "built bs s \<Longrightarrow> is_main_chain s h \<longleftrightarrow> h \<in> bv_hash ` set bs"
proof (induction bs arbitrary: s)
  case Nil
  then show ?case by (simp add: is_main_chain_def)
next
  case (Cons b bs)
  then obtain s0 where "built bs s0" "s = attach_main b s0" by auto
  then show ?case using Cons.IH by (auto simp: is_main_chain_def attach_main_index)
qed

lemma main_chain_built: "main_chain X bs s \<Longrightarrow> built bs s"
proof (induction rule: main_chain.induct)
  case start
  then show ?case by (simp add: store_empty_def)
next
  case (store_block bs s b)
  then show ?case by (simp add: built_insert_block)
next
  case (attach bs s b sys hc rs)
  then have "spendable s b" "in_order b" using resolved_spendable resolved_in_order by blast+
  then show ?case using attach unfolding attach_main_def [symmetric] by auto
next
  case (detach b bs s s')
  then obtain s0 where s0: "built bs s0" "s = attach_main b s0" "fresh_block s0 b" "hashes_ok b" "spendable s0 b" by auto
  then have "detach_block_cell b (detach_block b s) = Ok s0"
    using built_sound view_ok_transactions(2) by (simp add: detach_attach_main hashes_ok_def)
  then show ?case using detach.hyps s0(1) by simp
qed


section \<open>The provider over a sound store\<close>

text \<open>The stored transactions of the main chain have data for every output.\<close>

definition outputs_have_data :: "store \<Rightarrow> bool" where
  "outputs_have_data s \<longleftrightarrow> (\<forall>h i tx. st_tx_info s h = Some i \<longrightarrow> body_entry s i = Some tx \<longrightarrow>
     length (tx_outputs tx) = length (tx_outputs_data tx))"

lemma length_meta_of: "tm_len (meta_of tx hv d) = length (tx_outputs tx)"
  by (simp add: tm_len_def meta_of_def tm_new_def tm_new_cellbase_def)

lemma recovered_SomeD:
  assumes "recovered s h = Some r"
  shows "\<exists>i tx hv. st_tx_info s h = Some i \<and> body_entry s i = Some tx \<and> r = meta_of tx hv True"
proof (cases "st_tx_info s h")
  case (Some i)
  then show ?thesis using assms
    by (cases "body_entry s i") (auto simp: recovered_def recover_meta_def get_transaction_def get_transaction_info_def)
qed (use assms in \<open>simp add: recovered_None\<close>)

lemma live_cell_stored:
  assumes "cell_set_sound s" and "outputs_have_data s" and "p \<in> live_cells s"
  shows "\<exists>i tx. st_tx_info s (op_tx_hash p) = Some i \<and> body_entry s i = Some tx \<and>
     unat (op_index p) < length (tx_outputs tx) \<and> unat (op_index p) < length (tx_outputs_data tx)"
proof -
  obtain m where m: "st_cell_set s (op_tx_hash p) = Some m" "unat (op_index p) < tm_len m"
    using assms(3) by (auto simp: live_cells_def tm_is_dead_def tm_len_def)
  then have r: "recovered s (op_tx_hash p) = Some (all_dead_meta m)" using assms(1) by (simp add: cell_set_sound_def)
  obtain i tx hv where tx: "st_tx_info s (op_tx_hash p) = Some i" "body_entry s i = Some tx"
      "all_dead_meta m = meta_of tx hv True" using recovered_SomeD [OF r] by blast
  have "tm_len m = length (tx_outputs tx)"
    using tx(3) length_meta_of [of tx hv True] by (metis all_dead_meta_def length_replicate tm_len_def transaction_meta.select_convs(5) transaction_meta.surjective transaction_meta.update_convs(5))
  then show ?thesis using m(2) tx(1,2) assms(2) by (auto simp: outputs_have_data_def)
qed

text \<open>The metadata of an output of a stored transaction.\<close>

definition stored_meta :: "'z ext_scheme \<Rightarrow> out_point \<Rightarrow> bool \<Rightarrow> transaction_info \<Rightarrow> transaction_view \<Rightarrow> cell_meta" where
  "stored_meta X p w i tx =
     (let d = tx_outputs_data tx ! unat (op_index p) in
      \<lparr>cm_cell_output = tx_outputs tx ! unat (op_index p), cm_out_point = p, cm_transaction_info = Some i,
       cm_data_bytes = of_nat (length d), cm_mem_cell_data = (if w then Some (d, calc_data_hash X d) else None)\<rparr>)"

lemma store_cell_live:
  assumes "cell_set_sound s" and "outputs_have_data s" and "p \<in> live_cells s"
  shows "\<exists>i tx. st_tx_info s (op_tx_hash p) = Some i \<and> body_entry s i = Some tx \<and>
     store_cell X s p w = Ok (Live (stored_meta X p w i tx))"
proof -
  obtain i tx where tx: "st_tx_info s (op_tx_hash p) = Some i" "body_entry s i = Some tx"
     "unat (op_index p) < length (tx_outputs tx)" "unat (op_index p) < length (tx_outputs_data tx)"
    using live_cell_stored [OF assms] by blast
  obtain m where m: "st_cell_set s (op_tx_hash p) = Some m" "tm_is_dead m (unat (op_index p)) = Some False"
    using assms(3) by (auto simp: live_cells_def)
  have "store_cell X s p w = Ok (Live (stored_meta X p w i tx))"
    using m tx by (simp add: store_cell_def stored_meta_def Let_def get_tx_meta_def get_cell_meta_def get_cell_data_def
        get_transaction_info_def out_point_new_def vec_get_def)
  then show ?thesis using tx by blast
qed

section \<open>An example\<close>

text \<open>A block with one transaction, which creates the cell the other example block spends.\<close>

definition example_base_block :: block_view where
  "example_base_block = block.extend
     \<lparr>b_header = example_header\<lparr>h_number := 6\<rparr>, b_uncles = [],
      b_transactions = [example_tx\<lparr>tx_header_deps := []\<rparr>], b_proposals = []\<rparr>
     \<lparr>bv_hash = replicate 32 7, bv_uncle_hashes = [], bv_tx_hashes = [replicate 32 9],
      bv_tx_witness_hashes = [replicate 32 3]\<rparr>"

lemma example_base_transactions:
  "bv_transactions example_base_block = [tx_view (example_tx\<lparr>tx_header_deps := []\<rparr>) (replicate 32 9) (replicate 32 3)]"
  by (simp add: bv_transactions_def example_base_block_def block.defs)

lemma example_base_order: "block_cell_provider_new example_base_block = Ok [replicate 32 9 \<mapsto> 0]"
  by (simp add: block_cell_provider_new_def Let_def example_base_transactions output_indices_def
      example_tx_def input_pts_def check_order_def new_cellbase_input_def cell_input_new_def out_point_null_def
      byte32_zero_def)

lemma example_base_resolves: "resolve_block ext_word None cp (\<lambda>_. Ok ()) example_base_block =
   Ok [\<lparr>rtx_transaction = bv_transactions example_base_block ! 0, rtx_cell_deps = [], rtx_inputs = [], rtx_dep_groups = []\<rparr>]"
  by (simp add: resolve_block_def example_base_order example_base_transactions example_spend_sel
      resolve_transaction_def example_cellbase resolve_deps_with_system_cell_cache_def)

lemma example_spend_resolves:
  assumes "cp example_point False = Ok (Live c)"
  shows "\<exists>rs. resolve_block ext_word None cp (\<lambda>_. Ok ()) example_spend_block = Ok rs"
proof -
  have "overlay_cell (block_cell ext_word example_spend_block [replicate 32 1 \<mapsto> 0, replicate 32 2 \<mapsto> Suc 0])
      cp example_point False = Ok (Live c)"
    using assms by (simp add: overlay_cell_def block_cell_def example_point_def)
  then show ?thesis
    by (simp add: resolve_block_def example_block_order example_spend_transactions example_spend_sel
        resolve_transaction_def example_cellbase example_not_cellbase resolve_inputs_def resolve_cell_def
        resolve_deps_with_system_cell_cache_def input_pts_def cell_input_new_def)
qed

text \<open>The store with the first block attached and the second one stored.\<close>

definition example_store :: store where
  "example_store = insert_block example_spend_block
     (attach_block_cell example_base_block (attach_block example_base_block (insert_block example_base_block store_empty)))"

lemma example_base_sel:
  "bv_hash example_base_block = replicate 32 7" "bv_tx_hashes example_base_block = [replicate 32 9]"
  "bv_number example_base_block = 6" "bv_uncles example_base_block = []" "b_transactions example_base_block = [example_tx\<lparr>tx_header_deps := []\<rparr>]"
  by (simp_all add: example_base_block_def block.defs bv_number_def bv_uncles_def)

lemma example_spend_block_sel:
  "bv_hash example_spend_block = replicate 32 5" "bv_tx_hashes example_spend_block = [replicate 32 1, replicate 32 2]"
  "bv_number example_spend_block = 7" "bv_uncles example_spend_block = []"
  by (simp_all add: example_spend_block_def block.defs bv_number_def bv_uncles_def example_block_def example_header_def)

lemma example_hashes_ok: "hashes_ok example_base_block" "hashes_ok example_spend_block"
  by (simp_all add: hashes_ok_def view_ok_def example_base_block_def example_spend_block_def block.defs byte32_is_zero_def
      list_all_iff)

lemma stored_insert_block:
  "st_body s (bv_hash b) = [] \<Longrightarrow> hashes_ok b \<Longrightarrow> stored (insert_block b s) b"
  using insert_block_fresh [of s b] view_ok_transactions(4) [of b]
  by (simp add: stored_def hashes_ok_def insert_block_columns)

lemma example_base_chain:
  "main_chain ext_word [example_base_block]
     (attach_block_cell example_base_block (attach_block example_base_block (insert_block example_base_block store_empty)))"
proof (rule main_chain.attach)
  show "main_chain ext_word [] (insert_block example_base_block store_empty)"
    by (rule main_chain.store_block [OF main_chain.start]) (simp_all add: store_empty_def)
  show "stored (insert_block example_base_block store_empty) example_base_block"
    by (rule stored_insert_block) (simp_all add: store_empty_def example_hashes_ok)
  show "fresh_block (insert_block example_base_block store_empty) example_base_block"
    by (simp add: fresh_block_def insert_block_columns store_empty_def)
qed (rule example_hashes_ok, rule example_base_resolves)

lemma example_store_chain: "main_chain ext_word [example_base_block] example_store"
  unfolding example_store_def
  by (rule main_chain.store_block [OF example_base_chain])
    (simp_all add: insert_block_columns store_empty_def attach_block_cell_def fold_attach_tx_cell
      example_base_sel example_spend_block_sel)

lemma example_base_stored: "st_body (insert_block example_base_block store_empty) (replicate 32 7) =
   [(0, bv_transactions example_base_block ! 0)]"
  using insert_block_fresh [of store_empty example_base_block]
  by (simp add: example_base_sel example_base_transactions body_entries_def store_empty_def)

lemma example_store_columns:
  "st_tx_info example_store = [replicate 32 9 \<mapsto> block_info example_base_block 0]"
  "st_body example_store (replicate 32 7) = [(0, bv_transactions example_base_block ! 0)]"
  "dom (st_cell_set example_store) \<subseteq> {replicate 32 9}"
proof -
  show "st_tx_info example_store = [replicate 32 9 \<mapsto> block_info example_base_block 0]"
    by (simp add: example_store_def insert_block_columns attach_block_cell_def fold_attach_tx_cell attach_block_infos
        example_base_sel store_empty_def)
  have "st_body example_store (replicate 32 7) = st_body (insert_block example_base_block store_empty) (replicate 32 7)"
    by (simp add: example_store_def insert_block_columns [of example_spend_block] attach_block_cell_def
        fold_attach_tx_cell example_spend_block_sel)
  then show "st_body example_store (replicate 32 7) = [(0, bv_transactions example_base_block ! 0)]"
    by (simp only: example_base_stored)
  show "dom (st_cell_set example_store) \<subseteq> {replicate 32 9}"
    unfolding example_store_def attach_main_def [symmetric]
    by (auto simp: insert_block_columns attach_main_cell_set attach_at_def example_base_transactions store_empty_def
        split: if_splits)
qed

lemma example_store_fresh: "fresh_block example_store example_spend_block"
proof -
  have "st_uncles example_store = Map.empty" "st_index_hash example_store = [6 \<mapsto> replicate 32 7]"
    "st_index_number example_store = [replicate 32 7 \<mapsto> 6]"
    by (simp_all add: example_store_def insert_block_columns attach_block_cell_def fold_attach_tx_cell attach_block_def
        Let_def fold_put_info example_base_sel store_empty_def case_prod_unfold)
  moreover have "st_cell_set example_store (replicate 32 1) = None" "st_cell_set example_store (replicate 32 2) = None"
    using example_store_columns(3) by auto
  ultimately show ?thesis
    by (simp add: fresh_block_def example_spend_block_sel example_store_columns)
qed

lemma example_store_sound: "cell_set_sound example_store" "outputs_have_data example_store"
  "example_point \<in> live_cells example_store"
proof -
  note b = main_chain_built [OF example_store_chain]
  show "cell_set_sound example_store" using built_sound [OF b] .
  show "outputs_have_data example_store"
    by (auto simp: outputs_have_data_def example_store_columns body_entry_def block_info_def example_base_sel
        example_base_transactions example_tx_def split: if_splits)
  show "example_point \<in> live_cells example_store"
    unfolding built_utxo [OF b]
    by (simp add: created_def spent_def example_base_transactions example_point_def input_pts_def example_tx_def
        new_cellbase_input_def cell_input_new_def out_point_null_def byte32_zero_def)
qed

lemma example_store_resolves:
  "\<exists>rs. resolve_block ext_word None (store_cell ext_word example_store) (\<lambda>_. Ok ()) example_spend_block = Ok rs"
  using store_cell_live [OF example_store_sound] example_spend_resolves by blast

lemma example_spend_chain:
  "main_chain ext_word [example_spend_block, example_base_block]
     (attach_block_cell example_spend_block (attach_block example_spend_block example_store))"
proof -
  have st: "stored example_store example_spend_block"
    unfolding example_store_def
    by (rule stored_insert_block) (simp_all add: insert_block_columns attach_block_cell_def fold_attach_tx_cell
        example_base_sel example_spend_block_sel example_hashes_ok store_empty_def)
  show ?thesis
    using example_store_resolves
      main_chain.attach [OF example_store_chain st example_store_fresh example_hashes_ok(2)] by blast
qed

section \<open>Properties\<close>

text \<open>
  C2. The cell set is the set of unspent outputs of the main chain: whatever sequence of storing
  blocks, attaching blocks whose transactions resolved and rolling back the last block led to a
  store, its live cells are those that replaying the blocks of the main chain from the start
  leaves unspent, its index holds exactly those blocks, and its records agree with the stored
  transactions.
\<close>

theorem main_chain_utxo:
  assumes "main_chain X bs s"
  shows "live_cells s = utxo bs \<and> (\<forall>h. is_main_chain s h \<longleftrightarrow> h \<in> bv_hash ` set bs) \<and> cell_set_sound s"
  using main_chain_built [OF assms] built_utxo built_index built_sound by blast

theorem main_chain_utxo_witness:
  "live_cells (attach_block_cell example_spend_block (attach_block example_spend_block example_store)) =
     utxo [example_spend_block, example_base_block] \<and>
   example_point \<notin> utxo [example_spend_block, example_base_block] \<and>
   example_point \<in> utxo [example_base_block]"
  using main_chain_utxo [OF example_spend_chain] main_chain_utxo [OF example_store_chain] example_store_sound(3)
  by (simp add: spent_def example_spend_transactions input_pts_def example_spend_sel cell_input_new_def)

text \<open>
  C10. Rolling a block back undoes attaching it: for a block whose transactions resolve against
  the store, attaching it and then detaching it restores every column of the store, the cell
  set included, even when the block spends outputs it creates itself or all outputs of an
  earlier transaction, and the rollback does not panic.
\<close>

theorem detach_attach_restores:
  assumes "resolve_block X sys (store_cell X s) hc b = Ok rs"
    and "cell_set_sound s" and "fresh_block s b" and "map tx_hash (bv_transactions b) = bv_tx_hashes b"
  shows "detach_block_cell b (detach_block b (attach_block_cell b (attach_block b s))) = Ok s"
  using detach_attach_main [OF resolved_spendable [OF assms(1)] assms(2-)] by (simp add: attach_main_def)

theorem detach_attach_restores_witness:
  "detach_block_cell example_spend_block (detach_block example_spend_block
     (attach_block_cell example_spend_block (attach_block example_spend_block example_store))) = Ok example_store"
  using example_store_resolves detach_attach_restores [OF _ example_store_sound(1) example_store_fresh]
  by (auto simp: example_spend_transactions example_spend_block_sel)

text \<open>
  C26. The store is a correct cell provider: on a store whose cell set is sound it never panics,
  reports a cell live exactly when it is in the live set, and gives for it the output, the data
  and the position of the stored transaction.
\<close>

theorem store_provider_correct:
  assumes "cell_set_sound s" and "outputs_have_data s"
  shows "store_cell X s p w \<noteq> Panic \<and> ((\<exists>c. store_cell X s p w = Ok (Live c)) \<longleftrightarrow> p \<in> live_cells s) \<and>
     (\<forall>c. store_cell X s p w = Ok (Live c) \<longrightarrow>
       (\<exists>i tx. st_tx_info s (op_tx_hash p) = Some i \<and> body_entry s i = Some tx \<and> c = stored_meta X p w i tx))"
proof (cases "p \<in> live_cells s")
  case True
  then show ?thesis using store_cell_live [OF assms True, of X w] by auto
next
  case False
  then have "store_cell X s p w = Ok DeadCell \<or> store_cell X s p w = Ok UnknownCell"
    by (auto simp: store_cell_def live_cells_def get_tx_meta_def Let_def split: option.splits bool.splits)
  then show ?thesis using False by auto
qed

theorem store_provider_correct_witness:
  "\<exists>c. store_cell ext_word example_store example_point True = Ok (Live c) \<and> cm_mem_cell_data c \<noteq> None"
  using store_provider_correct [OF example_store_sound(1,2), of ext_word example_point True] example_store_sound(3)
  by (auto simp: stored_meta_def Let_def)

text \<open>
  Errors of the resolution: against the chain, resolving a transaction fails only because a
  cell is dead, a dependency group is malformed, a header dependency is refused or out points
  are unknown, and no other error value is produced.
\<close>

theorem resolution_errors:
  assumes "resolve_transaction X sys tx seen (overlay_cell (block_cell X b m) (store_cell X s)) hc = Err e"
  shows "(\<exists>p. e = OutPoint (Dead p)) \<or> (\<exists>d\<in>set (tx_cell_deps tx). e = OutPoint (InvalidDepGroup (cd_out_point d))) \<or>
     (\<exists>h\<in>set (tx_header_deps tx). hc h = Err e) \<or> (\<exists>ps. ps \<noteq> [] \<and> e = OutPoint (Unknown ps))"
  by (rule chain_source.resolution_error [OF assms])

theorem resolution_errors_witness:
  "\<exists>e. resolve_transaction ext_word None (bv_transactions example_spend_block ! 1) {example_point}
     (overlay_cell (block_cell ext_word example_spend_block Map.empty) (store_cell ext_word example_store)) (\<lambda>_. Ok ()) = Err e \<and>
   (\<exists>p. e = OutPoint (Dead p))"
proof -
  have r: "resolve_transaction ext_word None (bv_transactions example_spend_block ! 1) {example_point}
     (overlay_cell (block_cell ext_word example_spend_block Map.empty) (store_cell ext_word example_store)) (\<lambda>_. Ok ()) =
     Err (OutPoint (Dead example_point))"
    by (simp add: example_spend_transactions resolve_transaction_def example_not_cellbase resolve_inputs_def
        resolve_cell_def input_pts_def example_spend_sel cell_input_new_def)
  show ?thesis using resolution_errors [OF r] r by blast
qed

end
