(* ===== verification/Header_Verifier.thy ===== *)
theory Header_Verifier
  imports Store Pow
begin

text \<open>
  The median time of past blocks (\<open>traits/src/block_median_time_context.rs\<close>) and the rules of
  a header (\<open>verification/src/header_verifier.rs\<close>). The trait \<open>BlockMedianTimeContext\<close> is the
  function \<open>timestamp_and_parent\<close> and the number of blocks; its law is the locale
  \<open>time_source\<close>. The clock, read by \<open>TimestampVerifier::new\<close>, is the argument \<open>now\<close>.
\<close>

section \<open>Median time\<close>

type_synonym time_context = "byte32 \<Rightarrow> (u64 \<times> u64 \<times> byte32) result"

text \<open>The loop that collects at most the given number of timestamps, back to the genesis block.\<close>

fun past_timestamps :: "time_context \<Rightarrow> nat \<Rightarrow> byte32 \<Rightarrow> u64 list result" where
  "past_timestamps tp 0 h = Ok []"
| "past_timestamps tp (Suc n) h =
     tryq (tp h) (\<lambda>(timestamp, block_number, parent_hash).
     if block_number = 0 then Ok [timestamp]
     else tryq (past_timestamps tp n parent_hash) (\<lambda>ts. Ok (timestamp # ts)))"

definition block_median_time :: "time_context \<Rightarrow> u64 \<Rightarrow> byte32 \<Rightarrow> u64 result" where
  "block_median_time tp median_time_span h =
     tryq (past_timestamps tp (unat median_time_span) h) (\<lambda>ts.
     expect (vec_get (sort ts) (length ts div 2)))"

text \<open>
  \<open>VerifyContext\<close> of \<open>verification/src/contextual_block_verifier.rs\<close> as a median time context.
\<close>

definition ctx_median_block_count :: "consensus \<Rightarrow> u64" where
  "ctx_median_block_count C = of_nat (c_median_time_block_count C)"

definition ctx_timestamp_and_parent :: "store \<Rightarrow> time_context" where
  "ctx_timestamp_and_parent s h =
     tryq (expect (get_block_header s h)) (\<lambda>hv. Ok (h_timestamp hv, h_number hv, h_parent_hash hv))"

section \<open>Header rules\<close>

definition ALLOWED_FUTURE_BLOCKTIME :: u64 where "ALLOWED_FUTURE_BLOCKTIME = 15 * 1000"

definition header_version_verify :: "u32 \<Rightarrow> header_view \<Rightarrow> unit result" where
  "header_version_verify block_version hv =
     (if h_version hv \<noteq> block_version then Err (Block (BlockErr BlockVersion)) else Ok ())"

definition timestamp_verify :: "time_context \<Rightarrow> u64 \<Rightarrow> u64 \<Rightarrow> header_view \<Rightarrow> unit result" where
  "timestamp_verify tp count now hv =
     (if h_number hv = 0 then Ok ()
      else tryq (block_median_time tp count (h_parent_hash hv)) (\<lambda>mn.
        if h_timestamp hv \<le> mn then Err (Header (TimestampError (BlockTimeTooOld mn (h_timestamp hv))))
        else tryq (p_add now ALLOWED_FUTURE_BLOCKTIME) (\<lambda>mx.
          if mx < h_timestamp hv then Err (Header (TimestampError (BlockTimeTooNew mx (h_timestamp hv))))
          else Ok ())))"

definition number_verify :: "header_view \<Rightarrow> header_view \<Rightarrow> unit result" where
  "number_verify parent hv =
     tryq (p_add (h_number parent) 1) (\<lambda>expected.
     if h_number hv \<noteq> expected then Err (Header (NumberError expected (h_number hv))) else Ok ())"

definition pow_verify :: "'z ext_scheme \<Rightarrow> pow \<Rightarrow> header_view \<Rightarrow> unit result" where
  "pow_verify X p hv =
     tryq (expect (pow_engine_verify X p hv)) (\<lambda>ok.
     if ok then Ok () else Err (Header (PowError InvalidNonce)))"

text \<open>The parent is what \<open>HeaderResolver::parent\<close> returns.\<close>

definition verify_header ::
  "'z ext_scheme \<Rightarrow> consensus \<Rightarrow> time_context \<Rightarrow> u64 \<Rightarrow> u64 \<Rightarrow> header_view option \<Rightarrow> header_view \<Rightarrow> unit result" where
  "verify_header X C tp count now parent hv =
     tryq (header_version_verify (c_block_version C) hv) (\<lambda>_.
     tryq (pow_verify X (c_pow C) hv) (\<lambda>_.
     tryq (ok_or (Block (UnknownParentError (h_parent_hash hv))) parent) (\<lambda>parent.
     tryq (number_verify parent hv) (\<lambda>_.
     timestamp_verify tp count now hv))))"

definition header_resolver_new :: "store \<Rightarrow> header_view \<Rightarrow> header_view option" where
  "header_resolver_new s hv = get_block_header s (h_parent_hash hv)"

section \<open>Order statistics\<close>

text \<open>The number of elements below a bound decides the order statistics of a list.\<close>

definition below :: "'a::linorder \<Rightarrow> 'a list \<Rightarrow> nat" where
  "below m xs = length (filter (\<lambda>x. x < m) xs)"

lemma below_sort [simp]: "below m (sort xs) = below m xs"
  by (simp add: below_def filter_sort)

lemma sorted_nth_below:
  assumes "sorted xs" and "k < length xs"
  shows "m \<le> xs ! k \<longleftrightarrow> below m xs \<le> k"
  using assms
proof (induction xs arbitrary: k)
  case (Cons x xs)
  show ?case
  proof (cases k)
    case 0
    then show ?thesis using Cons.prems(1) by (auto simp: below_def filter_empty_conv not_less)
  next
    case (Suc j)
    have ih: "m \<le> xs ! j \<longleftrightarrow> below m xs \<le> j" using Cons.IH [of j] Cons.prems Suc by simp
    show ?thesis
    proof (cases "x < m")
      case False
      then have "\<forall>y\<in>set xs. m \<le> y" using Cons.prems(1) by auto
      then have "below m xs = 0" "m \<le> xs ! j"
        using Cons.prems(2) Suc by (auto simp: below_def filter_empty_conv not_less)
      then show ?thesis using Suc False by (simp add: below_def)
    qed (use ih Suc in \<open>simp add: below_def\<close>)
  qed
qed simp

definition median :: "'a::linorder list \<Rightarrow> 'a" where
  "median xs = sort xs ! (length xs div 2)"

lemma median_ge_iff: "xs \<noteq> [] \<Longrightarrow> m \<le> median xs \<longleftrightarrow> below m xs \<le> length xs div 2"
  using sorted_nth_below [of "sort xs" "length xs div 2" m] by (simp add: median_def)

lemma median_halves:
  assumes "xs \<noteq> []"
  shows "median xs \<in> set xs" and "below (median xs) xs \<le> length xs div 2"
    and "length (filter (\<lambda>x. x \<le> median xs) xs) > length xs div 2"
proof -
  have k: "length xs div 2 < length (sort xs)" using assms by (simp add: div_less_dividend)
  show "median xs \<in> set xs" using nth_mem [OF k] by (simp add: median_def)
  show "below (median xs) xs \<le> length xs div 2" using median_ge_iff [OF assms, of "median xs"] by simp
  have "take (Suc (length xs div 2)) (sort xs) = filter (\<lambda>x. x \<le> median xs) (take (Suc (length xs div 2)) (sort xs))"
    using k by (intro filter_True [symmetric])
      (auto simp: in_set_conv_nth median_def intro!: sorted_nth_mono)
  then have "Suc (length xs div 2) = length (filter (\<lambda>x. x \<le> median xs) (take (Suc (length xs div 2)) (sort xs)))"
    using k by (metis Suc_leI length_take min.absorb2)
  also have "\<dots> \<le> length (filter (\<lambda>x. x \<le> median xs) (sort xs))"
    by (metis append_take_drop_id filter_append le_add1 length_append)
  also have "\<dots> = length (filter (\<lambda>x. x \<le> median xs) xs)" by (simp add: filter_sort)
  finally show "length (filter (\<lambda>x. x \<le> median xs) xs) > length xs div 2" by simp
qed

text \<open>Adding a later time, and dropping the oldest one when the window is full, never lowers the median.\<close>

lemma median_push:
  assumes "xs \<noteq> []" and "median xs < t"
  shows "median xs \<le> median (t # xs)" and "median xs \<le> median (t # butlast xs)"
proof -
  have b: "below (median xs) xs \<le> length xs div 2" using median_halves(2) [OF assms(1)] .
  have 1: "below (median xs) (t # ys) \<le> below (median xs) ys" for ys using assms(2) by (simp add: below_def)
  have "below (median xs) (t # xs) \<le> length (t # xs) div 2" using 1 [of xs] b by simp
  then show "median xs \<le> median (t # xs)" by (simp add: median_ge_iff)
  have "xs = butlast xs @ [last xs]" using assms(1) by simp
  then have "below (median xs) xs = below (median xs) (butlast xs) + below (median xs) [last xs]"
    unfolding below_def by (metis filter_append length_append)
  then have "below (median xs) (t # butlast xs) \<le> length xs div 2" using b 1 [of "butlast xs"] by linarith
  moreover have "length (t # butlast xs) = length xs" using assms(1) by simp
  ultimately show "median xs \<le> median (t # butlast xs)" by (simp only: median_ge_iff [OF list.distinct(2)])
qed

section \<open>The median time interface\<close>

locale time_source =
  fixes tp :: time_context
  assumes never_err: "tp h \<noteq> Err e"
begin

lemma past_timestamps_no_err: "past_timestamps tp n h \<noteq> Err e"
  by (induction n arbitrary: h) (auto simp: tryq_eq_Err never_err split: prod.splits if_splits)

lemma median_no_err: "block_median_time tp count h \<noteq> Err e"
  by (auto simp: block_median_time_def tryq_eq_Err past_timestamps_no_err outcome_simps)

lemma past_timestamps_length: "past_timestamps tp n h = Ok ts \<Longrightarrow> length ts \<le> n \<and> (ts = [] \<longleftrightarrow> n = 0)"
proof (induction n arbitrary: h ts)
  case (Suc n)
  then show ?case by (fastforce simp: tryq_eq_Ok split: prod.splits if_splits)
qed simp

lemma median_Ok: "block_median_time tp count h = Ok m \<Longrightarrow>
    \<exists>ts. past_timestamps tp (unat count) h = Ok ts \<and> ts \<noteq> [] \<and> length ts \<le> unat count \<and> m = median ts"
  using past_timestamps_length by (fastforce simp: block_median_time_def outcome_simps median_def)

text \<open>The window of a block is its own time before the window of its parent, one shorter when full.\<close>

lemma past_timestamps_take:
  "past_timestamps tp (Suc n) h = Ok ts \<Longrightarrow> \<exists>ts'. past_timestamps tp n h = Ok ts' \<and> (ts' = ts \<or> ts' = butlast ts)"
proof (induction n arbitrary: h ts)
  case 0
  then show ?case by (auto simp: tryq_eq_Ok split: prod.splits if_splits)
next
  case (Suc n)
  obtain t num p where tp: "tp h = Ok (t, num, p)" using Suc.prems by (auto simp: tryq_eq_Ok)
  show ?case
  proof (cases "num = 0")
    case False
    then obtain us where us: "past_timestamps tp (Suc n) p = Ok us" "ts = t # us"
      using Suc.prems tp by (auto simp del: past_timestamps.simps(2) simp: past_timestamps.simps(2) [of tp "Suc n"] tryq_eq_Ok)
    obtain us' where us': "past_timestamps tp n p = Ok us'" "us' = us \<or> us' = butlast us"
      using Suc.IH [OF us(1)] by blast
    have "us \<noteq> []" using past_timestamps_length [OF us(1)] by simp
    then show ?thesis using us us' tp False by auto
  qed (use Suc.prems tp in auto)
qed

lemma median_monotone:
  assumes tp: "tp h = Ok (t, n, parent)" "n \<noteq> 0"
    and med: "block_median_time tp count parent = Ok m" and t: "m < t"
  shows "\<exists>m'. block_median_time tp count h = Ok m' \<and> m \<le> m'"
proof -
  obtain ts where ts: "past_timestamps tp (unat count) parent = Ok ts" "ts \<noteq> []" "length ts \<le> unat count" "m = median ts"
    using median_Ok [OF med] by blast
  obtain k where k: "unat count = Suc k" using ts(2,3) by (cases "unat count") auto
  obtain ts' where ts': "past_timestamps tp k parent = Ok ts'" "ts' = ts \<or> ts' = butlast ts"
    using past_timestamps_take ts(1) unfolding k by blast
  have h: "past_timestamps tp (unat count) h = Ok (t # ts')" using ts'(1) tp by (simp add: k)
  have "median ts \<le> median (t # ts')" using median_push [OF ts(2)] t ts'(2) ts(4) by auto
  moreover have "block_median_time tp count h = Ok (median (t # ts'))"
  proof -
    have "length (t # ts') div 2 < length (sort (t # ts'))" by simp
    then show ?thesis
      unfolding block_median_time_def h median_def by (simp add: vec_get_def del: sort_key_simps)
  qed
  ultimately show ?thesis using ts(4) by blast
qed

end

interpretation store_time: time_source "ctx_timestamp_and_parent s" for s
  by unfold_locales (simp add: ctx_timestamp_and_parent_def outcome_simps)

section \<open>Stored ancestors\<close>

text \<open>Every stored header but the genesis one has a stored parent.\<close>

definition headers_linked :: "store \<Rightarrow> bool" where
  "headers_linked s \<longleftrightarrow> (\<forall>h hv. get_block_header s h = Some hv \<longrightarrow> h_number hv \<noteq> 0 \<longrightarrow>
     get_block_header s (h_parent_hash hv) \<noteq> None)"

lemma past_timestamps_total:
  "headers_linked s \<Longrightarrow> get_block_header s h \<noteq> None \<Longrightarrow> \<exists>ts. past_timestamps (ctx_timestamp_and_parent s) n h = Ok ts"
proof (induction n arbitrary: h)
  case (Suc n)
  obtain hv where hv: "get_block_header s h = Some hv" using Suc.prems(2) by auto
  show ?case
  proof (cases "h_number hv = 0")
    case False
    then have "get_block_header s (h_parent_hash hv) \<noteq> None" using Suc.prems(1) hv by (simp add: headers_linked_def)
    from Suc.IH [OF Suc.prems(1) this] show ?thesis using hv False by (auto simp: ctx_timestamp_and_parent_def)
  qed (simp add: hv ctx_timestamp_and_parent_def)
qed simp

lemma median_total:
  assumes "headers_linked s" and "get_block_header s h \<noteq> None" and "count \<noteq> 0"
  shows "\<exists>m. block_median_time (ctx_timestamp_and_parent s) count h = Ok m"
proof -
  obtain ts where ts: "past_timestamps (ctx_timestamp_and_parent s) (unat count) h = Ok ts"
    using past_timestamps_total [OF assms(1,2)] by blast
  then have "ts \<noteq> []" using store_time.past_timestamps_length [OF ts] assms(3) by (simp add: unat_eq_0)
  then have "length ts div 2 < length (sort ts)" by (simp add: div_less_dividend)
  then show ?thesis using ts by (simp add: block_median_time_def vec_get_def)
qed

section \<open>An example\<close>

definition example_parent :: header_view where
  "example_parent = header_view_of (example_header\<lparr>h_number := 0, h_timestamp := 5\<rparr>) (replicate 32 1)"

definition example_child :: header_view where
  "example_child = header_view_of (example_header\<lparr>h_number := 1, h_timestamp := 9, h_parent_hash := replicate 32 1\<rparr>) (replicate 32 2)"

definition example_headers :: store where
  "example_headers = store_empty\<lparr>st_header := [replicate 32 1 \<mapsto> example_parent, replicate 32 2 \<mapsto> example_child]\<rparr>"

lemma example_headers_sel:
  "get_block_header example_headers (replicate 32 1) = Some example_parent"
  "get_block_header example_headers (replicate 32 2) = Some example_child"
  "h_number example_parent = 0" "h_number example_child = 1" "h_timestamp example_child = 9" "h_timestamp example_parent = 5"
  "h_parent_hash example_child = replicate 32 1" "h_hash example_child = replicate 32 2" "h_version example_child = 0"
  by (simp_all add: get_block_header_def example_headers_def example_parent_def example_child_def example_header_def)

lemma example_median: "block_median_time (ctx_timestamp_and_parent example_headers) 37 (replicate 32 1) = Ok 5"
proof -
  have "past_timestamps (ctx_timestamp_and_parent example_headers) (Suc 36) (replicate 32 1) = Ok [5]"
    unfolding past_timestamps.simps by (simp add: ctx_timestamp_and_parent_def example_headers_sel)
  then show ?thesis by (simp add: block_median_time_def vec_get_def)
qed

lemma example_timestamp: "timestamp_verify (ctx_timestamp_and_parent example_headers) 37 0 example_child = Ok ()"
  by (simp add: timestamp_verify_def example_headers_sel example_median p_add_def checked_add_def ALLOWED_FUTURE_BLOCKTIME_def)

section \<open>Properties\<close>

text \<open>
  C21. The median time never goes back: when a stored header passes the timestamp rule, the
  median time of its block exists and is not before the one of its parent, its own time is
  strictly after the parent's median and at most 15 seconds ahead of the clock.
\<close>

theorem median_time_never_decreases:
  assumes "timestamp_verify (ctx_timestamp_and_parent s) count now hv = Ok ()" and "h_number hv \<noteq> 0"
    and "get_block_header s (h_hash hv) = Some hv"
  shows "\<exists>m m'. block_median_time (ctx_timestamp_and_parent s) count (h_parent_hash hv) = Ok m \<and>
     block_median_time (ctx_timestamp_and_parent s) count (h_hash hv) = Ok m' \<and> m \<le> m' \<and> m < h_timestamp hv \<and>
     unat (h_timestamp hv) \<le> unat now + 15000"
proof -
  obtain m mx where m: "block_median_time (ctx_timestamp_and_parent s) count (h_parent_hash hv) = Ok m"
      "m < h_timestamp hv" "p_add now ALLOWED_FUTURE_BLOCKTIME = (Ok mx :: u64 result)" "h_timestamp hv \<le> mx"
    using assms(1,2) by (auto simp: timestamp_verify_def tryq_eq_Ok not_le not_less split: if_splits)
  have "unat (h_timestamp hv) \<le> unat now + 15000"
    using m(3,4) by (simp add: panic_simps ALLOWED_FUTURE_BLOCKTIME_def word_le_nat_alt)
  moreover have "ctx_timestamp_and_parent s (h_hash hv) = Ok (h_timestamp hv, h_number hv, h_parent_hash hv)"
    using assms(3) by (simp add: ctx_timestamp_and_parent_def)
  ultimately show ?thesis using store_time.median_monotone [OF _ assms(2) m(1,2)] m(1,2) by blast
qed

theorem median_time_never_decreases_witness:
  "\<exists>m'. block_median_time (ctx_timestamp_and_parent example_headers) 37 (replicate 32 2) = Ok m' \<and> 5 \<le> m'"
  using median_time_never_decreases [OF example_timestamp] by (simp add: example_headers_sel example_median)

text \<open>
  C20. A verified header extends its parent: the version is the one of the consensus, the proof
  of work holds, the parent is known, the number is one more than the parent's without wrap
  around, and the time is within its bounds.
\<close>

theorem verified_header_rules:
  assumes "verify_header X C tp count now parent hv = Ok ()"
  shows "\<exists>par. parent = Some par \<and> h_version hv = c_block_version C \<and> pow_engine_verify X (c_pow C) hv = Some True \<and>
     unat (h_number hv) = unat (h_number par) + 1 \<and>
     (\<exists>m. block_median_time tp count (h_parent_hash hv) = Ok m \<and> m < h_timestamp hv \<and>
          unat (h_timestamp hv) \<le> unat now + 15000)"
proof -
  obtain par where par: "parent = Some par" "h_version hv = c_block_version C"
      "pow_engine_verify X (c_pow C) hv = Some True"
      "p_add (h_number par) 1 = (Ok (h_number hv) :: u64 result)" "timestamp_verify tp count now hv = Ok ()"
    using assms by (auto simp: verify_header_def header_version_verify_def pow_verify_def number_verify_def
        outcome_simps split: if_splits)
  then have n: "unat (h_number hv) = unat (h_number par) + 1" by (simp add: panic_simps)
  then have "h_number hv \<noteq> 0" by auto
  then obtain m mx where "block_median_time tp count (h_parent_hash hv) = Ok m"
      "m < h_timestamp hv" "p_add now ALLOWED_FUTURE_BLOCKTIME = (Ok mx :: u64 result)" "h_timestamp hv \<le> mx"
    using par(5) by (auto simp: timestamp_verify_def tryq_eq_Ok not_le not_less split: if_splits)
  then have "block_median_time tp count (h_parent_hash hv) = Ok m \<and> m < h_timestamp hv \<and>
      unat (h_timestamp hv) \<le> unat now + 15000"
    by (simp add: panic_simps ALLOWED_FUTURE_BLOCKTIME_def word_le_nat_alt)
  then show ?thesis using par n by blast
qed

theorem verified_header_rules_witness:
  "verify_header ext_word (example_consensus\<lparr>c_pow := Dummy\<rparr>) (ctx_timestamp_and_parent example_headers) 37 0
     (Some example_parent) example_child = Ok () \<and> unat (h_number example_child) = unat (h_number example_parent) + 1"
proof -
  have "verify_header ext_word (example_consensus\<lparr>c_pow := Dummy\<rparr>) (ctx_timestamp_and_parent example_headers) 37 0
      (Some example_parent) example_child = Ok ()"
    by (simp add: verify_header_def header_version_verify_def pow_verify_def pow_engine_verify_def number_verify_def
        example_headers_sel example_consensus_def p_add_def checked_add_def example_timestamp)
  then show ?thesis using verified_header_rules by fastforce
qed

text \<open>
  Verifying a header does not panic: with a store in which every header has its parent, a
  median window that is not empty and a digest that reads as a number, the outcome is a value
  or an error unless the clock or the parent's number is at the end of its range.
\<close>

theorem verify_header_no_panic:
  assumes "headers_linked s" and "pow_engine_verify X (c_pow C) hv \<noteq> None" and "count \<noteq> 0"
    and "unat now + 15000 < 2 ^ 64"
    and "\<forall>par. header_resolver_new s hv = Some par \<longrightarrow> h_number par \<noteq> - 1"
  shows "verify_header X C (ctx_timestamp_and_parent s) count now (header_resolver_new s hv) hv \<noteq> Panic"
proof (cases "header_resolver_new s hv")
  case (Some par)
  then have par: "get_block_header s (h_parent_hash hv) \<noteq> None" by (simp add: header_resolver_new_def)
  have "unat (h_number par) < unat (- 1 :: u64)"
    using assms(5) Some by (metis unat_eqI nat_less_le word_le_nat_alt word_n1_ge)
  moreover have "unat (- 1 :: u64) + 1 = 2 ^ 64" by (simp only: unsigned_minus_1_eq_mask mask_eq_exp_minus_1) simp
  ultimately have "unat (h_number par) + 1 < 2 ^ 64" by linarith
  then have n: "p_add (h_number par) 1 \<noteq> (Panic :: u64 result)" by (simp add: panic_simps)
  have now: "p_add now ALLOWED_FUTURE_BLOCKTIME \<noteq> (Panic :: u64 result)"
    using assms(4) by (simp add: panic_simps ALLOWED_FUTURE_BLOCKTIME_def)
  obtain m where "block_median_time (ctx_timestamp_and_parent s) count (h_parent_hash hv) = Ok m"
    using median_total [OF assms(1) par assms(3)] by blast
  then have "timestamp_verify (ctx_timestamp_and_parent s) count now hv \<noteq> Panic"
    using now by (auto simp: timestamp_verify_def outcome_simps split: if_splits)
  then show ?thesis using n assms(2) Some
    by (auto simp: verify_header_def header_version_verify_def pow_verify_def number_verify_def outcome_simps
        split: if_splits)
qed (use assms(2) in \<open>auto simp: verify_header_def header_version_verify_def pow_verify_def outcome_simps split: if_splits\<close>)

theorem verify_header_no_panic_witness:
  "verify_header ext_word (example_consensus\<lparr>c_pow := Dummy\<rparr>) (ctx_timestamp_and_parent example_headers) 37 0
     (header_resolver_new example_headers example_child) example_child \<noteq> Panic"
  by (rule verify_header_no_panic)
    (auto simp: headers_linked_def pow_engine_verify_def header_resolver_new_def get_block_header_def example_headers_def
      example_headers_sel split: if_splits)

end
