(* ===== verification/Script.thy ===== *)
theory Script
  imports Store "HOL-Library.Multiset"
begin

text \<open>
  Script verification (\<open>script/src/verify.rs\<close>, \<open>type_id.rs\<close>, \<open>cost_model.rs\<close>): the scripts of a
  transaction are grouped by hash, each group runs once, and the cycles of all groups are
  limited. The virtual machine of the \<open>ckb-vm\<close> crate is the parameter \<^verbatim>\<open>vm\<close>: loading a program,
  adding cycles and running until exit. A hash map is an association list; the order in which
  the code iterates over its values is the argument \<open>ord\<close> of \<open>verify_scripts\<close>.
\<close>

section \<open>The virtual machine\<close>

datatype vm_error = InvalidCycles | OtherVMError

record script_group =
  sg_script :: script
  sg_input_indices :: "nat list"
  sg_output_indices :: "nat list"

record vm =
  vm_load_program :: "bytes \<Rightarrow> (u64, vm_error) outcome"
  vm_add_cycles :: "u64 \<Rightarrow> u64 \<Rightarrow> u64 \<Rightarrow> (u64, vm_error) outcome"
  vm_run :: "resolved_transaction \<Rightarrow> script_group \<Rightarrow> bytes \<Rightarrow> u64 \<Rightarrow> u64 \<Rightarrow> (8 word \<times> u64, vm_error) outcome"

fun internal_vm_error :: "vm_error \<Rightarrow> ckb_error" where
  "internal_vm_error InvalidCycles = Script ScriptExceededMaximumCycles"
| "internal_vm_error OtherVMError = Internal VM"

definition BYTES_PER_CYCLE :: u64 where "BYTES_PER_CYCLE = 4"

definition transferred_byte_cycles :: "u64 \<Rightarrow> u64 result" where
  "transferred_byte_cycles bytes =
     tryq (tryq (p_add bytes BYTES_PER_CYCLE) (\<lambda>x. p_sub x 1)) (\<lambda>x. p_div x BYTES_PER_CYCLE)"

section \<open>Groups\<close>

definition script_group_new :: "script \<Rightarrow> script_group" where
  "script_group_new s = \<lparr>sg_script = s, sg_input_indices = [], sg_output_indices = []\<rparr>"

type_synonym groups = "(byte32 \<times> script_group) list"

text \<open>\<open>entry(key).or_insert_with(..)\<close> followed by a push.\<close>

fun group_entry :: "byte32 \<Rightarrow> script \<Rightarrow> (script_group \<Rightarrow> script_group) \<Rightarrow> groups \<Rightarrow> groups" where
  "group_entry key s push [] = [(key, push (script_group_new s))]"
| "group_entry key s push ((k, g) # gs) =
     (if k = key then (k, push g) # gs else (k, g) # group_entry key s push gs)"

definition push_input :: "nat \<Rightarrow> script_group \<Rightarrow> script_group" where
  "push_input i g = g\<lparr>sg_input_indices := sg_input_indices g @ [i]\<rparr>"

definition push_output :: "nat \<Rightarrow> script_group \<Rightarrow> script_group" where
  "push_output i g = g\<lparr>sg_output_indices := sg_output_indices g @ [i]\<rparr>"

definition build_lock_groups :: "'z ext_scheme \<Rightarrow> cell_meta list \<Rightarrow> groups" where
  "build_lock_groups X inputs =
     fold (\<lambda>(i, m). group_entry (calc_lock_hash X (cm_cell_output m)) (co_lock (cm_cell_output m)) (push_input i))
       (enumerate 0 inputs) []"

definition type_entry ::
  "'z ext_scheme \<Rightarrow> (nat \<Rightarrow> script_group \<Rightarrow> script_group) \<Rightarrow> nat \<times> cell_output \<Rightarrow> groups \<Rightarrow> groups" where
  "type_entry X push = (\<lambda>(i, out) gs.
     case co_type out of None \<Rightarrow> gs | Some t \<Rightarrow> group_entry (calc_script_hash X t) t (push i) gs)"

definition build_type_groups :: "'z ext_scheme \<Rightarrow> cell_meta list \<Rightarrow> cell_output list \<Rightarrow> groups" where
  "build_type_groups X inputs outputs =
     fold (type_entry X push_output) (enumerate 0 outputs)
       (fold (type_entry X push_input) (enumerate 0 (map cm_cell_output inputs)) [])"

section \<open>The verifier of a transaction\<close>

record scripts_verifier =
  sv_rtx :: resolved_transaction
  sv_outputs :: "cell_meta list"
  sv_binaries_by_data_hash :: "byte32 \<Rightarrow> bytes option"
  sv_binaries_by_type_hash :: "byte32 \<Rightarrow> (bytes \<times> bool) option"
  sv_lock_groups :: groups
  sv_type_groups :: groups

definition output_metas :: "'z ext_scheme \<Rightarrow> transaction_view \<Rightarrow> cell_meta list" where
  "output_metas X tx = map (\<lambda>(index, out, d).
     \<lparr>cm_cell_output = out, cm_out_point = out_point_new (tx_hash tx) (of_nat index), cm_transaction_info = None,
      cm_data_bytes = of_nat (length d), cm_mem_cell_data = Some (d, calc_data_hash X d)\<rparr>)
     (enumerate 0 (outputs_with_data tx))"

text \<open>One dependency: its data by data hash, and by type hash with a mark when the hash repeats.\<close>

definition add_binary ::
  "'z ext_scheme \<Rightarrow> (cell_meta \<Rightarrow> (bytes \<times> byte32) option) \<Rightarrow>
   (byte32 \<Rightarrow> bytes option) \<times> (byte32 \<Rightarrow> (bytes \<times> bool) option) \<Rightarrow> cell_meta \<Rightarrow>
   ((byte32 \<Rightarrow> bytes option) \<times> (byte32 \<Rightarrow> (bytes \<times> bool) option)) result" where
  "add_binary X load = (\<lambda>(by_data, by_type) m.
     tryq (expect (load m)) (\<lambda>(d, data_hash).
     let by_data = by_data(data_hash \<mapsto> d) in
     Ok (by_data,
         case co_type (cm_cell_output m) of
           None \<Rightarrow> by_type
         | Some t \<Rightarrow> (let h = calc_script_hash X t in
             case by_type h of Some (d', _) \<Rightarrow> by_type(h \<mapsto> (d', True)) | None \<Rightarrow> by_type(h \<mapsto> (d, False))))))"

definition scripts_verifier_new ::
  "'z ext_scheme \<Rightarrow> (cell_meta \<Rightarrow> (bytes \<times> byte32) option) \<Rightarrow> resolved_transaction \<Rightarrow> scripts_verifier result" where
  "scripts_verifier_new X load rtx =
     tryq (try_fold (add_binary X load) (Map.empty, Map.empty) (rtx_cell_deps rtx)) (\<lambda>(by_data, by_type).
     Ok \<lparr>sv_rtx = rtx, sv_outputs = output_metas X (rtx_transaction rtx),
         sv_binaries_by_data_hash = by_data, sv_binaries_by_type_hash = by_type,
         sv_lock_groups = build_lock_groups X (rtx_inputs rtx),
         sv_type_groups = build_type_groups X (rtx_inputs rtx) (tx_outputs (rtx_transaction rtx))\<rparr>)"

definition extract_script :: "scripts_verifier \<Rightarrow> script \<Rightarrow> bytes result" where
  "extract_script v s =
     (if sc_hash_type s = 0 then
        (case sv_binaries_by_data_hash v (sc_code_hash s) of
           Some d \<Rightarrow> Ok d
         | None \<Rightarrow> Err (Script InvalidCodeHash))
      else if sc_hash_type s = 1 then
        (case sv_binaries_by_type_hash v (sc_code_hash s) of
           Some (d, multiple) \<Rightarrow> if multiple then Err (Script MultipleMatches) else Ok d
         | None \<Rightarrow> Err (Script InvalidCodeHash))
      else Panic)"

section \<open>The built-in script \<open>TYPE_ID\<close>\<close>

definition TYPE_ID_CYCLES :: u64 where "TYPE_ID_CYCLES = 1000000"
definition ERROR_ARGS :: "8 word" where "ERROR_ARGS = - 1"
definition ERROR_TOO_MANY_CELLS :: "8 word" where "ERROR_TOO_MANY_CELLS = - 2"
definition ERROR_INVALID_INPUT_HASH :: "8 word" where "ERROR_INVALID_INPUT_HASH = - 3"

text \<open>\<open>TYPE_ID_CODE_HASH\<close> of \<open>spec/src/consensus.rs\<close>: "TYPE_ID" in ASCII at the end of 32 bytes.\<close>

definition TYPE_ID_CODE_HASH :: byte32 where
  "TYPE_ID_CODE_HASH = replicate 25 0 @ [0x54, 0x59, 0x50, 0x45, 0x5f, 0x49, 0x44]"

definition type_id_verify :: "'z ext_scheme \<Rightarrow> resolved_transaction \<Rightarrow> script_group \<Rightarrow> u64 \<Rightarrow> u64 result" where
  "type_id_verify X rtx g max_cycles =
     (if max_cycles < TYPE_ID_CYCLES then Err (Script ScriptExceededMaximumCycles)
      else if length (sc_args (sg_script g)) \<noteq> 32 then Err (Script (ValidationFailure ERROR_ARGS))
      else if length (sg_input_indices g) > 1 \<or> length (sg_output_indices g) > 1 then
        Err (Script (ValidationFailure ERROR_TOO_MANY_CELLS))
      else if sg_input_indices g = [] then
        tryq (ok_or (Script (ValidationFailure ERROR_ARGS)) (vec_get (tx_inputs (rtx_transaction rtx)) 0)) (\<lambda>first_cell_input.
        tryq (ok_or (Script (ValidationFailure ERROR_ARGS)) (vec_get (sg_output_indices g) 0)) (\<lambda>output_index.
        let first_output_index = of_nat output_index :: u64;
            ret = x_blake2b X (cell_input_write first_cell_input @ to_le_bytes first_output_index)
        in if ret \<noteq> sc_args (sg_script g) then Err (Script (ValidationFailure ERROR_INVALID_INPUT_HASH))
           else Ok TYPE_ID_CYCLES))
      else Ok TYPE_ID_CYCLES)"

section \<open>Running the groups\<close>

definition run_group :: "vm \<Rightarrow> scripts_verifier \<Rightarrow> script_group \<Rightarrow> u64 \<Rightarrow> u64 result" where
  "run_group M v g max_cycles =
     tryq (extract_script v (sg_script g)) (\<lambda>program.
     tryq (map_err internal_vm_error (vm_load_program M program)) (\<lambda>bytes.
     tryq (transferred_byte_cycles bytes) (\<lambda>transferred.
     tryq (map_err internal_vm_error (vm_add_cycles M max_cycles 0 transferred)) (\<lambda>cycles.
     tryq (map_err internal_vm_error (vm_run M (sv_rtx v) g program max_cycles cycles)) (\<lambda>(code, cycles).
     if code = 0 then Ok cycles else Err (Script (ValidationFailure code)))))))"

definition verify_script_group :: "'z ext_scheme \<Rightarrow> vm \<Rightarrow> scripts_verifier \<Rightarrow> script_group \<Rightarrow> u64 \<Rightarrow> u64 result" where
  "verify_script_group X M v g max_cycles =
     (if sc_code_hash (sg_script g) = TYPE_ID_CODE_HASH \<and> sc_hash_type (sg_script g) = 1
      then type_id_verify X (sv_rtx v) g max_cycles
      else run_group M v g max_cycles)"

definition verify_group_cycles ::
  "'z ext_scheme \<Rightarrow> vm \<Rightarrow> scripts_verifier \<Rightarrow> u64 \<Rightarrow> u64 \<Rightarrow> script_group \<Rightarrow> u64 result" where
  "verify_group_cycles X M v max_cycles cycles g =
     tryq (verify_script_group X M v g max_cycles) (\<lambda>cycle.
     tryq (ok_or (Script ScriptExceededMaximumCycles) (checked_add cycles cycle)) (\<lambda>current_cycles.
     if max_cycles < current_cycles then Err (Script ScriptExceededMaximumCycles) else Ok current_cycles))"

definition verify_scripts ::
  "'z ext_scheme \<Rightarrow> vm \<Rightarrow> (groups \<Rightarrow> script_group list) \<Rightarrow> scripts_verifier \<Rightarrow> u64 \<Rightarrow> u64 result" where
  "verify_scripts X M ord v max_cycles =
     try_fold (verify_group_cycles X M v max_cycles) 0 (ord (sv_lock_groups v) @ ord (sv_type_groups v))"

datatype script_group_type = LockGroup | TypeGroup

fun find_script_group :: "scripts_verifier \<Rightarrow> script_group_type \<Rightarrow> byte32 \<Rightarrow> script_group option" where
  "find_script_group v LockGroup h = map_of (sv_lock_groups v) h"
| "find_script_group v TypeGroup h = map_of (sv_type_groups v) h"

definition verify_single ::
  "'z ext_scheme \<Rightarrow> vm \<Rightarrow> scripts_verifier \<Rightarrow> script_group_type \<Rightarrow> byte32 \<Rightarrow> u64 \<Rightarrow> u64 result" where
  "verify_single X M v t h max_cycles =
     (case find_script_group v t h of
        Some g \<Rightarrow> verify_script_group X M v g max_cycles
      | None \<Rightarrow> Err (Script InvalidCodeHash))"

section \<open>Cycles\<close>

lemma verify_group_cycles_Ok:
  "verify_group_cycles X M v mx a g = Ok c \<longleftrightarrow>
     (\<exists>d. verify_script_group X M v g mx = Ok d \<and> unat c = unat a + unat d \<and> unat c \<le> unat mx)"
proof -
  have bound: "unat x + unat y < 18446744073709551616" if "unat x + unat y \<le> unat mx" for x y :: u64
    using that unat_bound [of mx] by simp
  show ?thesis
    by (auto simp: verify_group_cycles_def outcome_simps checked_simps word_less_nat_alt not_less
        split: if_splits intro: bound unat_eqI)
qed

lemma verify_groups_Ok:
  "try_fold (verify_group_cycles X M v mx) a gs = Ok c \<longleftrightarrow>
     (\<forall>g\<in>set gs. \<exists>d. verify_script_group X M v g mx = Ok d) \<and>
     unat c = unat a + sum_list (map (\<lambda>g. case verify_script_group X M v g mx of Ok d \<Rightarrow> unat d | _ \<Rightarrow> 0) gs) \<and>
     (gs = [] \<or> unat c \<le> unat mx)"
proof (induction gs arbitrary: a)
  case Nil
  then show ?case by (auto intro: unat_eqI)
next
  case (Cons g gs)
  show ?case
  proof (cases "verify_script_group X M v g mx")
    case (Ok d)
    have "try_fold (verify_group_cycles X M v mx) a (g # gs) = Ok c \<longleftrightarrow>
        (\<exists>b. unat b = unat a + unat d \<and> unat b \<le> unat mx \<and> try_fold (verify_group_cycles X M v mx) b gs = Ok c)"
      by (simp add: tryq_eq_Ok verify_group_cycles_Ok Ok)
    also have "\<dots> \<longleftrightarrow> (\<forall>g\<in>set gs. \<exists>d. verify_script_group X M v g mx = Ok d) \<and>
        unat c = unat a + unat d + sum_list (map (\<lambda>g. case verify_script_group X M v g mx of Ok d \<Rightarrow> unat d | _ \<Rightarrow> 0) gs) \<and>
        unat c \<le> unat mx"
    proof (intro iffI; elim exE conjE)
      assume c: "unat c = unat a + unat d + sum_list (map (\<lambda>g. case verify_script_group X M v g mx of Ok d \<Rightarrow> unat d | _ \<Rightarrow> 0) gs)"
        and le: "unat c \<le> unat mx" and all: "\<forall>g\<in>set gs. \<exists>d. verify_script_group X M v g mx = Ok d"
      have "unat a + unat d < 2 ^ LENGTH(64)" using c le unat_bound [of mx] by simp
      then have "unat (a + d) = unat a + unat d" by (rule unat_add_exact)
      then show "\<exists>b. unat b = unat a + unat d \<and> unat b \<le> unat mx \<and> try_fold (verify_group_cycles X M v mx) b gs = Ok c"
        using c le all by (intro exI [of _ "a + d"]) (simp add: Cons.IH)
    qed (auto simp: Cons.IH)
    finally show ?thesis using Ok by (auto simp: add.assoc)
  qed (auto simp: tryq_eq_Ok verify_group_cycles_Ok)
qed

lemma verify_scripts_limit: "verify_scripts X M ord v mx = Ok c \<Longrightarrow> c \<le> mx"
  unfolding verify_scripts_def verify_groups_Ok word_le_nat_alt by auto

section \<open>The groups of a transaction\<close>

lemma map_of_group_entry:
  "map_of (group_entry key s push gs) =
     (map_of gs)(key \<mapsto> push (case map_of gs key of None \<Rightarrow> script_group_new s | Some g \<Rightarrow> g))"
  by (induction gs) (auto simp: fun_eq_iff)

lemma set_keys_group_entry: "fst ` set (group_entry key s push gs) = insert key (fst ` set gs)"
  by (induction key s push gs rule: group_entry.induct) (simp_all add: insert_commute)

lemma keys_group_entry: "distinct (map fst gs) \<Longrightarrow> distinct (map fst (group_entry key s push gs))"
  by (induction key s push gs rule: group_entry.induct) (simp, simp add: set_keys_group_entry, blast?)

lemma keys_type_entries: "distinct (map fst gs) \<Longrightarrow> distinct (map fst (fold (type_entry X push) outs gs))"
proof (induction outs arbitrary: gs)
  case (Cons o1 outs)
  have "distinct (map fst (type_entry X push o1 gs))"
    using keys_group_entry [OF Cons.prems] Cons.prems by (cases o1) (simp add: type_entry_def split: option.splits)
  then show ?case using Cons.IH by simp
qed simp

lemma keys_lock_groups: "distinct (map fst (build_lock_groups X ms))"
proof -
  let ?f = "\<lambda>(i, m). group_entry (calc_lock_hash X (cm_cell_output m)) (co_lock (cm_cell_output m)) (push_input i)"
  have keys: "distinct (map fst gs) \<Longrightarrow> distinct (map fst (fold ?f ims gs))" for ims gs
    by (induction ims arbitrary: gs) (auto simp: keys_group_entry)
  show ?thesis unfolding build_lock_groups_def by (rule keys) simp
qed

lemma keys_type_groups: "distinct (map fst (build_type_groups X ms outs))"
  by (simp add: build_type_groups_def keys_type_entries)

lemma enumerate_snoc: "enumerate n (xs @ [x]) = enumerate n xs @ [(n + length xs, x)]"
  by (simp add: enumerate_append_eq)

text \<open>The positions of the elements with a property.\<close>

definition where_at :: "('a \<Rightarrow> bool) \<Rightarrow> 'a list \<Rightarrow> nat list" where
  "where_at P xs = filter (\<lambda>i. P (xs ! i)) [0..<length xs]"

lemma where_at_simps [simp]:
  "where_at P [] = []" "where_at P (xs @ [x]) = where_at P xs @ (if P x then [length xs] else [])"
proof -
  have "filter (\<lambda>i. P ((xs @ [x]) ! i)) [0..<length xs] = filter (\<lambda>i. P (xs ! i)) [0..<length xs]"
    by (intro filter_cong) (auto simp: nth_append)
  then show "where_at P (xs @ [x]) = where_at P xs @ (if P x then [length xs] else [])" by (simp add: where_at_def)
qed (simp add: where_at_def)

lemma set_where_at [simp]: "set (where_at P xs) = {i. i < length xs \<and> P (xs ! i)}"
  by (auto simp: where_at_def)

lemma distinct_where_at [simp]: "distinct (where_at P xs)"
  by (simp add: where_at_def)

lemma lock_groups_spec:
  "map_of (build_lock_groups X ms) k =
     (let is = where_at (\<lambda>m. calc_lock_hash X (cm_cell_output m) = k) ms in
      if is = [] then None
      else Some \<lparr>sg_script = co_lock (cm_cell_output (ms ! hd is)), sg_input_indices = is, sg_output_indices = []\<rparr>)"
proof (induction ms rule: rev_induct)
  case (snoc m ms)
  let ?is = "where_at (\<lambda>m. calc_lock_hash X (cm_cell_output m) = k) ms"
  have hd: "?is \<noteq> [] \<Longrightarrow> hd ?is < length ms" using hd_in_set [of ?is] by simp
  show ?case
  proof (cases "calc_lock_hash X (cm_cell_output m) = k")
    case True
    then show ?thesis using snoc hd
      by (auto simp: build_lock_groups_def enumerate_snoc map_of_group_entry Let_def push_input_def script_group_new_def
          nth_append hd_append)
  next
    case False
    then show ?thesis using snoc hd
      by (auto simp: build_lock_groups_def enumerate_snoc map_of_group_entry Let_def nth_append)
  qed
qed (simp add: build_lock_groups_def)

definition typed :: "'z ext_scheme \<Rightarrow> byte32 \<Rightarrow> cell_output \<Rightarrow> bool" where
  "typed X k out \<longleftrightarrow> (\<exists>t. co_type out = Some t \<and> calc_script_hash X t = k)"

lemma type_entry_other: "\<not> typed X k out \<Longrightarrow> map_of (type_entry X push (i, out) gs) k = map_of gs k"
  by (auto simp: type_entry_def typed_def map_of_group_entry split: option.splits)

lemma type_entry_same: "typed X k out \<Longrightarrow> \<exists>t. calc_script_hash X t = k \<and> map_of (type_entry X push (i, out) gs) k =
     Some (push i (case map_of gs k of None \<Rightarrow> script_group_new t | Some g \<Rightarrow> g))"
  by (auto simp: type_entry_def typed_def map_of_group_entry)

text \<open>A group of a key: \<open>None\<close> without members, otherwise its members and a script with that hash.\<close>

definition type_group_ok :: "'z ext_scheme \<Rightarrow> byte32 \<Rightarrow> nat list \<Rightarrow> nat list \<Rightarrow> script_group option \<Rightarrow> bool" where
  "type_group_ok X k ins outs g \<longleftrightarrow>
     (if ins = [] \<and> outs = [] then g = None
      else \<exists>t. calc_script_hash X t = k \<and> g = Some \<lparr>sg_script = t, sg_input_indices = ins, sg_output_indices = outs\<rparr>)"

lemma type_entry_ok:
  assumes "type_group_ok X k ins outs (map_of gs k)"
  shows "type_group_ok X k (if typed X k out then ins @ [i] else ins) outs (map_of (type_entry X push_input (i, out) gs) k)"
    and "type_group_ok X k ins (if typed X k out then outs @ [i] else outs) (map_of (type_entry X push_output (i, out) gs) k)"
  using assms type_entry_same [of X k out push_input i gs] type_entry_same [of X k out push_output i gs]
    type_entry_other [of X k out push_input i gs] type_entry_other [of X k out push_output i gs]
  by (cases "typed X k out"; auto simp: type_group_ok_def push_input_def push_output_def script_group_new_def split: if_splits)+

lemma type_groups_spec:
  "type_group_ok X k (where_at (typed X k) (map cm_cell_output ms)) (where_at (typed X k) outs)
     (map_of (build_type_groups X ms outs) k)"
proof -
  let ?ins = "fold (type_entry X push_input) (enumerate 0 (map cm_cell_output ms)) []"
  have ins: "type_group_ok X k (where_at (typed X k) xs) []
      (map_of (fold (type_entry X push_input) (enumerate 0 xs) []) k)" for xs
  proof (induction xs rule: rev_induct)
    case (snoc x xs)
    show ?case using type_entry_ok(1) [OF snoc, of x "length xs"] by (simp add: enumerate_snoc split: if_splits)
  qed (simp add: type_group_ok_def)
  have "type_group_ok X k (where_at (typed X k) (map cm_cell_output ms)) (where_at (typed X k) ys)
      (map_of (fold (type_entry X push_output) (enumerate 0 ys) ?ins) k)" for ys
  proof (induction ys rule: rev_induct)
    case Nil
    then show ?case using ins by simp
  next
    case (snoc y ys)
    show ?case using type_entry_ok(2) [OF snoc, of y "length ys"] by (simp add: enumerate_snoc split: if_splits)
  qed
  then show ?thesis by (simp add: build_type_groups_def)
qed

lemma new_groups:
  assumes "scripts_verifier_new X load rtx = Ok v"
  shows "sv_rtx v = rtx" "sv_lock_groups v = build_lock_groups X (rtx_inputs rtx)"
    "sv_type_groups v = build_type_groups X (rtx_inputs rtx) (tx_outputs (rtx_transaction rtx))"
  using assms by (auto simp: scripts_verifier_new_def tryq_eq_Ok)

section \<open>An example\<close>

text \<open>A machine that needs 500 cycles for any program and exits with 0.\<close>

definition example_vm :: vm where
  "example_vm = \<lparr>vm_load_program = (\<lambda>p. Ok (of_nat (length p))), vm_add_cycles = (\<lambda>mx c d. Ok (c + d)),
     vm_run = (\<lambda>rtx g p mx c. Ok (0, c + 500))\<rparr>"

definition example_lock :: script where
  "example_lock = \<lparr>sc_code_hash = replicate 32 7, sc_hash_type = 0, sc_args = []\<rparr>"

definition example_locked_cell :: cell_meta where
  "example_locked_cell = \<lparr>cm_cell_output = \<lparr>co_capacity = 100, co_lock = example_lock, co_type = None\<rparr>,
     cm_out_point = example_point, cm_transaction_info = None, cm_data_bytes = 0, cm_mem_cell_data = None\<rparr>"

definition example_code_cell :: cell_meta where
  "example_code_cell = \<lparr>cm_cell_output = \<lparr>co_capacity = 100, co_lock = example_lock, co_type = None\<rparr>,
     cm_out_point = example_point, cm_transaction_info = None, cm_data_bytes = 4, cm_mem_cell_data = None\<rparr>"

definition example_rtx :: resolved_transaction where
  "example_rtx = \<lparr>rtx_transaction = tx_view example_spend (replicate 32 2) (replicate 32 4),
     rtx_cell_deps = [example_code_cell], rtx_inputs = [example_locked_cell, example_locked_cell], rtx_dep_groups = []\<rparr>"

definition example_loader :: "cell_meta \<Rightarrow> (bytes \<times> byte32) option" where
  "example_loader m = Some ([1, 2, 3, 4], replicate 32 7)"

lemma example_verifier:
  "\<exists>v. scripts_verifier_new ext_word example_loader example_rtx = Ok v \<and>
     verify_scripts ext_word example_vm (map snd) v 1000 = Ok 501"
proof -
  obtain v where v: "scripts_verifier_new ext_word example_loader example_rtx = Ok v"
    by (auto simp: scripts_verifier_new_def example_rtx_def add_binary_def example_loader_def Let_def)
  have d: "sv_binaries_by_data_hash v = [replicate 32 7 \<mapsto> [1, 2, 3, 4]]"
    using v by (auto simp: scripts_verifier_new_def example_rtx_def add_binary_def example_loader_def Let_def)
  have l: "sv_lock_groups v = [(calc_script_hash ext_word example_lock,
      \<lparr>sg_script = example_lock, sg_input_indices = [0, 1], sg_output_indices = []\<rparr>)]"
    unfolding new_groups(2) [OF v]
    by (simp add: example_rtx_def build_lock_groups_def example_locked_cell_def calc_lock_hash_def push_input_def
        script_group_new_def)
  have t: "sv_type_groups v = []"
    unfolding new_groups(3) [OF v]
    by (simp add: example_rtx_def build_type_groups_def example_locked_cell_def type_entry_def example_spend_def
        example_tx_def)
  have "verify_scripts ext_word example_vm (map snd) v 1000 = Ok 501"
    by (simp add: verify_scripts_def l t verify_group_cycles_def verify_script_group_def example_lock_def
        run_group_def extract_script_def d example_vm_def transferred_byte_cycles_def BYTES_PER_CYCLE_def
        p_add_def checked_add_def p_sub_def checked_sub_def p_div_def checked_div_def)
  then show ?thesis using v by blast
qed

section \<open>Properties\<close>

text \<open>
  C17. The order in which the groups run does not matter: a hash map iterates over its values in
  an unspecified order, but when the scripts of a transaction pass in one order, they pass in
  every order with the same number of cycles, and that number is at most the limit.
\<close>

theorem script_order_irrelevant:
  assumes "verify_scripts X M ord v max_cycles = Ok c"
    and "\<forall>gs. mset (ord gs) = mset (map snd gs)" and "\<forall>gs. mset (ord' gs) = mset (map snd gs)"
  shows "verify_scripts X M ord' v max_cycles = Ok c \<and> c \<le> max_cycles"
proof -
  let ?gs = "ord (sv_lock_groups v) @ ord (sv_type_groups v)"
  let ?hs = "ord' (sv_lock_groups v) @ ord' (sv_type_groups v)"
  let ?f = "\<lambda>g. case verify_script_group X M v g max_cycles of Ok d \<Rightarrow> unat d | _ \<Rightarrow> 0"
  have m: "mset ?gs = mset ?hs" using assms(2,3) by simp
  then have s: "set ?gs = set ?hs" by (metis set_mset_mset)
  have "sum_list (map ?f ?gs) = sum_list (map ?f ?hs)"
    using arg_cong [OF m, of "\<lambda>M. sum_mset (image_mset ?f M)"] by (simp only: mset_map [symmetric] sum_mset_sum_list)
  moreover have "?gs = [] \<longleftrightarrow> ?hs = []" by (simp only: set_empty [symmetric] s)
  ultimately show ?thesis
    using assms(1) verify_scripts_limit [OF assms(1)] s unfolding verify_scripts_def verify_groups_Ok by auto
qed

theorem script_order_irrelevant_witness:
  "\<exists>v. scripts_verifier_new ext_word example_loader example_rtx = Ok v \<and>
     verify_scripts ext_word example_vm (\<lambda>gs. rev (map snd gs)) v 1000 = Ok 501"
proof -
  obtain v where v: "scripts_verifier_new ext_word example_loader example_rtx = Ok v"
      "verify_scripts ext_word example_vm (map snd) v 1000 = Ok 501" using example_verifier by blast
  show ?thesis using v(1) script_order_irrelevant [OF v(2), of "\<lambda>gs. rev (map snd gs)"] by auto
qed



end
