(* ===== verification/Tx_Verifier.thy ===== *)
theory Tx_Verifier
  imports Header_Verifier Dao Script
begin

text \<open>
  The verification of a resolved transaction (\<open>verification/src/transaction_verifier.rs\<close>): its
  version, size, emptiness, maturity, capacity, dependencies, output data, \<open>since\<close> locks, scripts
  and fee. The crate \<open>lru_cache\<close> is the parameter \<^verbatim>\<open>lru\<close>; what the code relies on is that a
  cache never invents an entry (\<open>lru_ok\<close>).
\<close>

section \<open>Least-recently-used caches\<close>

record ('c, 'v) lru =
  lru_new :: "nat \<Rightarrow> 'c"
  lru_get :: "'c \<Rightarrow> byte32 \<Rightarrow> 'v option"
  lru_insert :: "'c \<Rightarrow> byte32 \<Rightarrow> 'v \<Rightarrow> 'c"

definition lru_ok :: "('c, 'v) lru \<Rightarrow> bool" where
  "lru_ok L \<longleftrightarrow> (\<forall>n k. lru_get L (lru_new L n) k = None) \<and>
     (\<forall>c k v k'. lru_get L (lru_insert L c k v) k' = None \<or>
        lru_get L (lru_insert L c k v) k' = ((lru_get L c)(k \<mapsto> v)) k')"

text \<open>A cache that keeps the entries inserted last, most recent first.\<close>

definition lru_list :: "(nat \<times> (byte32 \<times> 'v) list, 'v) lru" where
  "lru_list = \<lparr>lru_new = (\<lambda>n. (n, [])), lru_get = (\<lambda>(n, kvs) k. map_of kvs k),
     lru_insert = (\<lambda>(n, kvs) k v. (n, take n ((k, v) # kvs)))\<rparr>"

section \<open>Rules without context\<close>

definition tx_version_verify :: "transaction_view \<Rightarrow> u32 \<Rightarrow> unit result" where
  "tx_version_verify tx expected_version =
     (if tx_version tx \<noteq> expected_version then Err (Transaction MismatchedVersion) else Ok ())"

definition size_verify :: "'z ext_scheme \<Rightarrow> transaction_view \<Rightarrow> u64 \<Rightarrow> unit result" where
  "size_verify X tx block_bytes_limit =
     (if (of_nat (serialized_size_in_block X tx) :: u64) \<le> block_bytes_limit then Ok ()
      else Err (Transaction TxExceededMaximumBlockBytes))"

definition empty_verify :: "transaction_view \<Rightarrow> unit result" where
  "empty_verify tx =
     (if tx_inputs tx = [] \<or> (tx_outputs tx = [] \<and> \<not> tx_is_cellbase tx) then Err (Transaction TxEmpty) else Ok ())"

definition cellbase_immature :: "'z numext_scheme \<Rightarrow> epoch_fraction \<Rightarrow> epoch_fraction \<Rightarrow> cell_meta \<Rightarrow> bool result" where
  "cellbase_immature N epoch cellbase_maturity m =
     (case cm_transaction_info m of
        None \<Rightarrow> Ok False
      | Some info \<Rightarrow>
          if 0 < ti_block_number info \<and> ti_is_cellbase info then
            expect (do {
              a \<leftarrow> ef_to_rational N cellbase_maturity;
              b \<leftarrow> ef_to_rational N (ti_block_epoch info);
              threshold \<leftarrow> rat_add N a b;
              current \<leftarrow> ef_to_rational N epoch;
              rat_lt N current threshold })
          else Ok False)"

definition maturity_verify ::
  "'z numext_scheme \<Rightarrow> resolved_transaction \<Rightarrow> epoch_fraction \<Rightarrow> epoch_fraction \<Rightarrow> unit result" where
  "maturity_verify N rtx epoch cellbase_maturity =
     tryq (try_any (cellbase_immature N epoch cellbase_maturity) (rtx_inputs rtx)) (\<lambda>input_immature_spend.
     tryq (if input_immature_spend then Ok True
           else try_any (cellbase_immature N epoch cellbase_maturity) (rtx_cell_deps rtx)) (\<lambda>immature.
     if immature then Err (Transaction CellbaseImmaturity) else Ok ()))"

definition duplicate_deps_verify :: "transaction_view \<Rightarrow> unit result" where
  "duplicate_deps_verify tx =
     (if all_insert {} (tx_cell_deps tx) \<and> all_insert {} (tx_header_deps tx) then Ok ()
      else Err (Transaction DuplicateDeps))"

definition valid_dao_withdraw_transaction :: "byte32 option \<Rightarrow> resolved_transaction \<Rightarrow> bool result" where
  "valid_dao_withdraw_transaction dao_type_hash rtx =
     try_any (\<lambda>m. case co_type (cm_cell_output m) of
         None \<Rightarrow> Ok False
       | Some t \<Rightarrow> if sc_hash_type t = 1 then tryq (expect dao_type_hash) (\<lambda>h. Ok (sc_code_hash t = h)) else Ok False)
       (rtx_inputs rtx)"

definition capacity_verify :: "byte32 option \<Rightarrow> resolved_transaction \<Rightarrow> unit result" where
  "capacity_verify dao_type_hash rtx =
     tryq (if rtx_is_cellbase rtx then Ok True else valid_dao_withdraw_transaction dao_type_hash rtx) (\<lambda>skip.
     tryq (if skip then Ok ()
           else
             tryq (cap_result (rtx_inputs_capacity rtx)) (\<lambda>inputs_total.
             tryq (cap_result (rtx_outputs_capacity rtx)) (\<lambda>outputs_total.
             if inputs_total < outputs_total then Err (Transaction OutputsSumOverflow) else Ok ()))) (\<lambda>_.
     try_for_each (\<lambda>(out, d).
       tryq (cap_result (tryq (capacity_bytes (length d)) (is_lack_of_capacity out))) (\<lambda>lack.
       if lack then Err (Transaction InsufficientCellCapacity) else Ok ()))
       (outputs_with_data (rtx_transaction rtx))))"

definition outputs_data_verify :: "transaction_view \<Rightarrow> unit result" where
  "outputs_data_verify tx =
     (if length (tx_outputs tx) \<noteq> length (tx_outputs_data tx) then Err (Transaction OutputsDataLengthMismatch) else Ok ())"

section \<open>Since\<close>

definition LOCK_TYPE_FLAG :: u64 where "LOCK_TYPE_FLAG = push_bit 63 1"
definition METRIC_TYPE_FLAG_MASK :: u64 where "METRIC_TYPE_FLAG_MASK = 0x6000000000000000"
definition VALUE_MASK :: u64 where "VALUE_MASK = 0x00ffffffffffffff"
definition REMAIN_FLAGS_BITS :: u64 where "REMAIN_FLAGS_BITS = 0x1f00000000000000"

datatype since_metric =
    BlockNumber u64
  | EpochNumberWithFraction epoch_fraction
  | Timestamp u64

definition is_absolute :: "u64 \<Rightarrow> bool" where
  "is_absolute since \<longleftrightarrow> and since LOCK_TYPE_FLAG = 0"

definition is_relative :: "u64 \<Rightarrow> bool" where
  "is_relative since \<longleftrightarrow> \<not> is_absolute since"

definition flags_is_valid :: "u64 \<Rightarrow> bool" where
  "flags_is_valid since \<longleftrightarrow>
     and since REMAIN_FLAGS_BITS = 0 \<and> and since METRIC_TYPE_FLAG_MASK \<noteq> METRIC_TYPE_FLAG_MASK"

definition extract_metric :: "u64 \<Rightarrow> since_metric option result" where
  "extract_metric since =
     (let value = and since VALUE_MASK; metric = and since METRIC_TYPE_FLAG_MASK in
      if metric = 0 then Ok (Some (BlockNumber value))
      else if metric = 0x2000000000000000 then Ok (Some (EpochNumberWithFraction (ef_from_full_value value)))
      else if metric = 0x4000000000000000 then tryq (p_mul value 1000) (\<lambda>t. Ok (Some (Timestamp t)))
      else Ok None)"

record since_context =
  sn_block_number :: u64
  sn_epoch :: epoch_fraction
  sn_parent_hash :: byte32

definition cached_median_time :: "('c, u64) lru \<Rightarrow> time_context \<Rightarrow> u64 \<Rightarrow> 'c \<Rightarrow> byte32 \<Rightarrow> (u64 \<times> 'c) result" where
  "cached_median_time L tp cnt c block_hash =
     (case lru_get L c block_hash of
        Some median_time \<Rightarrow> Ok (median_time, c)
      | None \<Rightarrow>
          tryq (block_median_time tp cnt block_hash) (\<lambda>median_time.
          Ok (median_time, lru_insert L c block_hash median_time)))"

definition parent_median_time :: "('c, u64) lru \<Rightarrow> time_context \<Rightarrow> u64 \<Rightarrow> 'c \<Rightarrow> byte32 \<Rightarrow> (u64 \<times> 'c) result" where
  "parent_median_time L tp cnt c block_hash =
     tryq (tp block_hash) (\<lambda>(_, _, parent_hash). cached_median_time L tp cnt c parent_hash)"

definition verify_absolute_lock ::
  "('c, u64) lru \<Rightarrow> time_context \<Rightarrow> u64 \<Rightarrow> since_context \<Rightarrow> 'c \<Rightarrow> u64 \<Rightarrow> 'c result" where
  "verify_absolute_lock L tp cnt sn c since =
     (if is_absolute since then
        tryq (extract_metric since) (\<lambda>metric.
        case metric of
          Some (BlockNumber block_number) \<Rightarrow>
            if sn_block_number sn < block_number then Err (Transaction Immature) else Ok c
        | Some (EpochNumberWithFraction e) \<Rightarrow>
            tryq (expect (ef_cmp (sn_epoch sn) e)) (\<lambda>o1. if o1 = Less then Err (Transaction Immature) else Ok c)
        | Some (Timestamp timestamp) \<Rightarrow>
            tryq (cached_median_time L tp cnt c (sn_parent_hash sn)) (\<lambda>(tip_timestamp, c).
            if tip_timestamp < timestamp then Err (Transaction Immature) else Ok c)
        | None \<Rightarrow> Err (Transaction InvalidSince))
      else Ok c)"

definition verify_relative_lock ::
  "'z numext_scheme \<Rightarrow> ('c, u64) lru \<Rightarrow> time_context \<Rightarrow> u64 \<Rightarrow> since_context \<Rightarrow> 'c \<Rightarrow> u64 \<Rightarrow> cell_meta \<Rightarrow> 'c result" where
  "verify_relative_lock N L tp cnt sn c since m =
     (if is_relative since then
        tryq (ok_or (Transaction Immature) (cm_transaction_info m)) (\<lambda>info.
        tryq (extract_metric since) (\<lambda>metric.
        case metric of
          Some (BlockNumber block_number) \<Rightarrow>
            tryq (p_add (ti_block_number info) block_number) (\<lambda>n.
            if sn_block_number sn < n then Err (Transaction Immature) else Ok c)
        | Some (EpochNumberWithFraction e) \<Rightarrow>
            tryq (expect (do {
              a \<leftarrow> ef_to_rational N (sn_epoch sn);
              x \<leftarrow> ef_to_rational N (ti_block_epoch info);
              y \<leftarrow> ef_to_rational N e;
              b \<leftarrow> rat_add N x y;
              rat_lt N a b })) (\<lambda>lt. if lt then Err (Transaction Immature) else Ok c)
        | Some (Timestamp timestamp) \<Rightarrow>
            tryq (parent_median_time L tp cnt c (ti_block_hash info)) (\<lambda>(cell_median_timestamp, c).
            tryq (cached_median_time L tp cnt c (sn_parent_hash sn)) (\<lambda>(current_median_time, c).
            tryq (p_add cell_median_timestamp timestamp) (\<lambda>t.
            if current_median_time < t then Err (Transaction Immature) else Ok c)))
        | None \<Rightarrow> Err (Transaction InvalidSince)))
      else Ok c)"

definition verify_input_since ::
  "'z numext_scheme \<Rightarrow> ('c, u64) lru \<Rightarrow> time_context \<Rightarrow> u64 \<Rightarrow> since_context \<Rightarrow> 'c \<Rightarrow> cell_meta \<times> cell_input \<Rightarrow> 'c result" where
  "verify_input_since N L tp cnt sn c = (\<lambda>(m, input).
     let since = ci_since input in
     if since = 0 then Ok c
     else if \<not> flags_is_valid since then Err (Transaction InvalidSince)
     else
       tryq (verify_absolute_lock L tp cnt sn c since) (\<lambda>c.
       verify_relative_lock N L tp cnt sn c since m))"

definition since_verify ::
  "'z numext_scheme \<Rightarrow> ('c, u64) lru \<Rightarrow> time_context \<Rightarrow> u64 \<Rightarrow> since_context \<Rightarrow> resolved_transaction \<Rightarrow> unit result" where
  "since_verify N L tp cnt sn rtx =
     map_ok (\<lambda>_. ()) (try_fold (verify_input_since N L tp cnt sn) (lru_new L (length (rtx_inputs rtx)))
       (zip (rtx_inputs rtx) (tx_inputs (rtx_transaction rtx))))"

section \<open>The verifiers of a transaction\<close>

record cache_entry =
  ce_cycles :: u64
  ce_fee :: capacity

definition fee_calculator_fee :: "'z ext_scheme \<Rightarrow> consensus \<Rightarrow> store \<Rightarrow> resolved_transaction \<Rightarrow> capacity result" where
  "fee_calculator_fee X C s rtx = (if rtx_is_cellbase rtx then Ok 0 else transaction_fee X C s rtx)"

definition tx_scripts_verify ::
  "'z ext_scheme \<Rightarrow> vm \<Rightarrow> (groups \<Rightarrow> script_group list) \<Rightarrow> store \<Rightarrow> resolved_transaction \<Rightarrow> u64 \<Rightarrow> u64 result" where
  "tx_scripts_verify X M ord s rtx max_cycles =
     tryq (scripts_verifier_new X (load_cell_data X s) rtx) (\<lambda>v. verify_scripts X M ord v max_cycles)"

definition verify_contextual_transaction ::
  "'z numext_scheme \<Rightarrow> consensus \<Rightarrow> ('c, u64) lru \<Rightarrow> time_context \<Rightarrow> u64 \<Rightarrow> since_context \<Rightarrow> resolved_transaction \<Rightarrow> unit result" where
  "verify_contextual_transaction N C L tp cnt sn rtx =
     tryq (maturity_verify N rtx (sn_epoch sn) (c_cellbase_maturity C)) (\<lambda>_.
     since_verify N L tp cnt sn rtx)"

definition verify_transaction ::
  "'z ext_scheme \<Rightarrow> vm \<Rightarrow> (groups \<Rightarrow> script_group list) \<Rightarrow> ('c, u64) lru \<Rightarrow> consensus \<Rightarrow> store \<Rightarrow>
   time_context \<Rightarrow> u64 \<Rightarrow> since_context \<Rightarrow> resolved_transaction \<Rightarrow> u64 \<Rightarrow> cache_entry result" where
  "verify_transaction X M ord L C s tp cnt sn rtx max_cycles =
     tryq (tx_version_verify (rtx_transaction rtx) (c_tx_version C)) (\<lambda>_.
     tryq (size_verify X (rtx_transaction rtx) (c_max_block_bytes C)) (\<lambda>_.
     tryq (empty_verify (rtx_transaction rtx)) (\<lambda>_.
     tryq (maturity_verify X rtx (sn_epoch sn) (c_cellbase_maturity C)) (\<lambda>_.
     tryq (capacity_verify (c_dao_type_hash C) rtx) (\<lambda>_.
     tryq (duplicate_deps_verify (rtx_transaction rtx)) (\<lambda>_.
     tryq (outputs_data_verify (rtx_transaction rtx)) (\<lambda>_.
     tryq (since_verify X L tp cnt sn rtx) (\<lambda>_.
     tryq (tx_scripts_verify X M ord s rtx max_cycles) (\<lambda>cycles.
     tryq (fee_calculator_fee X C s rtx) (\<lambda>fee.
     Ok \<lparr>ce_cycles = cycles, ce_fee = fee\<rparr>))))))))))"

section \<open>Since locks\<close>

text \<open>What a lock means, on exact numbers.\<close>

definition absolute_satisfied :: "time_context \<Rightarrow> u64 \<Rightarrow> since_context \<Rightarrow> u64 \<Rightarrow> bool" where
  "absolute_satisfied tp cnt sn since \<longleftrightarrow>
     (let value = and since VALUE_MASK; metric = and since METRIC_TYPE_FLAG_MASK in
      metric = 0 \<and> value \<le> sn_block_number sn \<or>
      metric = 0x2000000000000000 \<and> ef_cmp (sn_epoch sn) (ef_from_full_value value) \<noteq> Some Less \<or>
      metric = 0x4000000000000000 \<and>
        (\<exists>t. block_median_time tp cnt (sn_parent_hash sn) = Ok t \<and> unat value * 1000 \<le> unat t))"

definition relative_satisfied :: "time_context \<Rightarrow> u64 \<Rightarrow> since_context \<Rightarrow> u64 \<Rightarrow> transaction_info \<Rightarrow> bool" where
  "relative_satisfied tp cnt sn since info \<longleftrightarrow>
     (let value = and since VALUE_MASK; metric = and since METRIC_TYPE_FLAG_MASK in
      metric = 0 \<and> unat (ti_block_number info) + unat value \<le> unat (sn_block_number sn) \<or>
      metric = 0x2000000000000000 \<and> ef_val (ti_block_epoch info) + ef_val (ef_from_full_value value) \<le> ef_val (sn_epoch sn) \<or>
      metric = 0x4000000000000000 \<and>
        (\<exists>ts n parent tc t. tp (ti_block_hash info) = Ok (ts, n, parent) \<and> block_median_time tp cnt parent = Ok tc \<and>
           block_median_time tp cnt (sn_parent_hash sn) = Ok t \<and> unat tc + unat value * 1000 \<le> unat t))"

definition since_satisfied :: "time_context \<Rightarrow> u64 \<Rightarrow> since_context \<Rightarrow> u64 \<Rightarrow> cell_meta \<Rightarrow> bool" where
  "since_satisfied tp cnt sn since m \<longleftrightarrow> since = 0 \<or> flags_is_valid since \<and>
     (if is_absolute since then absolute_satisfied tp cnt sn since
      else \<exists>info. cm_transaction_info m = Some info \<and> relative_satisfied tp cnt sn since info)"

lemma ef_cmp_total: "ef_cmp a b \<noteq> None"
  using ef_mul_exact [of a b] ef_mul_exact [of b a] by (auto simp: ef_cmp_def split: ordering.splits)

text \<open>A cache of medians is sound when its entries are what the context computes.\<close>

definition medians_sound :: "('c, u64) lru \<Rightarrow> time_context \<Rightarrow> u64 \<Rightarrow> 'c \<Rightarrow> bool" where
  "medians_sound L tp cnt c \<longleftrightarrow> (\<forall>h m. lru_get L c h = Some m \<longrightarrow> block_median_time tp cnt h = Ok m)"

lemma medians_sound_new: "lru_ok L \<Longrightarrow> medians_sound L tp cnt (lru_new L n)"
  by (simp add: medians_sound_def lru_ok_def)

lemma cached_median_time_sound:
  assumes "lru_ok L" and "medians_sound L tp cnt c"
  shows "(\<exists>c'. cached_median_time L tp cnt c h = Ok (t, c')) \<longleftrightarrow> block_median_time tp cnt h = Ok t"
    and "cached_median_time L tp cnt c h = Ok (t, c') \<Longrightarrow> medians_sound L tp cnt c'"
proof -
  show "(\<exists>c'. cached_median_time L tp cnt c h = Ok (t, c')) \<longleftrightarrow> block_median_time tp cnt h = Ok t"
    using assms(2) by (auto simp: cached_median_time_def medians_sound_def tryq_eq_Ok split: option.splits)
  assume "cached_median_time L tp cnt c h = Ok (t, c')"
  then consider "c' = c" | "block_median_time tp cnt h = Ok t" "c' = lru_insert L c h t"
    by (auto simp: cached_median_time_def tryq_eq_Ok split: option.splits)
  then show "medians_sound L tp cnt c'"
  proof cases
    case 2
    show ?thesis
      unfolding medians_sound_def
    proof (intro allI impI)
      fix h' m
      assume "lru_get L c' h' = Some m"
      then have "((lru_get L c)(h \<mapsto> t)) h' = Some m" using assms(1) 2(2) unfolding lru_ok_def by (metis option.distinct(1))
      then show "block_median_time tp cnt h' = Ok m"
        using 2(1) assms(2) by (auto simp: medians_sound_def split: if_splits)
    qed
  qed (use assms in simp)
qed

lemma extract_metric_simps:
  "and since METRIC_TYPE_FLAG_MASK = 0 \<Longrightarrow> extract_metric since = Ok (Some (BlockNumber (and since VALUE_MASK)))"
  "and since METRIC_TYPE_FLAG_MASK = 0x2000000000000000 \<Longrightarrow>
     extract_metric since = Ok (Some (EpochNumberWithFraction (ef_from_full_value (and since VALUE_MASK))))"
  "and since METRIC_TYPE_FLAG_MASK = 0x4000000000000000 \<Longrightarrow> extract_metric since =
     (if unat (and since VALUE_MASK) * 1000 < 2 ^ 64 then Ok (Some (Timestamp (and since VALUE_MASK * 1000))) else Panic)"
  "and since METRIC_TYPE_FLAG_MASK \<notin> {0, 0x2000000000000000, 0x4000000000000000} \<Longrightarrow> extract_metric since = Ok None"
  by (auto simp: extract_metric_def Let_def p_mul_def checked_mul_def)

lemma unat_timestamp:
  "unat (and since VALUE_MASK) * 1000 < 2 ^ 64 \<Longrightarrow> unat (and since VALUE_MASK * 1000 :: u64) = unat (and since VALUE_MASK) * 1000"
  by (simp add: unat_mul_exact)

lemma verify_absolute_lock_Ok:
  assumes "lru_ok L" and "medians_sound L tp cnt c"
  shows "(\<exists>c'. verify_absolute_lock L tp cnt sn c since = Ok c') \<longleftrightarrow> (is_absolute since \<longrightarrow> absolute_satisfied tp cnt sn since)"
    and "verify_absolute_lock L tp cnt sn c since = Ok c' \<Longrightarrow> medians_sound L tp cnt c'"
proof -
  let ?m = "and since METRIC_TYPE_FLAG_MASK" and ?v = "and since VALUE_MASK"
  consider "?m = 0" | "?m = 0x2000000000000000" | "?m = 0x4000000000000000" | "?m \<notin> {0, 0x2000000000000000, 0x4000000000000000}"
    by blast
  then show "(\<exists>c'. verify_absolute_lock L tp cnt sn c since = Ok c') \<longleftrightarrow> (is_absolute since \<longrightarrow> absolute_satisfied tp cnt sn since)"
  proof cases
    case 3
    show ?thesis
    proof (cases "unat ?v * 1000 < 2 ^ 64")
      case True
      then have "is_absolute since \<Longrightarrow> (\<exists>c'. verify_absolute_lock L tp cnt sn c since = Ok c') \<longleftrightarrow>
          (\<exists>t. (\<exists>c'. cached_median_time L tp cnt c (sn_parent_hash sn) = Ok (t, c')) \<and> \<not> t < ?v * 1000)"
        using 3 by (auto simp: verify_absolute_lock_def extract_metric_simps tryq_eq_Ok)
      then show ?thesis
        unfolding cached_median_time_sound(1) [OF assms] using 3 True
        by (auto simp: verify_absolute_lock_def absolute_satisfied_def not_less word_le_nat_alt unat_timestamp)
    next
      case False
      have "\<not> unat ?v * 1000 \<le> unat t" for t :: u64 using False unat_bound [of t] by simp
      then show ?thesis using 3 False by (simp add: verify_absolute_lock_def extract_metric_simps absolute_satisfied_def)
    qed
  qed (use ef_cmp_total [of "sn_epoch sn" "ef_from_full_value ?v"] in
      \<open>auto simp: verify_absolute_lock_def extract_metric_simps absolute_satisfied_def outcome_simps not_less split: if_splits\<close>)
  assume ok: "verify_absolute_lock L tp cnt sn c since = Ok c'"
  show "medians_sound L tp cnt c'"
  proof (cases "extract_metric since")
    case (Ok r)
    then show ?thesis
      using ok assms cached_median_time_sound(2) [OF assms, of "sn_parent_hash sn"]
      by (cases r; cases "the r"; auto simp: verify_absolute_lock_def tryq_eq_Ok split: if_splits)
  qed (use ok assms in \<open>auto simp: verify_absolute_lock_def split: if_splits\<close>)
qed

lemma relative_timestamp_step:
  assumes "and since METRIC_TYPE_FLAG_MASK = 0x4000000000000000" and "unat (and since VALUE_MASK) * 1000 < 2 ^ 64"
    and "cm_transaction_info m = Some info" and "\<not> is_absolute since"
  shows "(\<exists>c'. verify_relative_lock N L tp cnt sn c since m = Ok c') \<longleftrightarrow>
     (\<exists>ts n parent tc c1 t c2. tp (ti_block_hash info) = Ok (ts, n, parent) \<and>
        cached_median_time L tp cnt c parent = Ok (tc, c1) \<and>
        cached_median_time L tp cnt c1 (sn_parent_hash sn) = Ok (t, c2) \<and>
        unat tc + unat (and since VALUE_MASK) * 1000 \<le> unat t)"
proof -
  have eq: "(\<exists>x. p_add tc (and since VALUE_MASK * 1000) = (Ok x :: u64 result) \<and> \<not> t < x) \<longleftrightarrow>
      unat tc + unat (and since VALUE_MASK) * 1000 \<le> unat t" for tc t :: u64
    using unat_bound [of t] assms(2)
    by (auto simp: p_add_def checked_add_def word_less_nat_alt unat_timestamp unat_add_exact)
  show ?thesis using assms
    by (auto simp: verify_relative_lock_def is_relative_def extract_metric_simps parent_median_time_def tryq_eq_Ok)
      (use eq in blast)+
qed

lemma relative_timestamp_Ok:
  assumes metric: "and since METRIC_TYPE_FLAG_MASK = 0x4000000000000000" and info: "cm_transaction_info m = Some info"
    and L: "lru_ok L" "medians_sound L tp cnt c"
  shows "(\<exists>c'. verify_relative_lock N L tp cnt sn c since m = Ok c') \<longleftrightarrow>
     (\<not> is_absolute since \<longrightarrow> relative_satisfied tp cnt sn since info)"
proof (cases "is_absolute since \<or> \<not> unat (and since VALUE_MASK) * 1000 < 2 ^ 64")
  case True
  have "\<not> unat tc + unat (and since VALUE_MASK) * 1000 \<le> unat t" if "\<not> unat (and since VALUE_MASK) * 1000 < 2 ^ 64"
    for t tc :: u64 using that unat_bound [of t] by simp
  then show ?thesis using True metric info
    by (auto simp: verify_relative_lock_def is_relative_def extract_metric_simps relative_satisfied_def)
next
  case False
  have c1: "cached_median_time L tp cnt c parent = Ok (tc, c1) \<Longrightarrow>
      (\<exists>c2. cached_median_time L tp cnt c1 h = Ok (t, c2)) \<longleftrightarrow> block_median_time tp cnt h = Ok t" for parent tc c1 h t
    using cached_median_time_sound [OF L(1)] L(2) by blast
  have small: "unat (and since VALUE_MASK) * 1000 < 2 ^ 64" and rel: "\<not> is_absolute since" using False by blast+
  have "(\<exists>c'. verify_relative_lock N L tp cnt sn c since m = Ok c') \<longleftrightarrow>
      (\<exists>ts n parent tc t. tp (ti_block_hash info) = Ok (ts, n, parent) \<and>
         (\<exists>c1. cached_median_time L tp cnt c parent = Ok (tc, c1)) \<and>
         block_median_time tp cnt (sn_parent_hash sn) = Ok t \<and> unat tc + unat (and since VALUE_MASK) * 1000 \<le> unat t)"
    unfolding relative_timestamp_step [OF metric small info rel] using c1 by blast
  then show ?thesis
    unfolding cached_median_time_sound(1) [OF L] using metric False by (simp add: relative_satisfied_def)
qed

lemma relative_number_Ok:
  assumes "and since METRIC_TYPE_FLAG_MASK = 0" and "cm_transaction_info m = Some info"
  shows "(\<exists>c'. verify_relative_lock N L tp cnt sn c since m = Ok c') \<longleftrightarrow>
     (\<not> is_absolute since \<longrightarrow> relative_satisfied tp cnt sn since info)"
proof (cases "unat (ti_block_number info) + unat (and since VALUE_MASK) < 2 ^ 64")
  case False
  then have "\<not> unat (ti_block_number info) + unat (and since VALUE_MASK) \<le> unat (sn_block_number sn)"
    using unat_bound [of "sn_block_number sn"] by simp
  then show ?thesis using assms False
    by (auto simp: verify_relative_lock_def is_relative_def extract_metric_simps relative_satisfied_def outcome_simps panic_simps)
qed (use assms in \<open>auto simp: verify_relative_lock_def is_relative_def extract_metric_simps relative_satisfied_def
    tryq_eq_Ok p_add_def checked_add_def word_less_nat_alt not_less unat_add_exact\<close>)

lemma verify_relative_lock_Ok:
  assumes "numext_ok N" and "lru_ok L" and "medians_sound L tp cnt c" and "ef_length (sn_epoch sn) \<noteq> 0"
    and "\<And>info. cm_transaction_info m = Some info \<Longrightarrow> ef_length (ti_block_epoch info) \<noteq> 0"
  shows "(\<exists>c'. verify_relative_lock N L tp cnt sn c since m = Ok c') \<longleftrightarrow> (\<not> is_absolute since \<longrightarrow>
     (\<exists>info. cm_transaction_info m = Some info \<and> relative_satisfied tp cnt sn since info))"
proof (cases "cm_transaction_info m")
  case (Some info)
  let ?m = "and since METRIC_TYPE_FLAG_MASK" and ?v = "and since VALUE_MASK"
  consider "?m = 0" | "?m = 0x2000000000000000" | "?m = 0x4000000000000000" | "?m \<notin> {0, 0x2000000000000000, 0x4000000000000000}"
    by blast
  then show ?thesis
  proof cases
    case 1
    then show ?thesis using relative_number_Ok [OF _ Some] Some by simp
  next
    case 3
    then show ?thesis using relative_timestamp_Ok [OF _ Some assms(2,3)] Some by simp
  next
    case 4
    then show ?thesis using Some by (simp add: verify_relative_lock_def is_relative_def extract_metric_simps relative_satisfied_def)
  next
    case 2
    obtain x y b a where r: "ef_to_rational N (ti_block_epoch info) = Some x" "ef_to_rational N (ef_from_full_value ?v) = Some y"
        "rat_add N x y = Some b" "ef_to_rational N (sn_epoch sn) = Some a"
        "rat_lt N a b = Some (ef_val (sn_epoch sn) < ef_val (ti_block_epoch info) + ef_val (ef_from_full_value ?v))"
      using epoch_sum_less [OF assms(1) assms(5) [OF Some] ef_from_full_value_length assms(4)] by blast
    show ?thesis using 2 Some
      by (auto simp: verify_relative_lock_def is_relative_def extract_metric_simps relative_satisfied_def r not_less)
  qed
qed (simp add: verify_relative_lock_def is_relative_def)

lemma verify_relative_lock_sound:
  assumes "lru_ok L" and "medians_sound L tp cnt c" and "verify_relative_lock N L tp cnt sn c since m = Ok c'"
  shows "medians_sound L tp cnt c'"
proof (cases "cm_transaction_info m")
  case (Some info)
  show ?thesis
  proof (cases "extract_metric since")
    case (Ok r)
    then show ?thesis
      using assms(2,3) Some cached_median_time_sound(2) [OF assms(1)]
      by (cases r; cases "the r"; auto simp: verify_relative_lock_def parent_median_time_def tryq_eq_Ok split: if_splits; blast)
  qed (use assms(2,3) Some in \<open>auto simp: verify_relative_lock_def split: if_splits\<close>)
qed (use assms(2,3) in \<open>auto simp: verify_relative_lock_def split: if_splits\<close>)

text \<open>The epochs of the cells of a transaction have a length, as every epoch of a header has.\<close>

definition epochs_ok :: "cell_meta list \<Rightarrow> bool" where
  "epochs_ok ms \<longleftrightarrow> (\<forall>m\<in>set ms. \<forall>info. cm_transaction_info m = Some info \<longrightarrow> ef_length (ti_block_epoch info) \<noteq> 0)"

lemma verify_input_since_Ok:
  assumes "numext_ok N" and "lru_ok L" and "ef_length (sn_epoch sn) \<noteq> 0" and "medians_sound L tp cnt c"
    and "\<And>info. cm_transaction_info m = Some info \<Longrightarrow> ef_length (ti_block_epoch info) \<noteq> 0"
  shows "(\<exists>c'. verify_input_since N L tp cnt sn c (m, i) = Ok c') \<longleftrightarrow> since_satisfied tp cnt sn (ci_since i) m"
proof -
  let ?s = "ci_since i"
  have abs: "(\<exists>c'. verify_absolute_lock L tp cnt sn c ?s = Ok c') \<longleftrightarrow> (is_absolute ?s \<longrightarrow> absolute_satisfied tp cnt sn ?s)"
    by (rule verify_absolute_lock_Ok(1) [OF assms(2,4)])
  have rel: "(\<exists>c'. verify_relative_lock N L tp cnt sn c1 ?s m = Ok c') \<longleftrightarrow> (\<not> is_absolute ?s \<longrightarrow>
      (\<exists>info. cm_transaction_info m = Some info \<and> relative_satisfied tp cnt sn ?s info))"
    if "verify_absolute_lock L tp cnt sn c ?s = Ok c1" for c1
    by (rule verify_relative_lock_Ok [where sn = sn, OF assms(1,2) verify_absolute_lock_Ok(2) [OF assms(2,4) that] assms(3,5)])
  show ?thesis
  proof (cases "?s = 0 \<or> \<not> flags_is_valid ?s")
    case False
    then have "(\<exists>c'. verify_input_since N L tp cnt sn c (m, i) = Ok c') \<longleftrightarrow>
        (\<exists>c1. verify_absolute_lock L tp cnt sn c ?s = Ok c1 \<and> (\<exists>c'. verify_relative_lock N L tp cnt sn c1 ?s m = Ok c'))"
      by (auto simp: verify_input_since_def Let_def tryq_eq_Ok)
    also have "\<dots> \<longleftrightarrow> since_satisfied tp cnt sn ?s m"
      using False abs rel by (auto simp: since_satisfied_def)
    finally show ?thesis .
  qed (auto simp: verify_input_since_def Let_def since_satisfied_def)
qed

lemma verify_input_since_sound:
  assumes "lru_ok L" and "medians_sound L tp cnt c" and "verify_input_since N L tp cnt sn c (m, i) = Ok c'"
  shows "medians_sound L tp cnt c'"
proof (cases "ci_since i = 0")
  case False
  then obtain c1 where 1: "verify_absolute_lock L tp cnt sn c (ci_since i) = Ok c1"
      and 2: "verify_relative_lock N L tp cnt sn c1 (ci_since i) m = Ok c'"
    using assms(3) by (auto simp: verify_input_since_def Let_def tryq_eq_Ok split: if_splits)
  show ?thesis by (rule verify_relative_lock_sound [OF assms(1) verify_absolute_lock_Ok(2) [OF assms(1,2) 1] 2])
qed (use assms in \<open>simp add: verify_input_since_def\<close>)

lemma since_verify_Ok:
  assumes "numext_ok N" and "lru_ok L" and "ef_length (sn_epoch sn) \<noteq> 0" and "epochs_ok (rtx_inputs rtx)"
  shows "since_verify N L tp cnt sn rtx = Ok () \<longleftrightarrow>
     (\<forall>(m, i)\<in>set (zip (rtx_inputs rtx) (tx_inputs (rtx_transaction rtx))). since_satisfied tp cnt sn (ci_since i) m)"
proof -
  let ?xs = "zip (rtx_inputs rtx) (tx_inputs (rtx_transaction rtx))"
  let ?P = "\<lambda>(m, i). since_satisfied tp cnt sn (ci_since i) m"
  have e: "\<And>info. cm_transaction_info m = Some info \<Longrightarrow> ef_length (ti_block_epoch info) \<noteq> 0" if "(m, i) \<in> set ?xs" for m i
    using that assms(4) by (auto simp: epochs_ok_def dest: set_zip_leftD)
  have "(\<exists>c'. try_fold (verify_input_since N L tp cnt sn) (lru_new L (length (rtx_inputs rtx))) ?xs = Ok c') \<longleftrightarrow>
      (\<forall>x\<in>set ?xs. ?P x)"
  proof (rule try_fold_invariant [where I = "medians_sound L tp cnt"])
    fix c x
    assume x: "x \<in> set ?xs" and c: "medians_sound L tp cnt c"
    show "(\<exists>c'. verify_input_since N L tp cnt sn c x = Ok c') \<longleftrightarrow> ?P x"
      using verify_input_since_Ok [where sn = sn, OF assms(1-3) c e] x by (cases x) simp
    show "verify_input_since N L tp cnt sn c x = Ok c' \<Longrightarrow> medians_sound L tp cnt c'" for c'
      using verify_input_since_sound [OF assms(2) c] by (cases x) blast
  qed (rule medians_sound_new [OF assms(2)])
  then show ?thesis by (auto simp: since_verify_def map_ok_eq_Ok)
qed

section \<open>Maturity and capacity\<close>

lemma cellbase_immature_False:
  assumes "numext_ok N" and "ef_length e \<noteq> 0" and "ef_length mat \<noteq> 0"
    and "\<And>info. cm_transaction_info m = Some info \<Longrightarrow> ef_length (ti_block_epoch info) \<noteq> 0"
  shows "cellbase_immature N e mat m = Ok False \<longleftrightarrow>
     (\<forall>info. cm_transaction_info m = Some info \<longrightarrow> ti_block_number info \<noteq> 0 \<longrightarrow> ti_is_cellbase info \<longrightarrow>
        ef_val mat + ef_val (ti_block_epoch info) \<le> ef_val e)"
proof (cases "cm_transaction_info m")
  case (Some info)
  obtain a b t c where "ef_to_rational N mat = Some a" "ef_to_rational N (ti_block_epoch info) = Some b" "rat_add N a b = Some t"
      "ef_to_rational N e = Some c" "rat_lt N c t = Some (ef_val e < ef_val mat + ef_val (ti_block_epoch info))"
    using epoch_sum_less [OF assms(1,3) assms(4) [OF Some] assms(2)] by blast
  then show ?thesis using Some by (auto simp: cellbase_immature_def word_neq_0_conv not_less)
qed (simp add: cellbase_immature_def)

lemma maturity_verify_Ok:
  assumes "numext_ok N" and "ef_length e \<noteq> 0" and "ef_length mat \<noteq> 0" and "epochs_ok (rtx_inputs rtx @ rtx_cell_deps rtx)"
  shows "maturity_verify N rtx e mat = Ok () \<longleftrightarrow>
     (\<forall>m\<in>set (rtx_inputs rtx @ rtx_cell_deps rtx). \<forall>info. cm_transaction_info m = Some info \<longrightarrow>
        ti_block_number info \<noteq> 0 \<longrightarrow> ti_is_cellbase info \<longrightarrow> ef_val mat + ef_val (ti_block_epoch info) \<le> ef_val e)"
proof -
  have "maturity_verify N rtx e mat = Ok () \<longleftrightarrow> (\<forall>m\<in>set (rtx_inputs rtx @ rtx_cell_deps rtx). cellbase_immature N e mat m = Ok False)"
    by (auto simp: maturity_verify_def tryq_eq_Ok try_any_eq_False split: if_splits)
  also have "\<dots> \<longleftrightarrow> (\<forall>m\<in>set (rtx_inputs rtx @ rtx_cell_deps rtx). \<forall>info. cm_transaction_info m = Some info \<longrightarrow>
        ti_block_number info \<noteq> 0 \<longrightarrow> ti_is_cellbase info \<longrightarrow> ef_val mat + ef_val (ti_block_epoch info) \<le> ef_val e)"
    using assms(4) cellbase_immature_False [OF assms(1-3)] unfolding epochs_ok_def by (intro ball_cong refl) blast
  finally show ?thesis .
qed

lemma capacity_verify_Ok:
  assumes "capacity_verify dao rtx = Ok ()"
  shows "\<forall>(out, d)\<in>set (outputs_with_data (rtx_transaction rtx)). \<exists>bytes occupied. capacity_bytes (length d) = Ok bytes \<and>
      cell_occupied_capacity out bytes = Ok occupied \<and> occupied \<le> co_capacity out"
    and "\<not> rtx_is_cellbase rtx \<Longrightarrow> valid_dao_withdraw_transaction dao rtx = Ok False \<Longrightarrow>
      sum_list (map (\<lambda>out. unat (co_capacity out)) (tx_outputs (rtx_transaction rtx))) \<le>
      sum_list (map (\<lambda>m. unat (cm_capacity m)) (rtx_inputs rtx))"
proof -
  show "\<forall>(out, d)\<in>set (outputs_with_data (rtx_transaction rtx)). \<exists>bytes occupied. capacity_bytes (length d) = Ok bytes \<and>
      cell_occupied_capacity out bytes = Ok occupied \<and> occupied \<le> co_capacity out"
    using assms by (fastforce simp: capacity_verify_def outcome_simps is_lack_of_capacity_def not_less split: if_splits)
  assume "\<not> rtx_is_cellbase rtx" "valid_dao_withdraw_transaction dao rtx = Ok False"
  then obtain a b where "rtx_inputs_capacity rtx = Ok a" "rtx_outputs_capacity rtx = Ok b" "b \<le> a"
    using assms by (auto simp: capacity_verify_def outcome_simps not_less split: if_splits)
  moreover have "unat a = sum_list (map (\<lambda>m. unat (cm_capacity m)) (rtx_inputs rtx))"
    using cap.try_fold_sum [of 0 "map cm_capacity (rtx_inputs rtx)" a] calculation(1) by (simp add: rtx_inputs_capacity_def o_def)
  moreover have "unat b = sum_list (map (\<lambda>out. unat (co_capacity out)) (tx_outputs (rtx_transaction rtx)))"
    using total_capacity_eq_Ok calculation(2) by (simp add: rtx_outputs_capacity_def outputs_capacity_def)
  ultimately show "sum_list (map (\<lambda>out. unat (co_capacity out)) (tx_outputs (rtx_transaction rtx))) \<le>
      sum_list (map (\<lambda>m. unat (cm_capacity m)) (rtx_inputs rtx))"
    by (simp add: word_le_nat_alt)
qed

lemma verify_transaction_parts:
  assumes "verify_transaction X M ord L C s tp cnt sn rtx mx = Ok en"
  shows "tx_version_verify (rtx_transaction rtx) (c_tx_version C) = Ok ()"
    "size_verify X (rtx_transaction rtx) (c_max_block_bytes C) = Ok ()"
    "empty_verify (rtx_transaction rtx) = Ok ()"
    "maturity_verify X rtx (sn_epoch sn) (c_cellbase_maturity C) = Ok ()"
    "capacity_verify (c_dao_type_hash C) rtx = Ok ()"
    "duplicate_deps_verify (rtx_transaction rtx) = Ok ()"
    "outputs_data_verify (rtx_transaction rtx) = Ok ()"
    "since_verify X L tp cnt sn rtx = Ok ()"
    "tx_scripts_verify X M ord s rtx mx = Ok (ce_cycles en)"
    "fee_calculator_fee X C s rtx = Ok (ce_fee en)"
  using assms unfolding verify_transaction_def by (auto simp: tryq_eq_Ok)

lemma dao_input_iff: "(valid_dao_withdraw_transaction (c_dao_type_hash C) rtx = Ok False) \<longleftrightarrow> (\<forall>m\<in>set (rtx_inputs rtx). not_dao C m)"
  unfolding valid_dao_withdraw_transaction_def try_any_eq_False
  by (intro ball_cong refl) (auto simp: not_dao_def is_dao_type_script_def split: option.splits)

section \<open>An example\<close>

definition example_pay :: transaction where
  "example_pay = example_spend\<lparr>tx_outputs := [\<lparr>co_capacity = 9000000000, co_lock = example_lock, co_type = None\<rparr>],
     tx_outputs_data := [[]]\<rparr>"

definition example_pay_rtx :: resolved_transaction where
  "example_pay_rtx = \<lparr>rtx_transaction = tx_view example_pay (replicate 32 2) (replicate 32 4),
     rtx_cell_deps = [example_code_cell\<lparr>cm_mem_cell_data := Some ([1, 2, 3, 4], replicate 32 7)\<rparr>],
     rtx_inputs = [example_locked_cell\<lparr>cm_cell_output := \<lparr>co_capacity = 10000000000, co_lock = example_lock, co_type = None\<rparr>\<rparr>],
     rtx_dep_groups = []\<rparr>"

definition example_since :: since_context where
  "example_since = \<lparr>sn_block_number = 5, sn_epoch = ef_new 0 5 1000, sn_parent_hash = byte32_zero\<rparr>"

lemma map_of_take: "map_of (take n kvs) k = None \<or> map_of (take n kvs) k = map_of kvs k"
proof (induction kvs arbitrary: n)
  case (Cons kv kvs)
  then show ?case by (cases n) auto
qed simp

lemma lru_list_ok: "lru_ok lru_list"
  unfolding lru_ok_def
proof (intro conjI allI)
  show "lru_get lru_list (lru_new lru_list n) k = None" for n k by (simp add: lru_list_def)
  fix c :: "nat \<times> (byte32 \<times> 'a) list" and k v k'
  show "lru_get lru_list (lru_insert lru_list c k v) k' = None \<or>
      lru_get lru_list (lru_insert lru_list c k v) k' = ((lru_get lru_list c)(k \<mapsto> v)) k'"
    using map_of_take [of "fst c" "(k, v) # snd c" k'] by (simp add: lru_list_def case_prod_unfold)
qed

lemma example_epochs:
  "ef_length (sn_epoch example_since) = 1000" "ef_length (c_cellbase_maturity example_consensus) = 1"
  by (simp_all add: example_since_def example_consensus_def ef_fields_new)

lemma example_pay_sel:
  "tx_inputs (rtx_transaction example_pay_rtx) = [cell_input_new example_point 0]"
  "tx_outputs (rtx_transaction example_pay_rtx) = [\<lparr>co_capacity = 9000000000, co_lock = example_lock, co_type = None\<rparr>]"
  "tx_outputs_data (rtx_transaction example_pay_rtx) = [[]]" "tx_version (rtx_transaction example_pay_rtx) = 0"
  "tx_cell_deps (rtx_transaction example_pay_rtx) = []" "tx_header_deps (rtx_transaction example_pay_rtx) = []"
  by (simp_all add: example_pay_rtx_def example_pay_def example_spend_def example_tx_def)

lemma example_pay_metas: "epochs_ok (rtx_inputs example_pay_rtx @ rtx_cell_deps example_pay_rtx)"
    "epochs_ok (rtx_inputs example_pay_rtx)" "\<forall>m\<in>set (rtx_inputs example_pay_rtx). not_dao C m" "\<not> rtx_is_cellbase example_pay_rtx"
  by (simp_all add: epochs_ok_def example_pay_rtx_def example_locked_cell_def example_code_cell_def not_dao_def rtx_is_cellbase_def)

lemma example_pay_scripts: "tx_scripts_verify ext_word example_vm (map snd) store_empty example_pay_rtx 1000 = Ok 501"
proof -
  have load: "load_cell_data ext_word store_empty (example_code_cell\<lparr>cm_mem_cell_data := Some ([1, 2, 3, 4], replicate 32 7)\<rparr>) =
      Some ([1, 2, 3, 4], replicate 32 7)" by (simp add: load_cell_data_def)
  obtain v where v: "scripts_verifier_new ext_word (load_cell_data ext_word store_empty) example_pay_rtx = Ok v"
      and d: "sv_binaries_by_data_hash v = [replicate 32 7 \<mapsto> [1, 2, 3, 4]]"
    by (auto simp: scripts_verifier_new_def example_pay_rtx_def add_binary_def load Let_def)
  have l: "sv_lock_groups v = [(calc_script_hash ext_word example_lock,
      \<lparr>sg_script = example_lock, sg_input_indices = [0], sg_output_indices = []\<rparr>)]"
    unfolding new_groups(2) [OF v]
    by (simp add: example_pay_rtx_def build_lock_groups_def calc_lock_hash_def push_input_def script_group_new_def)
  have t: "sv_type_groups v = []"
    unfolding new_groups(3) [OF v] example_pay_sel
    by (simp add: example_pay_rtx_def build_type_groups_def type_entry_def)
  show ?thesis
    by (simp add: tx_scripts_verify_def v verify_scripts_def l t verify_group_cycles_def verify_script_group_def example_lock_def
        run_group_def extract_script_def d example_vm_def transferred_byte_cycles_def BYTES_PER_CYCLE_def
        p_add_def checked_add_def p_sub_def checked_sub_def p_div_def checked_div_def)
qed

lemma example_pay_fee: "fee_calculator_fee ext_word C s example_pay_rtx = Ok 1000000000"
proof -
  have m: "input_maximum_withdraw ext_word C s example_pay_rtx 0 (hd (rtx_inputs example_pay_rtx)) = Ok 10000000000"
    using input_withdraw_plain [of C "hd (rtx_inputs example_pay_rtx)"] example_pay_metas(3)
    by (simp add: example_pay_rtx_def cm_capacity_def)
  have "transaction_maximum_withdraw ext_word C s example_pay_rtx = Ok 10000000000"
    using m by (simp add: transaction_maximum_withdraw_def example_pay_rtx_def safe_add_def checked_add_def)
  then show ?thesis
    by (simp add: fee_calculator_fee_def example_pay_metas transaction_fee_def outputs_capacity_def example_pay_sel
        total_capacity_def safe_add_def checked_add_def safe_sub_def checked_sub_def)
qed

lemma example_pay_capacity: "capacity_verify (c_dao_type_hash example_consensus) example_pay_rtx = Ok ()"
proof -
  have d: "valid_dao_withdraw_transaction (c_dao_type_hash example_consensus) example_pay_rtx = Ok False"
    using dao_input_iff example_pay_metas(3) by blast
  have "rtx_inputs_capacity example_pay_rtx = Ok 10000000000"
    by (simp add: rtx_inputs_capacity_def example_pay_rtx_def cm_capacity_def safe_add_def checked_add_def)
  moreover have "rtx_outputs_capacity example_pay_rtx = Ok 9000000000"
    by (simp add: rtx_outputs_capacity_def outputs_capacity_def total_capacity_def example_pay_sel safe_add_def checked_add_def)
  moreover have "is_lack_of_capacity \<lparr>co_capacity = 9000000000, co_lock = example_lock, co_type = None\<rparr> 0 = Ok False"
    by (simp add: is_lack_of_capacity_def cell_occupied_capacity_def script_occupied_capacity_def capacity_bytes_def
        checked_mul_def BYTE_SHANNONS_def safe_add_def checked_add_def example_lock_def)
  ultimately show ?thesis
    by (simp add: capacity_verify_def d example_pay_metas outputs_with_data_def example_pay_sel capacity_bytes_def
        checked_mul_def BYTE_SHANNONS_def)
qed

lemma example_pay_verifies:
  "verify_transaction ext_word example_vm (map snd) lru_list (example_consensus\<lparr>c_max_block_bytes := - 1\<rparr>) store_empty tp cnt
     example_since example_pay_rtx 1000 = Ok \<lparr>ce_cycles = 501, ce_fee = 1000000000\<rparr>"
proof -
  have mat: "maturity_verify ext_word example_pay_rtx (sn_epoch example_since) (c_cellbase_maturity example_consensus) = Ok ()"
    by (subst maturity_verify_Ok [OF ext_word_numext_ok])
      (auto simp: example_epochs example_pay_metas, simp_all add: example_pay_rtx_def example_locked_cell_def example_code_cell_def)
  have since: "since_verify ext_word lru_list tp cnt example_since example_pay_rtx = Ok ()"
    by (subst since_verify_Ok [OF ext_word_numext_ok lru_list_ok])
      (auto simp: example_epochs example_pay_metas example_pay_sel since_satisfied_def cell_input_new_def dest: set_zip_rightD)
  have "c_tx_version example_consensus = 0" "\<not> tx_is_cellbase (rtx_transaction example_pay_rtx)"
    by (simp_all add: example_consensus_def example_pay_rtx_def example_pay_def tx_is_cellbase_def example_spend_def
        example_point_def out_point_is_null_def byte32_is_zero_def cell_input_new_def list_all_iff)
  then show ?thesis
    by (simp add: verify_transaction_def tx_version_verify_def size_verify_def empty_verify_def mat since example_pay_capacity
        duplicate_deps_verify_def outputs_data_verify_def example_pay_sel example_pay_scripts example_pay_fee)
qed

section \<open>Properties\<close>

text \<open>
  C11. What a verified transaction satisfies: it has the version and at most the size of the
  consensus, at least one input, no repeated dependency and data for every output; every output
  holds the capacity it occupies; cells of a cellbase are used only after the maturity; every
  \<open>since\<close> lock is satisfied on exact numbers; the cycles are at most the limit.
\<close>

theorem verified_transaction_rules:
  assumes "verify_transaction X M ord L C s tp cnt sn rtx mx = Ok en"
    and "numext_ok X" and "lru_ok L" and "ef_length (sn_epoch sn) \<noteq> 0" and "ef_length (c_cellbase_maturity C) \<noteq> 0"
    and "epochs_ok (rtx_inputs rtx @ rtx_cell_deps rtx)"
  shows "tx_version (rtx_transaction rtx) = c_tx_version C \<and>
     (of_nat (serialized_size_in_block X (rtx_transaction rtx)) :: u64) \<le> c_max_block_bytes C \<and> tx_inputs (rtx_transaction rtx) \<noteq> [] \<and>
     distinct (tx_cell_deps (rtx_transaction rtx)) \<and> distinct (tx_header_deps (rtx_transaction rtx)) \<and>
     length (tx_outputs_data (rtx_transaction rtx)) = length (tx_outputs (rtx_transaction rtx)) \<and>
     (\<forall>(out, d)\<in>set (outputs_with_data (rtx_transaction rtx)). \<exists>bytes occupied. capacity_bytes (length d) = Ok bytes \<and>
        cell_occupied_capacity out bytes = Ok occupied \<and> occupied \<le> co_capacity out) \<and>
     (\<forall>m\<in>set (rtx_inputs rtx @ rtx_cell_deps rtx). \<forall>info. cm_transaction_info m = Some info \<longrightarrow> ti_block_number info \<noteq> 0 \<longrightarrow>
        ti_is_cellbase info \<longrightarrow> ef_val (c_cellbase_maturity C) + ef_val (ti_block_epoch info) \<le> ef_val (sn_epoch sn)) \<and>
     (\<forall>(m, i)\<in>set (zip (rtx_inputs rtx) (tx_inputs (rtx_transaction rtx))). since_satisfied tp cnt sn (ci_since i) m) \<and>
     ce_cycles en \<le> mx"
proof -
  note p = verify_transaction_parts [OF assms(1)]
  obtain v where v: "verify_scripts X M ord v mx = Ok (ce_cycles en)"
    using p(9) by (auto simp: tx_scripts_verify_def tryq_eq_Ok)
  have "ce_cycles en \<le> mx" using verify_scripts_limit [OF v] .
  moreover have "epochs_ok (rtx_inputs rtx)" using assms(6) unfolding epochs_ok_def by auto
  ultimately show ?thesis
    using p(1,2,3,6,7) capacity_verify_Ok(1) [OF p(5)] p(4)
      maturity_verify_Ok [OF assms(2,4,5,6)] since_verify_Ok [OF assms(2,3,4), of rtx tp cnt] p(8)
    unfolding tx_version_verify_def size_verify_def empty_verify_def duplicate_deps_verify_def outputs_data_verify_def
    by (intro conjI) (auto split: if_splits)
qed

theorem verified_transaction_rules_witness:
  "since_satisfied (\<lambda>_. Panic) 37 example_since (ci_since (hd (tx_inputs (rtx_transaction example_pay_rtx))))
     (hd (rtx_inputs example_pay_rtx)) \<and>
   (\<exists>bytes occupied. capacity_bytes (length ([] :: u8 list)) = Ok bytes \<and>
      cell_occupied_capacity (hd (tx_outputs (rtx_transaction example_pay_rtx))) bytes = Ok occupied \<and> occupied \<le> 9000000000) \<and>
   distinct (tx_cell_deps (rtx_transaction example_pay_rtx))"
proof -
  have e: "ef_length (sn_epoch example_since) \<noteq> 0"
      "ef_length (c_cellbase_maturity (example_consensus\<lparr>c_max_block_bytes := - 1\<rparr>)) \<noteq> 0"
    by (simp_all add: example_epochs)
  note rules = verified_transaction_rules [OF example_pay_verifies ext_word_numext_ok lru_list_ok e example_pay_metas(1)]
  have "(hd (rtx_inputs example_pay_rtx), hd (tx_inputs (rtx_transaction example_pay_rtx))) \<in>
      set (zip (rtx_inputs example_pay_rtx) (tx_inputs (rtx_transaction example_pay_rtx)))"
    by (simp add: example_pay_sel) (simp add: example_pay_rtx_def)
  moreover have "outputs_with_data (rtx_transaction example_pay_rtx) =
      [(\<lparr>co_capacity = 9000000000, co_lock = example_lock, co_type = None\<rparr>, [])]"
    by (simp add: outputs_with_data_def example_pay_sel)
  ultimately show ?thesis using rules [where tp = "\<lambda>_. Panic" and cnt = 37] by (auto simp: example_pay_sel(2))
qed

text \<open>
  C5. Value is conserved: the inputs of a verified transaction without NervosDAO withdrawal hold
  exactly the capacity of its outputs plus its fee.
\<close>

theorem transaction_value_conserved:
  assumes "verify_transaction X M ord L C s tp cnt sn rtx mx = Ok en"
    and "\<not> rtx_is_cellbase rtx" and "\<forall>m\<in>set (rtx_inputs rtx). not_dao C m"
  shows "sum_list (map (\<lambda>m. unat (cm_capacity m)) (rtx_inputs rtx)) =
     sum_list (map (\<lambda>out. unat (co_capacity out)) (tx_outputs (rtx_transaction rtx))) + unat (ce_fee en)"
proof -
  have "transaction_fee X C s rtx = Ok (ce_fee en)"
    using verify_transaction_parts(10) [OF assms(1)] assms(2) by (simp add: fee_calculator_fee_def)
  from fee_parts [OF this] show ?thesis using plain_inputs_withdraw assms(3) by fastforce
qed

theorem transaction_value_conserved_witness:
  "sum_list (map (\<lambda>m. unat (cm_capacity m)) (rtx_inputs example_pay_rtx)) =
     sum_list (map (\<lambda>out. unat (co_capacity out)) (tx_outputs (rtx_transaction example_pay_rtx))) + unat (1000000000 :: u64)"
  using transaction_value_conserved [OF example_pay_verifies example_pay_metas(4,3)] by simp

text \<open>
  C19. The locks are checked exactly, and the cache of median times changes nothing: with any
  cache that never invents an entry, the check passes if and only if every \<open>since\<close> value is
  satisfied on exact numbers.
\<close>

theorem since_verify_exact:
  assumes "numext_ok N" and "lru_ok L" and "ef_length (sn_epoch sn) \<noteq> 0" and "epochs_ok (rtx_inputs rtx)"
  shows "since_verify N L tp cnt sn rtx = Ok () \<longleftrightarrow>
     (\<forall>(m, i)\<in>set (zip (rtx_inputs rtx) (tx_inputs (rtx_transaction rtx))). since_satisfied tp cnt sn (ci_since i) m)"
  by (rule since_verify_Ok [OF assms])

theorem since_verify_exact_witness:
  "since_verify ext_word lru_list (\<lambda>_. Panic) 37 example_since example_pay_rtx = Ok ()"
  by (subst since_verify_exact [OF ext_word_numext_ok lru_list_ok])
    (auto simp: example_epochs example_pay_metas example_pay_sel since_satisfied_def cell_input_new_def dest: set_zip_rightD)

text \<open>
  C39. A lock can crash the verifier: a \<open>since\<close> value with valid flags that asks for an absolute
  time of more than 18446744073709551 seconds overflows the conversion to milliseconds.
\<close>

theorem since_timestamp_panics:
  assumes "flags_is_valid since" and "is_absolute since" and "and since METRIC_TYPE_FLAG_MASK = 0x4000000000000000"
    and "18446744073709551 < unat (and since VALUE_MASK)"
  shows "verify_input_since N L tp cnt sn c (m, \<lparr>ci_since = since, ci_previous_output = p\<rparr>) = Panic"
proof -
  have "since \<noteq> 0" using assms(3) by auto
  then show ?thesis using assms by (simp add: verify_input_since_def verify_absolute_lock_def extract_metric_simps)
qed

theorem since_timestamp_panics_witness:
  "verify_input_since ext_word lru_list (\<lambda>_. Panic) 37 example_since (3, []) (example_locked_cell,
     \<lparr>ci_since = 0x40ffffffffffffff, ci_previous_output = example_point\<rparr>) = Panic"
  by (rule since_timestamp_panics)
    (simp_all add: flags_is_valid_def REMAIN_FLAGS_BITS_def METRIC_TYPE_FLAG_MASK_def is_absolute_def LOCK_TYPE_FLAG_def
      VALUE_MASK_def)

end
