(* ===== verification/Uncles_Verifier.thy ===== *)
theory Uncles_Verifier
  imports Store Pow
begin

text \<open>
  The rules of the uncles of a block (\<open>verification/src/uncles_verifier.rs\<close>). The trait
  \<open>UncleProvider\<close> is the record \<open>uncle_provider\<close>; what the rules need of it is the locale
  \<open>uncle_source\<close>, which \<open>UncleVerifierContext\<close> of
  \<open>verification/src/contextual_block_verifier.rs\<close> over the chain store interprets.
\<close>

section \<open>The provider\<close>

record uncle_provider =
  up_double_inclusion :: "byte32 \<Rightarrow> bool"
  up_epoch :: epoch_ext
  up_descendant :: "header_view \<Rightarrow> bool result"

definition ctx_double_inclusion :: "store \<Rightarrow> byte32 \<Rightarrow> bool" where
  "ctx_double_inclusion s h \<longleftrightarrow> get_block_number s h \<noteq> None \<or> is_uncle s h"

definition ctx_descendant :: "store \<Rightarrow> header_view \<Rightarrow> bool result" where
  "ctx_descendant s uncle =
     (let parent_hash = h_parent_hash uncle; uncle_number = h_number uncle in
      if get_block_number s parent_hash \<noteq> None then
        (case get_block_header s parent_hash of
           Some parent \<Rightarrow> tryq (p_add (h_number parent) 1) (\<lambda>n. Ok (n = uncle_number))
         | None \<Rightarrow> Ok False)
      else
        (case get_uncle_header s parent_hash of
           Some uncle_parent \<Rightarrow> tryq (p_add (h_number uncle_parent) 1) (\<lambda>n. Ok (n = uncle_number))
         | None \<Rightarrow> Ok False))"

definition uncle_context :: "store \<Rightarrow> epoch_ext \<Rightarrow> uncle_provider" where
  "uncle_context s e =
     \<lparr>up_double_inclusion = ctx_double_inclusion s, up_epoch = e, up_descendant = ctx_descendant s\<rparr>"

section \<open>The rules\<close>

definition embedded_descendant :: "(byte32 \<Rightarrow> u64 option) \<Rightarrow> header_view \<Rightarrow> bool result" where
  "embedded_descendant included uncle =
     (case included (h_parent_hash uncle) of
        Some number \<Rightarrow> tryq (p_add number 1) (\<lambda>n. Ok (n = h_number uncle))
      | None \<Rightarrow> Ok False)"

abbreviation uncles_err :: "uncles_error \<Rightarrow> ckb_error" where
  "uncles_err e \<equiv> Block (UnclesError e)"

definition verify_uncle ::
  "'z ext_scheme \<Rightarrow> consensus \<Rightarrow> uncle_provider \<Rightarrow> block_view \<Rightarrow> (byte32 \<Rightarrow> u64 option) \<Rightarrow> uncle_block_view \<Rightarrow>
   (byte32 \<Rightarrow> u64 option) result" where
  "verify_uncle X C P block included uncle =
     (let hv = uv_header uncle in
      if h_compact_target hv \<noteq> ee_compact_target (up_epoch P) then Err (uncles_err InvalidTarget)
      else if ee_number (up_epoch P) \<noteq> ef_number (ef_from_full_value (h_epoch hv)) then Err (uncles_err InvalidDifficultyEpoch)
      else if bv_number block \<le> h_number hv then Err (uncles_err InvalidNumber)
      else
        tryq (embedded_descendant included hv) (\<lambda>embedded.
        tryq (if embedded then Ok True else up_descendant P hv) (\<lambda>descendant.
        if \<not> descendant then Err (uncles_err DescendantLimit)
        else if included (h_hash hv) \<noteq> None then Err (uncles_err (Duplicate (h_hash hv)))
        else if up_double_inclusion P (h_hash hv) then Err (uncles_err (DoubleInclusion (h_hash hv)))
        else if unat (c_max_block_proposals_limit C) < length (ub_proposals uncle)
          then Err (uncles_err UncleExceededMaximumProposalsLimit)
        else if h_proposals_hash hv \<noteq> uncle_calc_proposals_hash X uncle then Err (uncles_err ProposalsHash)
        else if \<not> all_insert {} (ub_proposals uncle) then Err (uncles_err ProposalDuplicate)
        else
          tryq (expect (pow_engine_verify X (c_pow C) (ub_header uncle))) (\<lambda>ok.
          if \<not> ok then Err (Header (PowError InvalidNonce))
          else Ok (included(h_hash hv \<mapsto> h_number hv))))))"

definition verify_uncles :: "'z ext_scheme \<Rightarrow> consensus \<Rightarrow> uncle_provider \<Rightarrow> block_view \<Rightarrow> unit result" where
  "verify_uncles X C P block =
     (let uncles_count = of_nat (length (b_uncles block)) :: u32;
          actual_uncles_hash = block_calc_uncles_hash X block;
          uncles_hash = h_uncles_hash (b_header block);
          max_uncles_num = of_nat (c_max_uncles_num C) :: u32
      in if actual_uncles_hash \<noteq> uncles_hash then Err (uncles_err (InvalidHash uncles_hash actual_uncles_hash))
         else if uncles_count = 0 then Ok ()
         else if bv_is_genesis block then Err (uncles_err (OverCount 0 uncles_count))
         else if max_uncles_num < uncles_count then Err (uncles_err (OverCount max_uncles_num uncles_count))
         else map_ok (\<lambda>_. ()) (try_fold (verify_uncle X C P block) Map.empty (bv_uncles block)))"

section \<open>What the rules need of the provider\<close>

text \<open>An uncle builds on a known block or on an uncle before it in the list.\<close>

definition builds_on :: "(byte32 \<Rightarrow> u64 \<Rightarrow> bool) \<Rightarrow> uncle_block_view list \<Rightarrow> uncle_block_view \<Rightarrow> bool" where
  "builds_on knows before u \<longleftrightarrow> (\<exists>n. unat (h_number (uv_header u)) = unat n + 1 \<and>
     (knows (h_parent_hash (uv_header u)) n \<or>
      (\<exists>v\<in>set before. h_hash (uv_header v) = h_parent_hash (uv_header u) \<and> h_number (uv_header v) = n)))"

text \<open>The law: a descendant has a parent that the provider knows, one below it.\<close>

locale uncle_source =
  fixes P :: uncle_provider and knows :: "byte32 \<Rightarrow> u64 \<Rightarrow> bool"
  assumes descendant_known:
    "up_descendant P hv = Ok True \<Longrightarrow> \<exists>n. knows (h_parent_hash hv) n \<and> unat (h_number hv) = unat n + 1"
begin

lemma verify_uncle_Ok:
  assumes "verify_uncle X C P block included u = Ok included'"
  shows "included' = included(h_hash (uv_header u) \<mapsto> h_number (uv_header u))" and "included (h_hash (uv_header u)) = None"
    and "h_compact_target (uv_header u) = ee_compact_target (up_epoch P)"
    and "ef_number (ef_from_full_value (h_epoch (uv_header u))) = ee_number (up_epoch P)"
    and "h_number (uv_header u) < bv_number block"
    and "\<exists>n. (included (h_parent_hash (uv_header u)) = Some n \<or> knows (h_parent_hash (uv_header u)) n) \<and>
           unat (h_number (uv_header u)) = unat n + 1"
    and "\<not> up_double_inclusion P (h_hash (uv_header u))"
    and "pow_engine_verify X (c_pow C) (ub_header u) = Some True"
    and "distinct (ub_proposals u)" and "length (ub_proposals u) \<le> unat (c_max_block_proposals_limit C)"
    and "h_proposals_hash (uv_header u) = uncle_calc_proposals_hash X u"
proof -
  let ?hv = "uv_header u"
  obtain b where b: "embedded_descendant included ?hv = Ok b" "(if b then Ok True else up_descendant P ?hv) = Ok True"
    using assms by (auto simp: verify_uncle_def Let_def tryq_eq_Ok split: if_splits)
  show "\<exists>n. (included (h_parent_hash ?hv) = Some n \<or> knows (h_parent_hash ?hv) n) \<and> unat (h_number ?hv) = unat n + 1"
  proof (cases b)
    case True
    then obtain n where "included (h_parent_hash ?hv) = Some n" "p_add n 1 = (Ok (h_number ?hv) :: u64 result)"
      using b(1) by (auto simp: embedded_descendant_def tryq_eq_Ok split: option.splits)
    then show ?thesis by (auto simp: panic_simps)
  qed (use b(2) descendant_known in auto)
qed (use assms in \<open>auto simp: verify_uncle_def Let_def outcome_simps split: if_splits\<close>)

lemma verify_uncle_fold:
  assumes "try_fold (verify_uncle X C P block) Map.empty us = Ok included"
  shows "distinct (map (\<lambda>u. h_hash (uv_header u)) us) \<and>
     (\<forall>h n. included h = Some n \<longrightarrow> (\<exists>u\<in>set us. h_hash (uv_header u) = h \<and> h_number (uv_header u) = n)) \<and>
     (\<forall>u\<in>set us. included (h_hash (uv_header u)) \<noteq> None) \<and>
     (\<forall>i < length us. builds_on knows (take i us) (us ! i))"
  using assms
proof (induction us arbitrary: included rule: rev_induct)
  case (snoc u us)
  obtain inc where inc: "try_fold (verify_uncle X C P block) Map.empty us = Ok inc" "verify_uncle X C P block inc u = Ok included"
    using snoc.prems by (auto simp: try_fold_append tryq_eq_Ok)
  note ih = snoc.IH [OF inc(1)] and v = verify_uncle_Ok [OF inc(2)]
  have fresh: "h_hash (uv_header u) \<notin> (\<lambda>u. h_hash (uv_header u)) ` set us" using ih v(2) by auto
  have last: "builds_on knows us u" unfolding builds_on_def using v(6) ih by blast
  have "\<forall>i < length (us @ [u]). builds_on knows (take i (us @ [u])) ((us @ [u]) ! i)"
    using ih last by (auto simp: nth_append less_Suc_eq)
  moreover have "\<forall>h n. included h = Some n \<longrightarrow> (\<exists>u\<in>set (us @ [u]). h_hash (uv_header u) = h \<and> h_number (uv_header u) = n)"
    using ih v(1) by (auto split: if_splits)
  ultimately show ?case using ih v(1) fresh by auto
qed simp

lemma verify_uncle_each:
  assumes "try_fold (verify_uncle X C P block) inc us = Ok included" and "u \<in> set us"
  shows "\<exists>i1 i2. verify_uncle X C P block i1 u = Ok i2"
  using assms by (induction us arbitrary: inc) (auto simp: tryq_eq_Ok)

end

text \<open>The blocks that the store knows: the main chain and the uncles of its blocks.\<close>

definition known_block :: "store \<Rightarrow> byte32 \<Rightarrow> u64 \<Rightarrow> bool" where
  "known_block s h n \<longleftrightarrow>
     (if is_main_chain s h then \<exists>hv. get_block_header s h = Some hv \<and> h_number hv = n
      else \<exists>hv. get_uncle_header s h = Some hv \<and> h_number hv = n)"

interpretation chain_uncles: uncle_source "uncle_context s e" "known_block s" for s e
  by unfold_locales
    (auto simp: uncle_context_def ctx_descendant_def Let_def known_block_def is_main_chain_def get_block_number_def
      tryq_eq_Ok panic_simps split: if_splits option.splits)

section \<open>An example\<close>

definition example_uncle :: uncle_block where
  "example_uncle = \<lparr>ub_header = example_header\<lparr>h_number := 6\<rparr>, ub_proposals = []\<rparr>"

definition example_nephew :: block_view where
  "example_nephew = block.extend
     \<lparr>b_header = example_header\<lparr>h_uncles_hash := calc_uncle_vec_hash ext_word [example_uncle]\<rparr>, b_uncles = [example_uncle],
      b_transactions = [], b_proposals = []\<rparr>
     \<lparr>bv_hash = replicate 32 5, bv_uncle_hashes = [replicate 32 6], bv_tx_hashes = [], bv_tx_witness_hashes = []\<rparr>"

definition example_uncle_store :: store where
  "example_uncle_store = store_empty\<lparr>st_index_number := [byte32_zero \<mapsto> 5],
     st_header := [byte32_zero \<mapsto> header_view_of (example_header\<lparr>h_number := 5\<rparr>) byte32_zero]\<rparr>"

lemma example_nephew_verifies:
  "verify_uncles ext_word (example_consensus\<lparr>c_pow := Dummy\<rparr>)
     (uncle_context example_uncle_store (example_epoch\<lparr>ee_number := 0, ee_compact_target := 0x20010000\<rparr>)) example_nephew = Ok ()"
proof -
  have u: "bv_uncles example_nephew = [uncle_view_of example_uncle (replicate 32 6)]"
    by (simp add: bv_uncles_def example_nephew_def block.defs)
  have "ef_length 0 = 0" "ef_number 0 = 0" by (simp_all add: ef_length_def ef_number_def)
  then have n: "ef_number (ef_from_full_value 0) = 0" by (simp add: ef_from_full_value_def ef_fields_new)
  have b: "b_uncles example_nephew = [example_uncle]" "h_uncles_hash (b_header example_nephew) = calc_uncle_vec_hash ext_word [example_uncle]"
      "bv_number example_nephew = 7" "\<not> bv_is_genesis example_nephew"
    by (simp_all add: example_nephew_def block.defs bv_number_def bv_is_genesis_def example_header_def)
  have d: "ctx_descendant example_uncle_store (header_view_of (example_header\<lparr>h_number := 6\<rparr>) h) = Ok True" for h
    by (simp add: ctx_descendant_def example_uncle_store_def get_block_number_def get_block_header_def Let_def
        p_add_def checked_add_def example_header_def)
  define v where "v = uncle_view_of example_uncle (replicate 32 6)"
  define hv where "hv = header_view_of (example_header\<lparr>h_number := 6\<rparr>) (replicate 32 6)"
  have v: "uv_header v = hv" "ub_proposals v = []" by (simp_all add: v_def hv_def uv_header_def example_uncle_def)
  have hv: "h_compact_target hv = 0x20010000" "h_epoch hv = 0" "h_number hv = 6" "h_hash hv = replicate 32 6"
      "h_proposals_hash hv = byte32_zero" by (simp_all add: hv_def example_header_def)
  have "\<not> ctx_double_inclusion example_uncle_store (replicate 32 6)"
    by (simp add: ctx_double_inclusion_def example_uncle_store_def get_block_number_def is_uncle_def store_empty_def byte32_zero_def)
  then have "verify_uncle ext_word (example_consensus\<lparr>c_pow := Dummy\<rparr>)
      (uncle_context example_uncle_store (example_epoch\<lparr>ee_number := 0, ee_compact_target := 0x20010000\<rparr>)) example_nephew Map.empty
      v = Ok [replicate 32 6 \<mapsto> 6]"
    using d [of "replicate 32 6", folded hv_def]
    by (simp add: verify_uncle_def v hv Let_def uncle_context_def embedded_descendant_def b n
        uncle_calc_proposals_hash_def calc_ids_hash_def pow_engine_verify_def)
  then show ?thesis
    by (simp add: verify_uncles_def Let_def u b block_calc_uncles_hash_def example_consensus_def v_def)
qed

section \<open>Properties\<close>

text \<open>
  C23. What verified uncles satisfy: there are at most the allowed number, no two have the same
  hash, each belongs to the epoch of the block with its difficulty and is below the block, was
  not included before, builds on a block of the main chain, on an included uncle or on an uncle
  before it in the list, has distinct proposals within the limit and a valid proof of work.
\<close>

theorem verified_uncles_rules:
  assumes "verify_uncles X C (uncle_context s e) block = Ok ()" and "b_uncles block \<noteq> []" and "length (b_uncles block) < 2 ^ 32"
  shows "length (b_uncles block) \<le> c_max_uncles_num C \<and>
     distinct (map (\<lambda>u. h_hash (uv_header u)) (bv_uncles block)) \<and>
     (\<forall>i < length (bv_uncles block). builds_on (known_block s) (take i (bv_uncles block)) (bv_uncles block ! i)) \<and>
     (\<forall>u\<in>set (bv_uncles block). h_number (uv_header u) < bv_number block \<and>
        h_compact_target (uv_header u) = ee_compact_target e \<and>
        ef_number (ef_from_full_value (h_epoch (uv_header u))) = ee_number e \<and>
        \<not> is_main_chain s (h_hash (uv_header u)) \<and> \<not> is_uncle s (h_hash (uv_header u)) \<and>
        pow_engine_verify X (c_pow C) (ub_header u) = Some True \<and> distinct (ub_proposals u) \<and>
        length (ub_proposals u) \<le> unat (c_max_block_proposals_limit C) \<and>
        h_proposals_hash (uv_header u) = uncle_calc_proposals_hash X u)"
proof -
  let ?P = "uncle_context s e"
  have len: "unat (of_nat (length (b_uncles block)) :: u32) = length (b_uncles block)" using assms(3) by (rule unat_of_nat_u32)
  then have "(of_nat (length (b_uncles block)) :: u32) \<noteq> 0" using assms(2) by (metis length_0_conv unat_0)
  then obtain inc where le: "(of_nat (length (b_uncles block)) :: u32) \<le> of_nat (c_max_uncles_num C)"
      and fold: "try_fold (verify_uncle X C ?P block) Map.empty (bv_uncles block) = Ok inc"
    using assms(1) by (auto simp: verify_uncles_def Let_def map_ok_eq_Ok not_less split: if_splits)
  have "unat (of_nat n :: u32) \<le> n" for n by (simp add: unat_of_nat)
  then have "length (b_uncles block) \<le> c_max_uncles_num C"
    using le len by (metis le_trans word_le_nat_alt)
  moreover have "h_number (uv_header u) < bv_number block \<and> h_compact_target (uv_header u) = ee_compact_target e \<and>
      ef_number (ef_from_full_value (h_epoch (uv_header u))) = ee_number e \<and>
      \<not> is_main_chain s (h_hash (uv_header u)) \<and> \<not> is_uncle s (h_hash (uv_header u)) \<and>
      pow_engine_verify X (c_pow C) (ub_header u) = Some True \<and> distinct (ub_proposals u) \<and>
      length (ub_proposals u) \<le> unat (c_max_block_proposals_limit C) \<and>
      h_proposals_hash (uv_header u) = uncle_calc_proposals_hash X u" if u: "u \<in> set (bv_uncles block)" for u
  proof -
    obtain i1 i2 where "verify_uncle X C ?P block i1 u = Ok i2" using chain_uncles.verify_uncle_each [OF fold u] by blast
    note v = chain_uncles.verify_uncle_Ok [OF this]
    have "up_epoch ?P = e" "up_double_inclusion ?P = ctx_double_inclusion s" by (simp_all add: uncle_context_def)
    then show ?thesis
      using v(3-5,7-11) by (simp add: ctx_double_inclusion_def is_main_chain_def get_block_number_def)
  qed
  ultimately show ?thesis using chain_uncles.verify_uncle_fold [OF fold] by blast
qed

theorem verified_uncles_rules_witness:
  "builds_on (known_block example_uncle_store) [] (hd (bv_uncles example_nephew))"
proof -
  have "b_uncles example_nephew = [example_uncle]" "length (bv_uncles example_nephew) = 1"
    by (simp_all add: bv_uncles_def example_nephew_def block.defs)
  then have "builds_on (known_block example_uncle_store) (take 0 (bv_uncles example_nephew)) (bv_uncles example_nephew ! 0)"
    using verified_uncles_rules [OF example_nephew_verifies] by simp
  then show ?thesis using \<open>length (bv_uncles example_nephew) = 1\<close> by (simp add: hd_conv_nth length_0_conv [symmetric] del: length_0_conv)
qed

end
