(* ===== verification/Reward.thy ===== *)
theory Reward
  imports Dao
begin

text \<open>
  The reward calculator (\<open>util/reward-calculator/src/lib.rs\<close>): the fees, proposal reward and base
  rewards that the block after the proposal window pays for a target block. The loop of
  \<open>proposal_reward\<close> follows parent hashes, so it has fuel; \<open>None\<close> is a loop that did not end.
\<close>

section \<open>Computations that may not end\<close>

fun tryo :: "('a, 'e) outcome option \<Rightarrow> ('a \<Rightarrow> ('b, 'e) outcome option) \<Rightarrow> ('b, 'e) outcome option" where
  "tryo None f = None"
| "tryo (Some (Ok x)) f = f x"
| "tryo (Some (Err e)) f = Some (Err e)"
| "tryo (Some Panic) f = Some Panic"

lemma tryo_eq_Ok [outcome_simps]: "tryo m f = Some (Ok y) \<longleftrightarrow> (\<exists>x. m = Some (Ok x) \<and> f x = Some (Ok y))"
  by (induction m f rule: tryo.induct) auto

section \<open>Fees\<close>

record block_reward =
  br_total :: capacity
  br_primary :: capacity
  br_secondary :: capacity
  br_tx_fee :: capacity
  br_proposal_reward :: capacity

definition txs_fees :: "consensus \<Rightarrow> store \<Rightarrow> header_view \<Rightarrow> capacity result" where
  "txs_fees C s target =
     tryq (expect (get_block_ext s (h_hash target))) (\<lambda>target_ext.
     cap_result (try_fold (\<lambda>acc tx_fee.
       tryq (safe_mul_ratio tx_fee (c_proposer_reward_ratio C)) (\<lambda>proposer.
       tryq (safe_sub tx_fee proposer) (\<lambda>miner. safe_add acc miner))) 0 (ext_txs_fees target_ext)))"

section \<open>Proposals\<close>

definition get_proposal_ids_by_hash :: "store \<Rightarrow> byte32 \<Rightarrow> proposal_short_id set" where
  "get_proposal_ids_by_hash s h =
     (case get_block_proposal_txs_ids s h of None \<Rightarrow> {} | Some ids \<Rightarrow> set ids) \<union>
     (case get_block_uncles s h of None \<Rightarrow> {} | Some us \<Rightarrow> \<Union>u\<in>set (fst us). set (ub_proposals u))"

definition committed_ids :: "store \<Rightarrow> byte32 \<Rightarrow> proposal_short_id list" where
  "committed_ids s h = map proposal_short_id_from_tx_hash (drop 1 (get_block_txs_hashes s h))"

text \<open>One committed transaction: the id leaves the open proposals, and is paid unless proposed before.\<close>

definition pay_entry ::
  "ratio \<Rightarrow> proposal_short_id set \<Rightarrow> proposal_short_id set \<times> capacity \<Rightarrow> proposal_short_id \<times> capacity \<Rightarrow>
   (proposal_short_id set \<times> capacity) result" where
  "pay_entry proposer_ratio proposed = (\<lambda>(target_proposals, reward) (id, tx_fee).
     if id \<in> target_proposals then
       if id \<notin> proposed then
         tryq (cap_result (tryq (safe_mul_ratio tx_fee proposer_ratio) (safe_add reward))) (\<lambda>reward.
         Ok (target_proposals - {id}, reward))
       else Ok (target_proposals - {id}, reward)
     else Ok (target_proposals, reward))"

definition pay_committed ::
  "consensus \<Rightarrow> store \<Rightarrow> proposal_short_id set \<Rightarrow> proposal_short_id set \<times> capacity \<Rightarrow> byte32 \<Rightarrow>
   (proposal_short_id set \<times> capacity) result" where
  "pay_committed C s proposed st h =
     (let committed_idx = committed_ids s h in
      if fst st \<inter> set committed_idx \<noteq> {} then
        tryq (expect (get_block_ext s h)) (\<lambda>e.
        try_fold (pay_entry (c_proposer_reward_ratio C) proposed) st (zip committed_idx (ext_txs_fees e)))
      else Ok st)"

fun reward_loop ::
  "nat \<Rightarrow> consensus \<Rightarrow> store \<Rightarrow> u64 \<Rightarrow> header_view \<Rightarrow> proposal_short_id set \<Rightarrow> proposal_short_id set \<times> capacity \<Rightarrow>
   capacity result option" where
  "reward_loop fuel C s competing_commit_start index proposed st =
     (if competing_commit_start < h_number index then
        (case fuel of
           0 \<Rightarrow> None
         | Suc fuel \<Rightarrow>
             tryo (Some (expect (get_block_header s (h_parent_hash index)))) (\<lambda>index.
             let competing_proposal_start =
                   max (saturating_sub (h_number index) (farthest (c_tx_proposal_window C))) 1 in
             tryo (Some (expect (get_block_hash s competing_proposal_start))) (\<lambda>h.
             let proposed = proposed \<union> get_proposal_ids_by_hash s h in
             tryo (Some (pay_committed C s proposed st (h_hash index))) (\<lambda>st.
             reward_loop fuel C s competing_commit_start index proposed st))))
      else Some (Ok (snd st)))"

definition proposal_reward :: "nat \<Rightarrow> consensus \<Rightarrow> store \<Rightarrow> header_view \<Rightarrow> header_view \<Rightarrow> capacity result option" where
  "proposal_reward fuel C s parent target =
     (let target_proposals = get_proposal_ids_by_hash s (h_hash target);
          proposal_window = c_tx_proposal_window C
      in tryo (Some (p_add (h_number parent) 1)) (\<lambda>block_number.
         tryo (Some (pw_length proposal_window)) (\<lambda>len.
         tryo (Some (p_add 1 (closest proposal_window))) (\<lambda>first_commit.
         let competing_commit_start = max (saturating_sub block_number len) first_commit in
         tryo (Some (pay_committed C s {} (target_proposals, 0) (h_hash parent))) (\<lambda>st.
         reward_loop fuel C s competing_commit_start parent {} st)))))"

section \<open>The reward of a block\<close>

definition reward_base_block_reward :: "consensus \<Rightarrow> store \<Rightarrow> header_view \<Rightarrow> (capacity \<times> capacity) result" where
  "reward_base_block_reward C s target =
     tryq (primary_block_reward s target) (\<lambda>primary.
     tryq (secondary_block_reward C s target) (\<lambda>secondary. Ok (primary, secondary)))"

definition target_lock :: "'z ext_scheme \<Rightarrow> store \<Rightarrow> header_view \<Rightarrow> script result" where
  "target_lock X s target =
     tryq (expect (get_cellbase s (h_hash target))) (\<lambda>cellbase.
     tryq (expect (vec_get (tx_witnesses cellbase) 0)) (\<lambda>w.
     case from_slice (cellbase_witness_verify X) (cellbase_witness_read X) w of
       Ok cw \<Rightarrow> Ok (cw_lock cw)
     | _ \<Rightarrow> Panic))"

definition block_reward_internal ::
  "nat \<Rightarrow> 'z ext_scheme \<Rightarrow> consensus \<Rightarrow> store \<Rightarrow> header_view \<Rightarrow> header_view \<Rightarrow> (script \<times> block_reward) result option" where
  "block_reward_internal fuel X C s target parent =
     tryo (Some (target_lock X s target)) (\<lambda>lock.
     tryo (Some (txs_fees C s target)) (\<lambda>fees.
     tryo (proposal_reward fuel C s parent target) (\<lambda>proposal.
     tryo (Some (reward_base_block_reward C s target)) (\<lambda>(primary, secondary).
     tryo (Some (cap_result (tryq (tryq (safe_add fees proposal) (\<lambda>x. safe_add x primary)) (\<lambda>x. safe_add x secondary))))
       (\<lambda>total.
     Some (Ok (lock, \<lparr>br_total = total, br_primary = primary, br_secondary = secondary, br_tx_fee = fees,
       br_proposal_reward = proposal\<rparr>)))))))"

definition block_reward_to_finalize ::
  "nat \<Rightarrow> 'z ext_scheme \<Rightarrow> consensus \<Rightarrow> store \<Rightarrow> header_view \<Rightarrow> (script \<times> block_reward) result option" where
  "block_reward_to_finalize fuel X C s parent =
     tryo (Some (p_add (h_number parent) 1)) (\<lambda>block_number.
     tryo (Some (tryq (finalize_target C block_number) expect)) (\<lambda>target_number.
     tryo (Some (expect (Option.bind (get_block_hash s target_number) (get_block_header s)))) (\<lambda>target.
     block_reward_internal fuel X C s target parent)))"

definition block_reward_for_target ::
  "nat \<Rightarrow> 'z ext_scheme \<Rightarrow> consensus \<Rightarrow> store \<Rightarrow> header_view \<Rightarrow> (script \<times> block_reward) result option" where
  "block_reward_for_target fuel X C s target =
     tryo (Some (tryq (finalization_delay_length C) (\<lambda>d. tryq (p_add (h_number target) d) (\<lambda>x. p_sub x 1)))) (\<lambda>n.
     tryo (Some (expect (Option.bind (get_block_hash s n) (get_block_header s)))) (\<lambda>parent.
     block_reward_internal fuel X C s target parent))"

lemmas reward_loop_unfold = reward_loop.simps
declare reward_loop.simps [simp del]

section \<open>The main chain\<close>

text \<open>Every number of the index has a stored header of that number, whose parent is below it in the index.\<close>

definition index_linked :: "store \<Rightarrow> bool" where
  "index_linked s \<longleftrightarrow> (\<forall>n h. get_block_hash s n = Some h \<longrightarrow>
     (\<exists>hv. get_block_header s h = Some hv \<and> h_number hv = n \<and> h_hash hv = h \<and>
        (n \<noteq> 0 \<longrightarrow> get_block_hash s (n - 1) = Some (h_parent_hash hv))))"

definition on_index :: "store \<Rightarrow> header_view \<Rightarrow> bool" where
  "on_index s hv \<longleftrightarrow> get_block_hash s (h_number hv) = Some (h_hash hv) \<and> get_block_header s (h_hash hv) = Some hv"

lemma unat_pred: "n \<noteq> 0 \<Longrightarrow> unat n = Suc (unat (n - 1 :: u64))"
  using unat_sub_exact [of 1 n] by (simp add: unat_gt_0 word_le_nat_alt Suc_le_eq)

lemma index_parent:
  assumes "index_linked s" and "on_index s hv" and "h_number hv \<noteq> 0"
  shows "\<exists>pv. get_block_header s (h_parent_hash hv) = Some pv \<and> on_index s pv \<and>
     unat (h_number hv) = Suc (unat (h_number pv)) \<and> h_number pv = h_number hv - 1"
proof -
  have "get_block_hash s (h_number hv - 1) = Some (h_parent_hash hv)"
    using assms unfolding index_linked_def on_index_def by fastforce
  then obtain pv where "get_block_header s (h_parent_hash hv) = Some pv" "h_number pv = h_number hv - 1" "h_hash pv = h_parent_hash hv"
    using assms(1) unfolding index_linked_def by blast
  moreover have "unat (h_number hv) = Suc (unat (h_number hv - 1))"
    using assms(3) by (rule unat_pred)
  ultimately show ?thesis using \<open>get_block_hash s (h_number hv - 1) = Some (h_parent_hash hv)\<close> by (simp add: on_index_def)
qed

lemma index_below:
  assumes "index_linked s" and "get_block_hash s n = Some h" and "m \<le> n"
  shows "\<exists>h'. get_block_hash s m = Some h'"
  using assms(2,3)
proof (induction "unat n" arbitrary: n h)
  case 0
  then show ?case by (simp add: unat_eq_zero word_le_nat_alt)
next
  case (Suc k)
  show ?case
  proof (cases "m = n")
    case False
    have nz: "n \<noteq> 0" using Suc.hyps(2) by auto
    have k: "k = unat (n - 1)" using Suc.hyps(2) unat_pred [OF nz] by simp
    have "get_block_hash s (n - 1) \<noteq> None" using assms(1) Suc.prems(1) nz unfolding index_linked_def by fastforce
    moreover have "unat m \<noteq> unat n" using False unat_eqI by blast
    then have "m \<le> n - 1" using Suc.prems(2) unat_pred [OF nz] by (simp add: word_le_nat_alt)
    ultimately show ?thesis using Suc.hyps(1) [OF k] by blast
  qed (use Suc.prems in auto)
qed

section \<open>The loop ends\<close>

lemma reward_loop_ends:
  assumes "index_linked s" and "on_index s index" and "unat (h_number index) - unat start \<le> n"
  shows "\<exists>r. \<forall>m \<ge> n. reward_loop m C s start index proposed st = Some r"
  using assms(2,3)
proof (induction n arbitrary: index proposed st)
  case 0
  then have "\<not> start < h_number index" by (simp add: word_less_nat_alt)
  then show ?case by (simp add: reward_loop_unfold)
next
  case (Suc n)
  show ?case
  proof (cases "start < h_number index")
    case True
    then have "h_number index \<noteq> 0" by auto
    then obtain pv where pv: "get_block_header s (h_parent_hash index) = Some pv" "on_index s pv"
        "unat (h_number index) = Suc (unat (h_number pv))"
      using index_parent [OF assms(1) Suc.prems(1)] by blast
    let ?cps = "max (saturating_sub (h_number pv) (farthest (c_tx_proposal_window C))) 1"
    let ?p = "\<lambda>h. proposed \<union> get_proposal_ids_by_hash s h"
    have step: "reward_loop (Suc m) C s start index proposed st =
        tryo (Some (expect (get_block_hash s ?cps))) (\<lambda>h. tryo (Some (pay_committed C s (?p h) st (h_hash pv)))
          (\<lambda>st. reward_loop m C s start pv (?p h) st))" for m
      using True pv(1) by (simp add: reward_loop_unfold [of "Suc m"] Let_def)
    have ih: "\<exists>r. \<forall>m \<ge> n. reward_loop m C s start pv pr st = Some r" for pr st
      using Suc.IH [OF pv(2)] Suc.prems(2) pv(3) by simp
    have "\<exists>r. \<forall>m \<ge> n. reward_loop (Suc m) C s start index proposed st = Some r"
    proof (cases "get_block_hash s ?cps")
      case (Some h)
      show ?thesis
      proof (cases "pay_committed C s (?p h) st (h_hash pv)")
        case (Ok st')
        then show ?thesis using ih [of "?p h" st'] Some by (simp add: step)
      qed (use Some in \<open>simp_all add: step\<close>)
    qed (simp add: step)
    then show ?thesis by (metis Suc_le_D Suc_le_mono)
  qed (simp add: reward_loop_unfold)
qed

section \<open>What the loop pays\<close>

definition proposer_share :: "ratio \<Rightarrow> capacity \<Rightarrow> nat" where
  "proposer_share r fee = unat fee * unat (numer r) div unat (denom r)"

text \<open>The shares of the entries with a property.\<close>

definition gain :: "ratio \<Rightarrow> (proposal_short_id \<Rightarrow> bool) \<Rightarrow> (proposal_short_id \<times> capacity) list \<Rightarrow> nat" where
  "gain r P es = sum_list (map (\<lambda>(pid, fee). if P pid then proposer_share r fee else 0) es)"

lemma gain_simps [simp]:
  "gain r P [] = 0" "gain r P ((pid, fee) # es) = (if P pid then proposer_share r fee else 0) + gain r P es"
  by (simp_all add: gain_def)

lemma gain_mono: "(\<And>pid. pid \<in> fst ` set es \<Longrightarrow> P pid \<Longrightarrow> Q pid) \<Longrightarrow> gain r P es \<le> gain r Q es"
  by (induction es) (auto intro: add_mono)

lemma gain_cong: "(\<And>pid. pid \<in> fst ` set es \<Longrightarrow> P pid = Q pid) \<Longrightarrow> gain r P es = gain r Q es"
  by (induction es) auto

lemma gain_none: "(\<And>pid. pid \<in> fst ` set es \<Longrightarrow> \<not> P pid) \<Longrightarrow> gain r P es = 0"
  by (induction es) auto

lemma pay_entry_Ok:
  assumes "pay_entry r pr (tp, w) (pid, fee) = Ok (tp', w')"
  shows "tp' = (if pid \<in> tp then tp - {pid} else tp)"
    and "unat w' = unat w + (if pid \<in> tp \<and> pid \<notin> pr then proposer_share r fee else 0)"
  using assms by (auto simp: pay_entry_def outcome_simps checked_simps proposer_share_def split: if_splits)

lemma pay_fold:
  assumes "try_fold (pay_entry r pr) (tp, w) es = Ok (tp', w')"
  shows "tp' \<subseteq> tp" and "unat w' \<le> unat w + gain r (\<lambda>pid. pid \<in> tp \<and> pid \<notin> pr) es"
    and "distinct (map fst es) \<Longrightarrow> tp' = tp - fst ` set es \<and> unat w' = unat w + gain r (\<lambda>pid. pid \<in> tp \<and> pid \<notin> pr) es"
proof -
  have "tp' \<subseteq> tp \<and> unat w' \<le> unat w + gain r (\<lambda>pid. pid \<in> tp \<and> pid \<notin> pr) es \<and>
     (distinct (map fst es) \<longrightarrow> tp' = tp - fst ` set es \<and> unat w' = unat w + gain r (\<lambda>pid. pid \<in> tp \<and> pid \<notin> pr) es)"
    using assms
  proof (induction es arbitrary: tp w)
    case (Cons e es)
    obtain pid fee where e: "e = (pid, fee)" by (cases e)
    obtain tp1 w1 where 1: "pay_entry r pr (tp, w) (pid, fee) = Ok (tp1, w1)" "try_fold (pay_entry r pr) (tp1, w1) es = Ok (tp', w')"
      using Cons.prems e by (auto simp: tryq_eq_Ok)
    note p = pay_entry_Ok [OF 1(1)] and ih = Cons.IH [OF 1(2)]
    have "gain r (\<lambda>pid. pid \<in> tp1 \<and> pid \<notin> pr) es \<le> gain r (\<lambda>pid. pid \<in> tp \<and> pid \<notin> pr) es"
      by (intro gain_mono) (auto simp: p(1) split: if_splits)
    moreover have "gain r (\<lambda>pid. pid \<in> tp1 \<and> pid \<notin> pr) es = gain r (\<lambda>pid. pid \<in> tp \<and> pid \<notin> pr) es" if "pid \<notin> fst ` set es"
      using that by (intro gain_cong) (auto simp: p(1) split: if_splits)
    ultimately show ?case using ih p e by (auto split: if_splits)
  qed auto
  then show "tp' \<subseteq> tp" "unat w' \<le> unat w + gain r (\<lambda>pid. pid \<in> tp \<and> pid \<notin> pr) es"
    "distinct (map fst es) \<Longrightarrow> tp' = tp - fst ` set es \<and> unat w' = unat w + gain r (\<lambda>pid. pid \<in> tp \<and> pid \<notin> pr) es" by blast+
qed

text \<open>The committed transactions of a block with their fees.\<close>

definition commits_of :: "store \<Rightarrow> byte32 \<Rightarrow> (proposal_short_id \<times> capacity) list" where
  "commits_of s h = zip (committed_ids s h) (case get_block_ext s h of None \<Rightarrow> [] | Some e \<Rightarrow> ext_txs_fees e)"

lemma pay_committed_Ok:
  assumes "pay_committed C s pr (tp, w) h = Ok (tp', w')"
  defines "r \<equiv> c_proposer_reward_ratio C"
  shows "tp' \<subseteq> tp" and "unat w' \<le> unat w + gain r (\<lambda>pid. pid \<in> tp \<and> pid \<notin> pr) (commits_of s h)"
    and "distinct (map fst (commits_of s h)) \<Longrightarrow> tp' = tp - fst ` set (commits_of s h) \<and>
      unat w' = unat w + gain r (\<lambda>pid. pid \<in> tp \<and> pid \<notin> pr) (commits_of s h)"
proof -
  have sub: "fst ` set (commits_of s h) \<subseteq> set (committed_ids s h)"
    by (auto simp: commits_of_def dest: set_zip_leftD)
  have "tp' \<subseteq> tp \<and> unat w' \<le> unat w + gain r (\<lambda>pid. pid \<in> tp \<and> pid \<notin> pr) (commits_of s h) \<and>
    (distinct (map fst (commits_of s h)) \<longrightarrow> tp' = tp - fst ` set (commits_of s h) \<and>
      unat w' = unat w + gain r (\<lambda>pid. pid \<in> tp \<and> pid \<notin> pr) (commits_of s h))"
  proof (cases "tp \<inter> set (committed_ids s h) = {}")
    case True
    then have "tp' = tp" "w' = w" using assms(1) by (simp_all add: pay_committed_def)
    moreover have "gain r (\<lambda>pid. pid \<in> tp \<and> pid \<notin> pr) (commits_of s h) = 0" "tp - fst ` set (commits_of s h) = tp"
      using sub True by (auto intro!: gain_none)
    ultimately show ?thesis by simp
  next
    case False
    then obtain e where "get_block_ext s h = Some e"
        "try_fold (pay_entry r pr) (tp, w) (zip (committed_ids s h) (ext_txs_fees e)) = Ok (tp', w')"
      using assms(1) by (auto simp: pay_committed_def Let_def tryq_eq_Ok expect_eq_Ok r_def)
    then have "try_fold (pay_entry r pr) (tp, w) (commits_of s h) = Ok (tp', w')" by (simp add: commits_of_def)
    from pay_fold [OF this] show ?thesis by blast
  qed
  then show "tp' \<subseteq> tp" "unat w' \<le> unat w + gain r (\<lambda>pid. pid \<in> tp \<and> pid \<notin> pr) (commits_of s h)"
    "distinct (map fst (commits_of s h)) \<Longrightarrow> tp' = tp - fst ` set (commits_of s h) \<and>
      unat w' = unat w + gain r (\<lambda>pid. pid \<in> tp \<and> pid \<notin> pr) (commits_of s h)" by blast+
qed

section \<open>The chain by number\<close>

definition ids_at :: "store \<Rightarrow> nat \<Rightarrow> proposal_short_id set" where
  "ids_at s n = (case get_block_hash s (of_nat n) of None \<Rightarrow> {} | Some h \<Rightarrow> get_proposal_ids_by_hash s h)"

definition commits_at :: "store \<Rightarrow> nat \<Rightarrow> (proposal_short_id \<times> capacity) list" where
  "commits_at s n = (case get_block_hash s (of_nat n) of None \<Rightarrow> [] | Some h \<Rightarrow> commits_of s h)"

lemma at_index: "on_index s hv \<Longrightarrow> commits_at s (unat (h_number hv)) = commits_of s (h_hash hv)"
  by (simp add: on_index_def commits_at_def)

text \<open>No transaction id is committed twice in a range of blocks.\<close>

definition commits_distinct :: "store \<Rightarrow> nat set \<Rightarrow> bool" where
  "commits_distinct s W \<longleftrightarrow> (\<forall>c\<in>W. distinct (map fst (commits_at s c))) \<and>
     (\<forall>c\<in>W. \<forall>d\<in>W. c \<noteq> d \<longrightarrow> fst ` set (commits_at s c) \<inter> fst ` set (commits_at s d) = {})"

text \<open>Open proposals that are not proposed by the first blocks of the windows from a commit on.\<close>

definition unclaimed :: "store \<Rightarrow> nat \<Rightarrow> proposal_short_id set \<Rightarrow> proposal_short_id set \<Rightarrow> nat \<Rightarrow> nat \<Rightarrow> proposal_short_id \<Rightarrow> bool" where
  "unclaimed s far tp pr i c pid \<longleftrightarrow> pid \<in> tp \<and> pid \<notin> pr \<and> (\<forall>c'\<in>{c..<i}. pid \<notin> ids_at s (max (c' - far) 1))"

lemma unclaimed_step:
  "c < k \<Longrightarrow> unclaimed s far tp (pr \<union> ids_at s (max (k - far) 1)) k c pid = unclaimed s far tp pr (Suc k) c pid"
  "unclaimed s far tp pr (Suc k) k pid \<longleftrightarrow> pid \<in> tp \<and> pid \<notin> pr \<union> ids_at s (max (k - far) 1)"
  by (auto simp: unclaimed_def less_Suc_eq)

text \<open>The payments of a range of blocks, and how they depend on the open proposals.\<close>

definition payments ::
  "consensus \<Rightarrow> store \<Rightarrow> proposal_short_id set \<Rightarrow> proposal_short_id set \<Rightarrow> nat \<Rightarrow> nat set \<Rightarrow> nat" where
  "payments C s tp pr i A = (\<Sum>c\<in>A. gain (c_proposer_reward_ratio C)
     (unclaimed s (unat (farthest (c_tx_proposal_window C))) tp pr i c) (commits_at s c))"

lemma payments_mono: "tp' \<subseteq> tp \<Longrightarrow> payments C s tp' pr i A \<le> payments C s tp pr i A"
  unfolding payments_def by (intro sum_mono gain_mono) (auto simp: unclaimed_def)

lemma payments_removed:
  assumes "commits_distinct s (insert k A)" and "k \<notin> A"
  shows "payments C s (tp - fst ` set (commits_at s k)) pr i A = payments C s tp pr i A"
  unfolding payments_def
proof (intro sum.cong gain_cong refl)
  fix c pid
  assume c: "c \<in> A" and pid: "pid \<in> fst ` set (commits_at s c)"
  have "c \<noteq> k" using c assms(2) by blast
  then have "fst ` set (commits_at s c) \<inter> fst ` set (commits_at s k) = {}"
    using assms(1) c unfolding commits_distinct_def by blast
  then have "pid \<notin> fst ` set (commits_at s k)" using pid by blast
  then show "unclaimed s (unat (farthest (c_tx_proposal_window C))) (tp - fst ` set (commits_at s k)) pr i c pid =
      unclaimed s (unat (farthest (c_tx_proposal_window C))) tp pr i c pid" by (auto simp: unclaimed_def)
qed

lemma payments_step:
  "payments C s tp (pr \<union> ids_at s (max (k - unat (farthest (c_tx_proposal_window C))) 1)) k {a..<k} =
     payments C s tp pr (Suc k) {a..<k}"
  unfolding payments_def by (intro sum.cong gain_cong refl unclaimed_step(1)) simp

text \<open>Paying the committed transactions of one block.\<close>

lemma pay_block:
  assumes "pay_committed C s pr (tp, w) (h_hash hv) = Ok (tp1, w1)" and "on_index s hv"
  defines "k \<equiv> unat (h_number hv)"
  shows "tp1 \<subseteq> tp" and "unat w1 \<le> unat w + gain (c_proposer_reward_ratio C) (\<lambda>pid. pid \<in> tp \<and> pid \<notin> pr) (commits_at s k)"
    and "commits_distinct s A \<Longrightarrow> k \<in> A \<Longrightarrow> tp1 = tp - fst ` set (commits_at s k) \<and>
      unat w1 = unat w + gain (c_proposer_reward_ratio C) (\<lambda>pid. pid \<in> tp \<and> pid \<notin> pr) (commits_at s k)"
proof -
  have k: "commits_of s (h_hash hv) = commits_at s k" using at_index [OF assms(2)] by (simp add: k_def)
  note p = pay_committed_Ok [OF assms(1), unfolded k]
  show "tp1 \<subseteq> tp" "unat w1 \<le> unat w + gain (c_proposer_reward_ratio C) (\<lambda>pid. pid \<in> tp \<and> pid \<notin> pr) (commits_at s k)"
    by (rule p(1), rule p(2))
  assume "commits_distinct s A" "k \<in> A"
  then have "distinct (map fst (commits_at s k))" unfolding commits_distinct_def by blast
  then show "tp1 = tp - fst ` set (commits_at s k) \<and>
      unat w1 = unat w + gain (c_proposer_reward_ratio C) (\<lambda>pid. pid \<in> tp \<and> pid \<notin> pr) (commits_at s k)" by (rule p(3))
qed

text \<open>One round of the loop.\<close>

lemma reward_loop_round:
  assumes "index_linked s" and "on_index s index" and "start < h_number index"
    and "reward_loop n C s start index pr (tp, w) = Some (Ok w')"
  shows "\<exists>m pv tp1 w1. n = Suc m \<and> on_index s pv \<and> unat (h_number index) = Suc (unat (h_number pv)) \<and>
     pay_committed C s (pr \<union> ids_at s (max (unat (h_number pv) - unat (farthest (c_tx_proposal_window C))) 1)) (tp, w)
       (h_hash pv) = Ok (tp1, w1) \<and>
     reward_loop m C s start pv
       (pr \<union> ids_at s (max (unat (h_number pv) - unat (farthest (c_tx_proposal_window C))) 1)) (tp1, w1) = Some (Ok w')"
proof -
  have "h_number index \<noteq> 0" using assms(3) by auto
  then obtain pv where pv: "get_block_header s (h_parent_hash index) = Some pv" "on_index s pv"
      "unat (h_number index) = Suc (unat (h_number pv))"
    using index_parent [OF assms(1,2)] by blast
  obtain m where m: "n = Suc m" using assms(3,4) by (cases n) (auto simp: reward_loop_unfold)
  let ?cps = "max (saturating_sub (h_number pv) (farthest (c_tx_proposal_window C))) 1"
  obtain h tp1 w1 where h: "get_block_hash s ?cps = Some h"
      "pay_committed C s (pr \<union> get_proposal_ids_by_hash s h) (tp, w) (h_hash pv) = Ok (tp1, w1)"
      "reward_loop m C s start pv (pr \<union> get_proposal_ids_by_hash s h) (tp1, w1) = Some (Ok w')"
    using assms(3,4) pv(1) unfolding m by (auto simp: reward_loop_unfold [of "Suc m"] Let_def tryo_eq_Ok expect_eq_Ok)
  have "?cps = of_nat (max (unat (h_number pv) - unat (farthest (c_tx_proposal_window C))) 1)"
    by (rule unat_eqI) (metis unat_max unat_saturating_sub unat_1 word_of_unat)
  then have "get_proposal_ids_by_hash s h = ids_at s (max (unat (h_number pv) - unat (farthest (c_tx_proposal_window C))) 1)"
    using h(1) by (simp only: ids_at_def) simp
  then show ?thesis using m pv h by auto
qed

lemma reward_loop_pays:
  assumes "index_linked s" and "on_index s index" and "reward_loop n C s start index pr (tp, w) = Some (Ok w')"
  shows "unat w' \<le> unat w + payments C s tp pr (unat (h_number index)) {unat start..<unat (h_number index)} \<and>
     (commits_distinct s {unat start..<unat (h_number index)} \<longrightarrow>
        unat w' = unat w + payments C s tp pr (unat (h_number index)) {unat start..<unat (h_number index)})"
  using assms(2,3)
proof (induction n arbitrary: index pr tp w)
  case (Suc n)
  show ?case
  proof (cases "start < h_number index")
    case True
    define far where "far = unat (farthest (c_tx_proposal_window C))"
    obtain pv tp1 w1 where pv: "on_index s pv" "unat (h_number index) = Suc (unat (h_number pv))"
        and pay: "pay_committed C s (pr \<union> ids_at s (max (unat (h_number pv) - far) 1)) (tp, w) (h_hash pv) = Ok (tp1, w1)"
        and rest: "reward_loop n C s start pv (pr \<union> ids_at s (max (unat (h_number pv) - far) 1)) (tp1, w1) = Some (Ok w')"
      using reward_loop_round [OF assms(1) Suc.prems(1) True Suc.prems(2)] unfolding far_def by auto
    define k where "k = unat (h_number pv)"
    define pr1 where "pr1 = pr \<union> ids_at s (max (k - far) 1)"
    let ?gk = "gain (c_proposer_reward_ratio C) (\<lambda>pid. pid \<in> tp \<and> pid \<notin> pr1) (commits_at s k)"
    have le: "unat start \<le> k" using True pv(2) by (simp add: word_less_nat_alt k_def)
    have gk: "gain (c_proposer_reward_ratio C) (unclaimed s far tp pr (Suc k) k) (commits_at s k) = ?gk"
      by (intro gain_cong) (simp only: unclaimed_step(2) pr1_def)
    have sum: "payments C s tp pr (Suc k) {unat start..<Suc k} = payments C s tp pr1 k {unat start..<k} + ?gk"
      using le payments_step [of C s tp pr k "unat start", folded far_def, folded pr1_def] gk
      by (simp add: payments_def far_def)
    note p = pay_block [OF pay pv(1), folded k_def, folded pr1_def]
    note ih = Suc.IH [OF pv(1) rest, folded k_def, folded pr1_def]
    have "unat w' = unat w + payments C s tp pr (Suc k) {unat start..<Suc k}" if d: "commits_distinct s {unat start..<Suc k}"
    proof -
      have A: "{unat start..<Suc k} = insert k {unat start..<k}" using le by auto
      have "payments C s tp1 pr1 k {unat start..<k} = payments C s tp pr1 k {unat start..<k}"
        using p(3) [OF d] le payments_removed [OF d [unfolded A]] by simp
      moreover have "commits_distinct s {unat start..<k}" using d by (auto simp: commits_distinct_def)
      ultimately show ?thesis using ih p(3) [OF d] sum le by simp
    qed
    moreover have "unat w' \<le> unat w + payments C s tp pr (Suc k) {unat start..<Suc k}"
      using ih p(2) payments_mono [OF p(1), of C s pr1 k "{unat start..<k}"] sum by linarith
    ultimately show ?thesis by (simp add: pv(2) k_def)
  qed (use Suc.prems in \<open>auto simp: reward_loop_unfold word_less_nat_alt payments_def\<close>)
qed (auto simp: reward_loop_unfold word_less_nat_alt payments_def split: if_splits)

section \<open>What a target block earns\<close>

text \<open>
  The proposer of a committed transaction is the earliest block of its proposal window that
  proposes it.
\<close>

definition earns :: "store \<Rightarrow> nat \<Rightarrow> nat \<Rightarrow> nat \<Rightarrow> proposal_short_id \<Rightarrow> bool" where
  "earns s far t c pid \<longleftrightarrow> pid \<in> ids_at s t \<and> (\<forall>t'\<in>{max (c - far) 1..<t}. pid \<notin> ids_at s t')"

definition earned :: "consensus \<Rightarrow> store \<Rightarrow> nat \<Rightarrow> nat" where
  "earned C s t =
     (let close = unat (closest (c_tx_proposal_window C)); far = unat (farthest (c_tx_proposal_window C)) in
      \<Sum>c = t + close..t + far. gain (c_proposer_reward_ratio C) (earns s far t c) (commits_at s c))"

lemma unclaimed_earns:
  assumes "2 \<le> t"
  shows "unclaimed s far (ids_at s t) {} (t + far) c pid = earns s far t c pid"
proof -
  have "(\<lambda>c'. max (c' - far) 1) ` {c..<t + far} = {max (c - far) 1..<t}"
  proof (intro equalityI subsetI)
    fix t'
    assume "t' \<in> {max (c - far) 1..<t}"
    then have "t' = max ((t' + far) - far) 1" "t' + far \<in> {c..<t + far}" by auto
    then show "t' \<in> (\<lambda>c'. max (c' - far) 1) ` {c..<t + far}" by blast
  qed (use assms in auto)
  then have "(\<forall>c'\<in>{c..<t + far}. pid \<notin> ids_at s (max (c' - far) 1)) \<longleftrightarrow> (\<forall>t'\<in>{max (c - far) 1..<t}. pid \<notin> ids_at s t')"
    by (metis (no_types, lifting) image_iff)
  then show ?thesis by (simp only: unclaimed_def earns_def) simp
qed

lemma proposal_reward_parts:
  assumes "proposal_reward n C s parent target = Some (Ok r)" and "on_index s parent"
  defines "w \<equiv> c_tx_proposal_window C" and "p \<equiv> unat (h_number parent)"
  shows "\<exists>start tp1 w1. closest w \<le> farthest w \<and>
     unat start = max (p - (unat (farthest w) - unat (closest w))) (1 + unat (closest w)) \<and>
     pay_committed C s {} (get_proposal_ids_by_hash s (h_hash target), 0) (h_hash parent) = Ok (tp1, w1) \<and>
     reward_loop n C s start parent {} (tp1, w1) = Some (Ok r)"
proof -
  obtain bn len fc tp1 w1 where a: "p_add (h_number parent) 1 = (Ok bn :: u64 result)" "pw_length w = Ok len"
      "p_add 1 (closest w) = (Ok fc :: u64 result)"
      "pay_committed C s {} (get_proposal_ids_by_hash s (h_hash target), 0) (h_hash parent) = Ok (tp1, w1)"
      "reward_loop n C s (max (saturating_sub bn len) fc) parent {} (tp1, w1) = Some (Ok r)"
    using assms(1) by (auto simp: proposal_reward_def Let_def tryo_eq_Ok w_def)
  have bn: "unat bn = p + 1" using a(1) by (simp add: panic_simps p_def)
  have len: "closest w \<le> farthest w" "unat len = unat (farthest w) - unat (closest w) + 1"
    using a(2) by (auto simp: pw_length_def tryq_eq_Ok panic_simps word_le_nat_alt)
  have fc: "unat fc = 1 + unat (closest w)" using a(3) by (simp add: panic_simps)
  have "unat (max (saturating_sub bn len) fc) = max (p - (unat (farthest w) - unat (closest w))) (1 + unat (closest w))"
    by (simp add: unat_max bn len(2) fc)
  then show ?thesis using len(1) a(4,5) by blast
qed

lemma payments_earned:
  assumes "2 \<le> t" and "unat (closest (c_tx_proposal_window C)) \<le> unat (farthest (c_tx_proposal_window C))"
  defines "close \<equiv> unat (closest (c_tx_proposal_window C))" and "far \<equiv> unat (farthest (c_tx_proposal_window C))"
  shows "earned C s t = payments C s (ids_at s t) {} (t + far) {t + close..<t + far} +
     gain (c_proposer_reward_ratio C) (\<lambda>pid. pid \<in> ids_at s t \<and> pid \<notin> {}) (commits_at s (t + far))"
proof -
  have "{t + close..t + far} = insert (t + far) {t + close..<t + far}" using assms(2) by (auto simp: close_def far_def)
  moreover have "gain r (earns s far t (t + far)) es = gain r (\<lambda>pid. pid \<in> ids_at s t \<and> pid \<notin> {}) es" for r es
    by (intro gain_cong) (simp add: earns_def)
  moreover have "unclaimed s far (ids_at s t) {} (t + far) = earns s far t" by (intro ext) (rule unclaimed_earns [OF assms(1)])
  ultimately show ?thesis
    unfolding earned_def payments_def Let_def
    by (simp add: close_def [symmetric] far_def [symmetric])
qed

lemma proposal_reward_earned:
  assumes "index_linked s" and "on_index s parent" and "on_index s target"
    and "unat (h_number parent) = unat (h_number target) + unat (farthest (c_tx_proposal_window C))"
    and "2 \<le> unat (h_number target)" and "proposal_reward n C s parent target = Some (Ok r)"
  shows "unat r \<le> earned C s (unat (h_number target)) \<and>
     (commits_distinct s {unat (h_number target) + unat (closest (c_tx_proposal_window C))..unat (h_number parent)} \<longrightarrow>
      unat r = earned C s (unat (h_number target)))"
proof -
  define t where "t = unat (h_number target)"
  define far where "far = unat (farthest (c_tx_proposal_window C))"
  define close where "close = unat (closest (c_tx_proposal_window C))"
  have p: "unat (h_number parent) = t + far" using assms(4) by (simp add: t_def far_def)
  have ids: "get_proposal_ids_by_hash s (h_hash target) = ids_at s t"
    using assms(3) by (simp add: on_index_def ids_at_def t_def)
  obtain start tp1 w1 where a: "close \<le> far" "unat start = t + close"
      "pay_committed C s {} (ids_at s t, 0) (h_hash parent) = Ok (tp1, w1)"
      "reward_loop n C s start parent {} (tp1, w1) = Some (Ok r)"
    using proposal_reward_parts [OF assms(6,2)] assms(5) unfolding ids p
    by (auto simp: t_def far_def close_def word_le_nat_alt)
  note e = payments_earned [OF assms(5) a(1) [unfolded close_def far_def], of s, folded t_def far_def close_def]
  note pay = pay_block [OF a(3) assms(2), unfolded p]
  note loop = reward_loop_pays [OF assms(1,2) a(4), unfolded p a(2)]
  have "unat r = earned C s t" if d: "commits_distinct s {t + close..t + far}"
  proof -
    have A: "{t + close..t + far} = insert (t + far) {t + close..<t + far}" using a(1) by auto
    have "payments C s tp1 {} (t + far) {t + close..<t + far} = payments C s (ids_at s t) {} (t + far) {t + close..<t + far}"
      using pay(3) [OF d] a(1) payments_removed [OF d [unfolded A]] by simp
    moreover have "commits_distinct s {t + close..<t + far}" using d by (auto simp: commits_distinct_def)
    ultimately show ?thesis using loop pay(3) [OF d] a(1) e by simp
  qed
  moreover have "unat r \<le> earned C s t"
    using loop pay(2) payments_mono [OF pay(1), of C s "{}" "t + far" "{t + close..<t + far}"] e by simp
  ultimately show ?thesis unfolding p by (simp add: t_def close_def)
qed

section \<open>No share is paid twice\<close>

lemma earns_unique:
  assumes "earns s far t c pid" and "earns s far t' c pid" and "1 \<le> t" and "1 \<le> t'" and "c \<le> t + far" and "c \<le> t' + far"
  shows "t = t'"
proof (rule ccontr)
  assume "t \<noteq> t'"
  then consider "t \<in> {max (c - far) 1..<t'}" | "t' \<in> {max (c - far) 1..<t}" using assms(3-6) by fastforce
  then show False using assms(1,2) unfolding earns_def by cases blast+
qed

lemma gain_exclusive:
  assumes "finite T" and "\<And>t t' pid. t \<in> T \<Longrightarrow> t' \<in> T \<Longrightarrow> P t pid \<Longrightarrow> P t' pid \<Longrightarrow> t = t'"
  shows "(\<Sum>t\<in>T. gain r (P t) es) \<le> gain r (\<lambda>_. True) es"
proof (induction es)
  case (Cons e es)
  obtain pid fee where e: "e = (pid, fee)" by (cases e)
  have "card {t \<in> T. P t pid} \<le> 1" using assms by (intro card_le_Suc0_iff_eq [THEN iffD2, unfolded One_nat_def [symmetric]]) auto
  then have "(\<Sum>t\<in>T. if P t pid then proposer_share r fee else 0) \<le> proposer_share r fee"
    using assms(1) by (simp add: sum.If_cases Int_def)
  then show ?case using Cons e by (simp add: sum.distrib)
qed simp

lemma earned_bounded:
  fixes C
  assumes "finite T" and "\<forall>t\<in>T. 1 \<le> t"
  defines "close \<equiv> unat (closest (c_tx_proposal_window C))" and "far \<equiv> unat (farthest (c_tx_proposal_window C))"
  shows "(\<Sum>t\<in>T. earned C s t) \<le>
     (\<Sum>c\<in>(\<Union>t\<in>T. {t + close..t + far}). gain (c_proposer_reward_ratio C) (\<lambda>_. True) (commits_at s c))"
proof -
  let ?r = "c_proposer_reward_ratio C" and ?U = "\<Union>t\<in>T. {t + close..t + far}"
  have "(\<Sum>t\<in>T. earned C s t) = (\<Sum>t\<in>T. \<Sum>c\<in>{c \<in> ?U. c \<in> {t + close..t + far}}. gain ?r (earns s far t c) (commits_at s c))"
    unfolding earned_def Let_def close_def far_def by (intro sum.cong refl) auto
  also have "\<dots> = (\<Sum>c\<in>?U. \<Sum>t\<in>{t \<in> T. c \<in> {t + close..t + far}}. gain ?r (earns s far t c) (commits_at s c))"
    using assms(1) by (intro sum.swap_restrict) auto
  also have "\<dots> \<le> (\<Sum>c\<in>?U. gain ?r (\<lambda>_. True) (commits_at s c))"
    using assms(1,2) by (intro sum_mono gain_exclusive) (auto intro: earns_unique)
  finally show ?thesis .
qed

section \<open>An example\<close>

text \<open>Four blocks; the second proposes a transaction that the third commits for a fee of 1000.\<close>

definition example_numbered :: "u64 \<Rightarrow> u8 \<Rightarrow> header_view" where
  "example_numbered n b = header_view_of (example_header\<lparr>h_number := n, h_parent_hash := replicate 32 (b - 1)\<rparr>) (replicate 32 b)"

definition example_reward_store :: store where
  "example_reward_store = store_empty\<lparr>
     st_index_hash := [0 \<mapsto> replicate 32 0, 1 \<mapsto> replicate 32 1, 2 \<mapsto> replicate 32 2, 3 \<mapsto> replicate 32 3],
     st_header := [replicate 32 0 \<mapsto> example_numbered 0 0, replicate 32 1 \<mapsto> example_numbered 1 1,
       replicate 32 2 \<mapsto> example_numbered 2 2, replicate 32 3 \<mapsto> example_numbered 3 3],
     st_proposals := [replicate 32 2 \<mapsto> [replicate 10 9]],
     st_body := (\<lambda>_. [])(replicate 32 3 := [(0, tx_view example_tx (replicate 32 8) (replicate 32 8)),
       (1, tx_view example_tx (replicate 32 9) (replicate 32 9))]),
     st_ext := [replicate 32 3 \<mapsto> \<lparr>ext_received_at = 0, ext_total_difficulty = 1, ext_total_uncles_count = 0,
       ext_verified = Some True, ext_txs_fees = [1000]\<rparr>]\<rparr>"

definition example_reward_consensus :: consensus where
  "example_reward_consensus = example_consensus\<lparr>c_tx_proposal_window := ProposalWindow 1 1\<rparr>"

lemma example_numbered_sel [simp]:
  "h_number (example_numbered n b) = n" "h_hash (example_numbered n b) = replicate 32 b"
  "h_parent_hash (example_numbered n b) = replicate 32 (b - 1)"
  by (simp_all add: example_numbered_def)

lemma example_reward_linked: "index_linked example_reward_store"
  by (auto simp: index_linked_def example_reward_store_def get_block_hash_def get_block_header_def split: if_splits)

lemma example_reward_on_index: "on_index example_reward_store (example_numbered 2 2)" "on_index example_reward_store (example_numbered 3 3)"
  by (simp_all add: on_index_def example_reward_store_def get_block_hash_def get_block_header_def)

lemma example_reward_window:
  "closest (c_tx_proposal_window example_reward_consensus) = 1" "farthest (c_tx_proposal_window example_reward_consensus) = 1"
  "c_proposer_reward_ratio example_reward_consensus = Ratio 4 10"
  by (simp_all add: example_reward_consensus_def example_consensus_def)

lemma example_proposal_reward:
  "proposal_reward 1 example_reward_consensus example_reward_store (example_numbered 3 3) (example_numbered 2 2) = Some (Ok 400)"
proof -
  have ids: "get_proposal_ids_by_hash example_reward_store (replicate 32 2) = {replicate 10 9}"
    by (simp add: get_proposal_ids_by_hash_def get_block_proposal_txs_ids_def get_block_uncles_def example_reward_store_def store_empty_def)
  have com: "committed_ids example_reward_store (replicate 32 3) = [replicate 10 9]"
    by (simp add: committed_ids_def get_block_txs_hashes_def example_reward_store_def proposal_short_id_from_tx_hash_def)
  have "\<exists>e. get_block_ext example_reward_store (replicate 32 3) = Some e \<and> ext_txs_fees e = [1000]"
    by (simp add: example_reward_store_def get_block_ext_def)
  then have "pay_committed example_reward_consensus example_reward_store {} ({replicate 10 9}, 0) (replicate 32 3) = Ok ({}, 400)"
    by (auto simp: pay_committed_def com Let_def pay_entry_def example_reward_window
        safe_mul_ratio_def checked_mul_def checked_div_def safe_add_def checked_add_def)
  then show ?thesis
    by (simp add: proposal_reward_def Let_def ids example_reward_window pw_length_def p_add_def checked_add_def p_sub_def
        checked_sub_def saturating_sub_def reward_loop_unfold del: replicate.simps)
qed

section \<open>Properties\<close>


lemma example_commits: "commits_distinct example_reward_store {3..3}"
  by (simp add: commits_distinct_def commits_at_def commits_of_def committed_ids_def get_block_txs_hashes_def
      get_block_hash_def get_block_ext_def example_reward_store_def)




text \<open>
  C31. The loop of the proposal reward ends: on a linked main chain, with as many rounds as the
  window is wide, it returns, and more rounds do not change the result.
\<close>

theorem proposal_reward_ends:
  assumes "index_linked s" and "on_index s parent"
  shows "\<exists>r. \<forall>n \<ge> unat (farthest (c_tx_proposal_window C)). proposal_reward n C s parent target = Some r"
proof -
  let ?w = "c_tx_proposal_window C"
  consider (panic) "\<exists>r. \<forall>n. proposal_reward n C s parent target = Some r"
    | (loop) bn len fc st where "p_add (h_number parent) 1 = (Ok bn :: u64 result)" "pw_length ?w = Ok len"
        "\<And>n. proposal_reward n C s parent target = reward_loop n C s (max (saturating_sub bn len) fc) parent {} st"
  proof (cases "p_add (h_number parent) 1 :: u64 result")
    case (Ok bn)
    show ?thesis
    proof (cases "pw_length ?w")
      case len: (Ok len)
      show ?thesis
      proof (cases "p_add 1 (closest ?w) :: u64 result")
        case fc: (Ok fc)
        show ?thesis
          by (cases "pay_committed C s {} (get_proposal_ids_by_hash s (h_hash target), 0) (h_hash parent)")
            (use that Ok len fc in \<open>auto simp: proposal_reward_def Let_def\<close>)
      qed (use that Ok len in \<open>auto simp: proposal_reward_def Let_def\<close>)
    qed (use that Ok in \<open>auto simp: proposal_reward_def Let_def\<close>)
  qed (use that in \<open>auto simp: proposal_reward_def Let_def\<close>)
  then show ?thesis
  proof cases
    case loop
    have "unat bn = unat (h_number parent) + 1" "unat len \<le> unat (farthest ?w) + 1"
      using loop(1,2) by (auto simp: pw_length_def tryq_eq_Ok panic_simps)
    then have "unat (h_number parent) - unat (max (saturating_sub bn len) fc) \<le> unat (farthest ?w)"
      by (simp add: unat_max)
    then show ?thesis unfolding loop(3) by (rule reward_loop_ends [OF assms])
  qed blast
qed

theorem proposal_reward_ends_witness:
  "\<exists>r. \<forall>n \<ge> 1. proposal_reward n example_reward_consensus example_reward_store (example_numbered 3 3) (example_numbered 2 2) = Some r"
  using proposal_reward_ends [OF example_reward_linked example_reward_on_index(2), of example_reward_consensus "example_numbered 2 2"]
  by (simp add: example_reward_window)

text \<open>
  C36. The first block is underpaid: for the block with number 1 only the commits of the last
  block of its window count, because the search for earlier proposers starts at block 1 itself.
\<close>

theorem first_block_underpaid:
  assumes "index_linked s" and "on_index s parent" and "on_index s target" and "h_number target = 1"
    and "unat (h_number parent) = 1 + unat (farthest (c_tx_proposal_window C))"
    and "proposal_reward n C s parent target = Some (Ok r)"
  shows "unat r \<le> gain (c_proposer_reward_ratio C) (\<lambda>pid. pid \<in> ids_at s 1) (commits_at s (unat (h_number parent)))"
proof -
  define far where "far = unat (farthest (c_tx_proposal_window C))"
  have p: "unat (h_number parent) = 1 + far" using assms(5) by (simp add: far_def)
  have ids: "get_proposal_ids_by_hash s (h_hash target) = ids_at s 1" using assms(3,4) by (simp add: on_index_def ids_at_def)
  obtain start tp1 w1 where a: "pay_committed C s {} (ids_at s 1, 0) (h_hash parent) = Ok (tp1, w1)"
      "reward_loop n C s start parent {} (tp1, w1) = Some (Ok r)"
    using proposal_reward_parts [OF assms(6,2)] unfolding ids by blast
  note pay = pay_block [OF a(1) assms(2)]
  have "\<not> unclaimed s far tp1 {} (1 + far) c pid" if "c < 1 + far" for c pid
  proof
    assume u: "unclaimed s far tp1 {} (1 + far) c pid"
    have "far \<in> {c..<1 + far}" using that by simp
    then have "pid \<notin> ids_at s (max (far - far) 1)" using u unfolding unclaimed_def by blast
    then show False using u pay(1) by (auto simp: unclaimed_def)
  qed
  then have "payments C s tp1 {} (1 + far) {unat start..<1 + far} = 0"
    unfolding payments_def far_def [symmetric] by (intro sum.neutral ballI gain_none) auto
  then show ?thesis using reward_loop_pays [OF assms(1,2) a(2), unfolded p] pay(2) unfolding p by simp
qed

text \<open>Block 1 proposes what block 2 commits: it earned 400 and gets nothing.\<close>

definition example_first_store :: store where
  "example_first_store = example_reward_store\<lparr>
     st_proposals := [replicate 32 1 \<mapsto> [replicate 10 9]],
     st_body := (\<lambda>_. [])(replicate 32 2 := [(0, tx_view example_tx (replicate 32 8) (replicate 32 8)),
       (1, tx_view example_tx (replicate 32 9) (replicate 32 9))]),
     st_ext := [replicate 32 2 \<mapsto> \<lparr>ext_received_at = 0, ext_total_difficulty = 1, ext_total_uncles_count = 0,
       ext_verified = Some True, ext_txs_fees = [1000]\<rparr>]\<rparr>"

definition example_first_consensus :: consensus where
  "example_first_consensus = example_consensus\<lparr>c_tx_proposal_window := ProposalWindow 1 2\<rparr>"

lemma example_first_linked: "index_linked example_first_store"
    "on_index example_first_store (example_numbered 1 1)" "on_index example_first_store (example_numbered 3 3)"
  using example_reward_linked
  by (simp_all add: index_linked_def on_index_def example_first_store_def example_reward_store_def get_block_hash_def get_block_header_def)

lemma example_first_sel:
  "farthest (c_tx_proposal_window example_first_consensus) = 2" "closest (c_tx_proposal_window example_first_consensus) = 1"
  "c_proposer_reward_ratio example_first_consensus = Ratio 4 10"
  "get_proposal_ids_by_hash example_first_store (replicate 32 1) = {replicate 10 9}"
  "committed_ids example_first_store (replicate 32 3) = []" "committed_ids example_first_store (replicate 32 2) = [replicate 10 9]"
  "\<exists>e. get_block_ext example_first_store (replicate 32 2) = Some e \<and> ext_txs_fees e = [1000]"
  by (simp_all add: example_first_consensus_def example_consensus_def get_proposal_ids_by_hash_def get_block_proposal_txs_ids_def
      get_block_uncles_def example_first_store_def example_reward_store_def store_empty_def committed_ids_def
      get_block_txs_hashes_def proposal_short_id_from_tx_hash_def get_block_ext_def)

lemma example_first_hash:
  "get_block_hash example_first_store 1 = Some (replicate 32 1)" "get_block_hash example_first_store 2 = Some (replicate 32 2)"
  "get_block_hash example_first_store 3 = Some (replicate 32 3)"
  "get_block_header example_first_store (replicate 32 2) = Some (example_numbered 2 2)"
  by (simp_all add: get_block_hash_def get_block_header_def example_first_store_def example_reward_store_def)

lemma example_first_reward:
  "proposal_reward 1 example_first_consensus example_first_store (example_numbered 3 3) (example_numbered 1 1) = Some (Ok 0)"
proof -
  have "pay_committed example_first_consensus example_first_store {} ({replicate 10 9}, 0) (replicate 32 3) = Ok ({replicate 10 9}, 0)"
    by (simp add: pay_committed_def example_first_sel)
  moreover have "pay_committed example_first_consensus example_first_store {replicate 10 9} ({replicate 10 9}, 0) (replicate 32 2) = Ok ({}, 0)"
    using example_first_sel(7) by (auto simp: pay_committed_def example_first_sel(1-6) Let_def pay_entry_def)
  ultimately show ?thesis
    by (simp add: proposal_reward_def Let_def example_first_sel example_first_hash pw_length_def p_add_def checked_add_def p_sub_def
        checked_sub_def saturating_sub_def reward_loop_unfold [of "Suc 0"] reward_loop_unfold [of 0] del: replicate.simps)
qed

theorem first_block_underpaid_witness:
  "unat (0 :: u64) \<le> gain (c_proposer_reward_ratio example_first_consensus) (\<lambda>pid. pid \<in> ids_at example_first_store 1)
     (commits_at example_first_store (unat (h_number (example_numbered 3 3)))) \<and>
   earned example_first_consensus example_first_store 1 = 400"
proof
  show "unat (0 :: u64) \<le> gain (c_proposer_reward_ratio example_first_consensus) (\<lambda>pid. pid \<in> ids_at example_first_store 1)
     (commits_at example_first_store (unat (h_number (example_numbered 3 3))))"
    by (rule first_block_underpaid [OF example_first_linked(1,3,2) _ _ example_first_reward]) (simp_all add: example_first_sel)
  have "commits_at example_first_store 2 = [(replicate 10 9, 1000)]" "commits_at example_first_store 3 = []"
    using example_first_sel(7) by (auto simp: commits_at_def example_first_hash commits_of_def example_first_sel(1-6))
  moreover have range: "{1 + unat (1 :: u64)..1 + unat (2 :: u64)} = {2, 3}" by auto
  moreover have "earns example_first_store (unat (2 :: u64)) 1 2 (replicate 10 9)"
    by (auto simp: earns_def ids_at_def example_first_hash example_first_sel(4))
  ultimately show "earned example_first_consensus example_first_store 1 = 400"
    unfolding earned_def Let_def example_first_sel(1-3) range by (simp add: proposer_share_def)
qed

end
