(* ===== verification/Contextual_Verifier.thy ===== *)
theory Contextual_Verifier
  imports Block_Verifier Tx_Verifier Uncles_Verifier Reward
begin

text \<open>
  The rules of a block against the chain it extends
  (\<open>verification/src/contextual_block_verifier.rs\<close>): the epoch, the uncles, the two-phase
  commit, the NervosDAO field, the reward of the cellbase and the transactions with their cache.
  \<open>VerifyContext\<close> is the store and the consensus. The worker pool of \<open>par_iter\<close> (rayon) is a
  function that collects the results of the transactions; the law it obeys is \<open>par_collect_ok\<close>.
\<close>

section \<open>The context\<close>

definition check_valid :: "'z numext_scheme \<Rightarrow> consensus \<Rightarrow> store \<Rightarrow> byte32 \<Rightarrow> unit result" where
  "check_valid N C s block_hash =
     (case get_block_header s block_hash of
        Some hv \<Rightarrow>
          tryq (expect (get_tip_header s)) (\<lambda>tip_header.
          tryq (expect (do {
            a \<leftarrow> ef_to_rational N (c_cellbase_maturity C);
            b \<leftarrow> ef_to_rational N (ef_from_full_value (h_epoch hv));
            threshold \<leftarrow> rat_add N a b;
            current \<leftarrow> ef_to_rational N (ef_from_full_value (h_epoch tip_header));
            rat_lt N current threshold })) (\<lambda>immature.
          if immature then Err (OutPoint (ImmatureHeader block_hash)) else Ok ()))
      | None \<Rightarrow> Err (OutPoint (InvalidHeader block_hash)))"

section \<open>Two-phase commit\<close>

text \<open>The loop ends without a bound: the number counts down, and a decrement of zero panics.\<close>

function collect_proposals ::
  "store \<Rightarrow> u64 \<Rightarrow> u64 \<Rightarrow> byte32 \<Rightarrow> proposal_short_id set \<Rightarrow> proposal_short_id set result" where
  "collect_proposals s proposal_start proposal_end block_hash proposal_txs_ids =
     (if proposal_start \<le> proposal_end then
        tryq (ok_or (Block (CommitError AncestorNotFound)) (get_block_header s block_hash)) (\<lambda>hv.
        if h_number hv = 0 then Ok proposal_txs_ids
        else
          let ids = proposal_txs_ids \<union> get_proposal_ids_by_hash s block_hash
          in if proposal_end = 0 then Panic
             else collect_proposals s proposal_start (proposal_end - 1) (h_parent_hash hv) ids)
      else Ok proposal_txs_ids)"
  by pat_completeness auto
termination
  by (relation "measure (\<lambda>(s, proposal_start, proposal_end, h, ids). unat proposal_end)") (auto simp: unat_pred)

definition two_phase_commit_verify :: "consensus \<Rightarrow> store \<Rightarrow> block_view \<Rightarrow> unit result" where
  "two_phase_commit_verify C s block =
     (if bv_is_genesis block then Ok ()
      else
        let block_number = bv_number block;
            proposal_window = c_tx_proposal_window C;
            proposal_start = saturating_sub block_number (farthest proposal_window);
            proposal_end = saturating_sub block_number (closest proposal_window)
        in tryq (ok_or (Block (CommitError AncestorNotFound)) (get_block_hash s proposal_end)) (\<lambda>block_hash.
           tryq (collect_proposals s proposal_start proposal_end block_hash {}) (\<lambda>proposal_txs_ids.
           let committed_ids = set (map proposal_short_id (drop 1 (bv_transactions block)))
           in if committed_ids - proposal_txs_ids \<noteq> {} then Err (Block (CommitError CommitInvalid)) else Ok ())))"

section \<open>The reward of the cellbase\<close>

definition reward_output :: "capacity \<Rightarrow> script \<Rightarrow> cell_output" where
  "reward_output amount lock = \<lparr>co_capacity = amount, co_lock = lock, co_type = None\<rparr>"

definition reward_verify ::
  "nat \<Rightarrow> 'z ext_scheme \<Rightarrow> consensus \<Rightarrow> store \<Rightarrow> resolved_transaction list \<Rightarrow> header_view \<Rightarrow> unit result option" where
  "reward_verify fuel X C s resolved parent =
     tryo (Some (expect (vec_get resolved 0))) (\<lambda>cellbase.
     tryo (Some (p_add (h_number parent) 1)) (\<lambda>block_number.
     tryo (Some (finalization_delay_length C)) (\<lambda>delay.
     let no_finalization_target = block_number \<le> delay in
     tryo (block_reward_to_finalize fuel X C s parent) (\<lambda>(target_lock, block_reward).
     tryo (Some (cap_result (is_lack_of_capacity (reward_output (br_total block_reward) target_lock) 0)))
       (\<lambda>insufficient_reward_to_create_cell.
     let outputs = tx_outputs (rtx_transaction cellbase) in
     if no_finalization_target \<or> insufficient_reward_to_create_cell then
       Some (if outputs = [] then Ok () else Err (Block (CellbaseError InvalidRewardTarget)))
     else
       tryo (Some (cap_result (outputs_capacity (rtx_transaction cellbase)))) (\<lambda>capacity.
       if capacity \<noteq> br_total block_reward then Some (Err (Block (CellbaseError InvalidRewardAmount)))
       else tryo (Some (expect (vec_get outputs 0))) (\<lambda>out.
         Some (if co_lock out \<noteq> target_lock then Err (Block (CellbaseError InvalidRewardTarget)) else Ok ()))))))))"

section \<open>The NervosDAO field\<close>

definition dao_header_verify ::
  "'z ext_scheme \<Rightarrow> consensus \<Rightarrow> store \<Rightarrow> resolved_transaction list \<Rightarrow> header_view \<Rightarrow> header_view \<Rightarrow> unit result" where
  "dao_header_verify X C s resolved parent hv =
     tryq (dao_field X C s resolved parent) (\<lambda>dao.
     if dao \<noteq> h_dao hv then Err (Block (BlockErr InvalidDAO)) else Ok ())"

section \<open>Transactions\<close>

type_synonym verified_tx = "byte32 \<times> cache_entry"

text \<open>
  \<open>par_iter().map(..).collect::<Result<Vec<_>, _>>()\<close>: all values when all succeed, otherwise
  the error or panic of some transaction that failed.
\<close>

type_synonym par_collect = "verified_tx result list \<Rightarrow> verified_tx list result"

definition par_collect_ok :: "par_collect \<Rightarrow> bool" where
  "par_collect_ok R \<longleftrightarrow> (\<forall>rs xs. R rs = Ok xs \<longleftrightarrow> rs = map Ok xs) \<and>
     (\<forall>rs e. R rs = Err e \<longrightarrow> Err e \<in> set rs) \<and> (\<forall>rs. R rs = Panic \<longrightarrow> Panic \<in> set rs)"

definition fetched_cache :: "('t, cache_entry) lru \<Rightarrow> 't \<Rightarrow> byte32 list \<Rightarrow> byte32 \<Rightarrow> cache_entry option" where
  "fetched_cache T c ks h = (if h \<in> set ks then lru_get T c h else None)"

definition block_txs_err :: "nat \<Rightarrow> ckb_error \<Rightarrow> ckb_error" where
  "block_txs_err index e = Block (BlockTransactionsError (index mod 2 ^ 32) e)"

definition verify_block_tx ::
  "'z ext_scheme \<Rightarrow> vm \<Rightarrow> (groups \<Rightarrow> script_group list) \<Rightarrow> ('c, u64) lru \<Rightarrow> consensus \<Rightarrow> store \<Rightarrow> since_context \<Rightarrow>
   (byte32 \<Rightarrow> cache_entry option) \<Rightarrow> nat \<times> resolved_transaction \<Rightarrow> verified_tx result" where
  "verify_block_tx X M ord L C s sn fetched = (\<lambda>(index, tx).
     let h = tx_hash (rtx_transaction tx) in
     case fetched h of
       Some entry \<Rightarrow>
         map_ok (\<lambda>_. (h, entry)) (map_err (block_txs_err index)
           (verify_contextual_transaction X C L (ctx_timestamp_and_parent s) (ctx_median_block_count C) sn tx))
     | None \<Rightarrow>
         map_ok (\<lambda>entry. (h, entry)) (map_err (block_txs_err index)
           (verify_transaction X M ord L C s (ctx_timestamp_and_parent s) (ctx_median_block_count C) sn tx
             (c_max_block_cycles C))))"

text \<open>
  The result and the cache that the next block finds: the entries are written also when the
  cycles exceed the limit, and not when a transaction fails.
\<close>

definition verify_block_txs ::
  "'z ext_scheme \<Rightarrow> vm \<Rightarrow> (groups \<Rightarrow> script_group list) \<Rightarrow> par_collect \<Rightarrow> ('c, u64) lru \<Rightarrow> ('t, cache_entry) lru \<Rightarrow>
   consensus \<Rightarrow> store \<Rightarrow> since_context \<Rightarrow> resolved_transaction list \<Rightarrow> 't \<Rightarrow>
   (u64 \<times> cache_entry list) result \<times> 't" where
  "verify_block_txs X M ord R L T C s sn resolved cache =
     (let ks = map (\<lambda>rtx. tx_hash (rtx_transaction rtx)) resolved;
          fetched = fetched_cache T cache ks
      in case R (map (verify_block_tx X M ord L C s sn fetched) (enumerate 0 resolved)) of
           Err e \<Rightarrow> (Err e, cache)
         | Panic \<Rightarrow> (Panic, cache)
         | Ok ret \<Rightarrow>
             (case (try_fold p_add 0 (map (ce_cycles \<circ> snd) ret) :: u64 result) of
                Ok total_cycles \<Rightarrow>
                  (if c_max_block_cycles C < total_cycles then Err (Block (BlockErr ExceededMaximumCycles))
                   else Ok (total_cycles, map snd ret),
                   foldl (\<lambda>c (k, v). lru_insert T c k v) cache ret)
              | _ \<Rightarrow> (Panic, cache)))"

section \<open>Epoch\<close>

definition prepare_epoch_ext :: "'z numext_scheme \<Rightarrow> consensus \<Rightarrow> store \<Rightarrow> header_view \<Rightarrow> epoch_ext result" where
  "prepare_epoch_ext N C s parent =
     tryq (ok_or (Block (UnknownParentError (h_hash parent))) (get_block_epoch s (h_hash parent))) (\<lambda>parent_ext.
     tryq (store_next_epoch_ext N s C parent_ext parent) (\<lambda>e.
     Ok (case e of None \<Rightarrow> parent_ext | Some e \<Rightarrow> e)))"

definition epoch_verify :: "epoch_ext \<Rightarrow> block_view \<Rightarrow> unit result" where
  "epoch_verify e block =
     (let hv = bv_header block;
          actual_epoch_with_fraction = ef_from_full_value (h_epoch hv)
      in tryq (ee_number_with_fraction e (h_number hv)) (\<lambda>epoch_with_fraction.
         if actual_epoch_with_fraction \<noteq> epoch_with_fraction then
           Err (Header (EpochError (NumberMismatch epoch_with_fraction actual_epoch_with_fraction)))
         else if ee_compact_target e \<noteq> h_compact_target hv then
           Err (Header (EpochError (TargetMismatch (ee_compact_target e) (h_compact_target hv))))
         else Ok ()))"

section \<open>The whole verifier\<close>

record verify_switch =
  disable_epoch :: bool
  disable_uncles :: bool
  disable_two_phase_commit :: bool
  disable_daoheader :: bool
  disable_reward :: bool

text \<open>The rules before the transactions.\<close>

definition contextual_rules ::
  "nat \<Rightarrow> 'z ext_scheme \<Rightarrow> consensus \<Rightarrow> store \<Rightarrow> 'y verify_switch_scheme \<Rightarrow> resolved_transaction list \<Rightarrow> block_view \<Rightarrow>
   unit result option" where
  "contextual_rules fuel X C s sw resolved block =
     (let parent_hash = h_parent_hash (b_header block) in
      tryo (Some (ok_or (Block (UnknownParentError parent_hash)) (get_block_header s parent_hash))) (\<lambda>parent.
      tryo (Some (if bv_is_genesis block then Ok (c_genesis_epoch_ext C) else prepare_epoch_ext X C s parent)) (\<lambda>epoch_ext.
      tryo (Some (if disable_epoch sw then Ok () else epoch_verify epoch_ext block)) (\<lambda>_.
      tryo (Some (if disable_uncles sw then Ok () else verify_uncles X C (uncle_context s epoch_ext) block)) (\<lambda>_.
      tryo (Some (if disable_two_phase_commit sw then Ok () else two_phase_commit_verify C s block)) (\<lambda>_.
      tryo (Some (if disable_daoheader sw then Ok () else dao_header_verify X C s resolved parent (bv_header block))) (\<lambda>_.
      if disable_reward sw then Some (Ok ()) else reward_verify fuel X C s resolved parent)))))))"

definition verify_contextual_block ::
  "nat \<Rightarrow> 'z ext_scheme \<Rightarrow> vm \<Rightarrow> (groups \<Rightarrow> script_group list) \<Rightarrow> par_collect \<Rightarrow> ('c, u64) lru \<Rightarrow> ('t, cache_entry) lru \<Rightarrow>
   consensus \<Rightarrow> store \<Rightarrow> 'y verify_switch_scheme \<Rightarrow> resolved_transaction list \<Rightarrow> block_view \<Rightarrow> 't \<Rightarrow>
   ((u64 \<times> cache_entry list) result \<times> 't) option" where
  "verify_contextual_block fuel X M ord R L T C s sw resolved block cache =
     (case contextual_rules fuel X C s sw resolved block of
        None \<Rightarrow> None
      | Some Panic \<Rightarrow> Some (Panic, cache)
      | Some (Err e) \<Rightarrow> Some (Err e, cache)
      | Some (Ok _) \<Rightarrow> Some (verify_block_txs X M ord R L T C s
          \<lparr>sn_block_number = bv_number block, sn_epoch = ef_from_full_value (h_epoch (b_header block)),
             sn_parent_hash = h_parent_hash (b_header block)\<rparr> resolved cache))"

declare collect_proposals.simps [simp del]

section \<open>The window of proposals\<close>

lemma collect_proposals_exact:
  assumes "index_linked s" and "get_block_hash s n = Some h"
  shows "collect_proposals s m n h ids = Ok (ids \<union> (\<Union>k\<in>{max 1 (unat m)..unat n}. ids_at s k))"
  using assms(2)
proof (induction "unat n" arbitrary: n h ids)
  case 0
  then have "n = 0" by (simp add: unat_eq_zero)
  moreover obtain hv where "get_block_header s h = Some hv" "h_number hv = n"
    using assms(1) 0 unfolding index_linked_def by blast
  ultimately show ?case by (simp add: collect_proposals.simps)
next
  case (Suc k)
  obtain hv where hv: "get_block_header s h = Some hv" "h_number hv = n" "h_hash hv = h"
      "n \<noteq> 0 \<longrightarrow> get_block_hash s (n - 1) = Some (h_parent_hash hv)"
    using assms(1) Suc.prems unfolding index_linked_def by blast
  have nz: "n \<noteq> 0" using Suc.hyps(2) by auto
  have k: "k = unat (n - 1)" "unat n = Suc k" using Suc.hyps(2) unat_pred [OF nz] by simp_all
  have here: "ids_at s (Suc k) = get_proposal_ids_by_hash s h" using Suc.prems k(2) unfolding ids_at_def
    by (metis of_nat_unat option.simps(5) ucast_id)
  show ?case
  proof (cases "m \<le> n")
    case True
    then have "collect_proposals s m n h ids = collect_proposals s m (n - 1) (h_parent_hash hv) (ids \<union> get_proposal_ids_by_hash s h)"
      using hv nz by (subst collect_proposals.simps) simp
    also have "\<dots> = Ok (ids \<union> get_proposal_ids_by_hash s h \<union> (\<Union>j\<in>{max 1 (unat m)..k}. ids_at s j))"
      using Suc.hyps(1) [OF k(1)] hv(4) nz k(1) by simp
    also have "{max 1 (unat m)..Suc k} = insert (Suc k) {max 1 (unat m)..k}"
      using True k(2) by (auto simp: word_le_nat_alt)
    then have "ids \<union> get_proposal_ids_by_hash s h \<union> (\<Union>j\<in>{max 1 (unat m)..k}. ids_at s j) =
        ids \<union> (\<Union>j\<in>{max 1 (unat m)..Suc k}. ids_at s j)" using here by auto
    finally show ?thesis unfolding k(2) .
  next
    case False
    then show ?thesis by (auto simp: collect_proposals.simps word_le_nat_alt)
  qed
qed

text \<open>The ids that a block with a given number may commit.\<close>

definition proposed_in_window :: "consensus \<Rightarrow> store \<Rightarrow> nat \<Rightarrow> proposal_short_id set" where
  "proposed_in_window C s n =
     (\<Union>k\<in>{max 1 (n - unat (farthest (c_tx_proposal_window C)))..n - unat (closest (c_tx_proposal_window C))}. ids_at s k)"

lemma two_phase_commit_verify_eq:
  assumes "index_linked s" and "bv_number block \<noteq> 0"
    and "get_block_hash s (saturating_sub (bv_number block) (closest (c_tx_proposal_window C))) \<noteq> None"
  shows "two_phase_commit_verify C s block =
     (if set (map proposal_short_id (drop 1 (bv_transactions block))) \<subseteq> proposed_in_window C s (unat (bv_number block))
      then Ok () else Err (Block (CommitError CommitInvalid)))"
proof -
  obtain h where h: "get_block_hash s (saturating_sub (bv_number block) (closest (c_tx_proposal_window C))) = Some h"
    using assms(3) by blast
  show ?thesis
    using assms(2) unfolding two_phase_commit_verify_def Let_def h
    by (auto simp: collect_proposals_exact [OF assms(1) h] proposed_in_window_def bv_is_genesis_def)
qed

section \<open>Transactions and their cache\<close>

text \<open>The part of the verification of a transaction that does not depend on the position in the chain.\<close>

definition verify_apart_position ::
  "'z ext_scheme \<Rightarrow> vm \<Rightarrow> (groups \<Rightarrow> script_group list) \<Rightarrow> consensus \<Rightarrow> store \<Rightarrow> resolved_transaction \<Rightarrow> u64 \<Rightarrow> cache_entry result" where
  "verify_apart_position X M ord C s rtx max_cycles =
     tryq (tx_version_verify (rtx_transaction rtx) (c_tx_version C)) (\<lambda>_.
     tryq (size_verify X (rtx_transaction rtx) (c_max_block_bytes C)) (\<lambda>_.
     tryq (empty_verify (rtx_transaction rtx)) (\<lambda>_.
     tryq (capacity_verify (c_dao_type_hash C) rtx) (\<lambda>_.
     tryq (duplicate_deps_verify (rtx_transaction rtx)) (\<lambda>_.
     tryq (outputs_data_verify (rtx_transaction rtx)) (\<lambda>_.
     tryq (tx_scripts_verify X M ord s rtx max_cycles) (\<lambda>cycles.
     tryq (fee_calculator_fee X C s rtx) (\<lambda>fee.
     Ok \<lparr>ce_cycles = cycles, ce_fee = fee\<rparr>))))))))"

lemma verify_transaction_split:
  "verify_transaction X M ord L C s tp cnt sn rtx mx = Ok en \<longleftrightarrow>
     verify_contextual_transaction X C L tp cnt sn rtx = Ok () \<and> verify_apart_position X M ord C s rtx mx = Ok en"
  unfolding verify_transaction_def verify_contextual_transaction_def verify_apart_position_def
  by (auto simp: tryq_eq_Ok)

lemma par_collect_Ok: "par_collect_ok R \<Longrightarrow> R rs = Ok xs \<longleftrightarrow> rs = map Ok xs"
  unfolding par_collect_ok_def by blast

lemma map_Ok_iff: "rs = map Ok xs \<longleftrightarrow> list_all2 (\<lambda>r x. r = Ok x) rs xs"
  by (auto simp: list_all2_conv_all_nth intro: nth_equalityI)

lemma verify_block_tx_Ok:
  "verify_block_tx X M ord L C s sn fetched (i, rtx) = Ok (h, en) \<longleftrightarrow> h = tx_hash (rtx_transaction rtx) \<and>
     verify_contextual_transaction X C L (ctx_timestamp_and_parent s) (ctx_median_block_count C) sn rtx = Ok () \<and>
     (case fetched h of Some en' \<Rightarrow> en = en'
      | None \<Rightarrow> verify_apart_position X M ord C s rtx (c_max_block_cycles C) = Ok en)"
  by (auto simp: verify_block_tx_def Let_def outcome_simps verify_transaction_split split: option.splits)

interpretation cycle_sum: checked_adder "p_add :: u64 \<Rightarrow> u64 \<Rightarrow> u64 result" unat "2 ^ 64"
proof
  fix a b c :: u64
  show "p_add a b = (Ok c :: u64 result) \<Longrightarrow> unat c = unat a + unat b" by (simp add: panic_simps)
  show "unat a + unat b < 2 ^ 64 \<Longrightarrow> \<exists>c. p_add a b = (Ok c :: u64 result)"
    by (rule exI [of _ "a + b"]) (simp add: panic_simps unat_add_exact)
  show "unat a < 2 ^ 64" by (rule cap.amount_cap)
qed

definition tx_accepted ::
  "'z ext_scheme \<Rightarrow> vm \<Rightarrow> (groups \<Rightarrow> script_group list) \<Rightarrow> ('c, u64) lru \<Rightarrow> ('t, cache_entry) lru \<Rightarrow> consensus \<Rightarrow> store \<Rightarrow>
   since_context \<Rightarrow> 't \<Rightarrow> resolved_transaction \<Rightarrow> cache_entry \<Rightarrow> bool" where
  "tx_accepted X M ord L T C s sn cache rtx en \<longleftrightarrow>
     verify_contextual_transaction X C L (ctx_timestamp_and_parent s) (ctx_median_block_count C) sn rtx = Ok () \<and>
     (case lru_get T cache (tx_hash (rtx_transaction rtx)) of Some en' \<Rightarrow> en = en'
      | None \<Rightarrow> verify_apart_position X M ord C s rtx (c_max_block_cycles C) = Ok en)"

lemma verify_block_txs_collect:
  assumes "par_collect_ok R"
  shows "R (map (verify_block_tx X M ord L C s sn
       (fetched_cache T cache (map (\<lambda>rtx. tx_hash (rtx_transaction rtx)) resolved))) (enumerate 0 resolved)) = Ok ret \<longleftrightarrow>
     list_all2 (\<lambda>rtx (h, en). h = tx_hash (rtx_transaction rtx) \<and> tx_accepted X M ord L T C s sn cache rtx en) resolved ret"
proof -
  define fetched where "fetched = fetched_cache T cache (map (\<lambda>rtx. tx_hash (rtx_transaction rtx)) resolved)"
  have "verify_block_tx X M ord L C s sn fetched (i, resolved ! i) = Ok p \<longleftrightarrow>
      (case p of (h, en) \<Rightarrow> h = tx_hash (rtx_transaction (resolved ! i)) \<and> tx_accepted X M ord L T C s sn cache (resolved ! i) en)"
    if "i < length resolved" for i p
    using that by (cases p) (auto simp: verify_block_tx_Ok fetched_def fetched_cache_def tx_accepted_def)
  then show ?thesis
    unfolding par_collect_Ok [OF assms] map_Ok_iff list_all2_conv_all_nth fetched_def [symmetric]
    by (simp add: nth_enumerate_eq)
qed

lemma verify_block_txs_Ok:
  assumes "par_collect_ok R"
  shows "fst (verify_block_txs X M ord R L T C s sn resolved cache) = Ok (cyc, ens) \<longleftrightarrow>
     list_all2 (tx_accepted X M ord L T C s sn cache) resolved ens \<and>
     unat cyc = sum_list (map (unat \<circ> ce_cycles) ens) \<and> cyc \<le> c_max_block_cycles C"
proof
  assume "fst (verify_block_txs X M ord R L T C s sn resolved cache) = Ok (cyc, ens)"
  then obtain ret where ret: "list_all2 (\<lambda>rtx (h, en). h = tx_hash (rtx_transaction rtx) \<and>
        tx_accepted X M ord L T C s sn cache rtx en) resolved ret"
      "try_fold p_add 0 (map (ce_cycles \<circ> snd) ret) = (Ok cyc :: u64 result)" "cyc \<le> c_max_block_cycles C" "ens = map snd ret"
    by (auto simp: verify_block_txs_def Let_def verify_block_txs_collect [OF assms] not_less split: outcome.splits if_splits)
  then have "list_all2 (tx_accepted X M ord L T C s sn cache) resolved ens"
    by (auto simp: list_all2_conv_all_nth case_prod_beta)
  moreover have "unat cyc = sum_list (map (unat \<circ> ce_cycles) ens)"
    using cycle_sum.try_fold_sum [OF ret(2)] ret(4) by (simp add: o_assoc)
  ultimately show "list_all2 (tx_accepted X M ord L T C s sn cache) resolved ens \<and>
     unat cyc = sum_list (map (unat \<circ> ce_cycles) ens) \<and> cyc \<le> c_max_block_cycles C" using ret(3) by simp
next
  assume a: "list_all2 (tx_accepted X M ord L T C s sn cache) resolved ens \<and>
     unat cyc = sum_list (map (unat \<circ> ce_cycles) ens) \<and> cyc \<le> c_max_block_cycles C"
  define ret where "ret = zip (map (\<lambda>rtx. tx_hash (rtx_transaction rtx)) resolved) ens"
  have len: "length resolved = length ens" using a by (auto dest: list_all2_lengthD)
  have "list_all2 (\<lambda>rtx (h, en). h = tx_hash (rtx_transaction rtx) \<and>
        tx_accepted X M ord L T C s sn cache rtx en) resolved ret"
    using a len by (auto simp: ret_def list_all2_conv_all_nth)
  moreover have ens: "map snd ret = ens" using len by (simp add: ret_def)
  have sm: "sum_list (map (unat \<circ> ce_cycles) ens) = sum_list (map unat (map (ce_cycles \<circ> snd) ret))"
    unfolding ens [symmetric] by (simp add: o_assoc)
  obtain c where c: "try_fold p_add 0 (map (ce_cycles \<circ> snd) ret) = (Ok c :: u64 result)"
    using cycle_sum.try_fold_fits [of 0 "map (ce_cycles \<circ> snd) ret"] a sm cap.amount_cap [of cyc] by auto
  then have "c = cyc" using cycle_sum.try_fold_sum [OF c] a sm by (simp add: unat_eqI)
  ultimately show "fst (verify_block_txs X M ord R L T C s sn resolved cache) = Ok (cyc, ens)"
    using c ens a unfolding verify_block_txs_def Let_def
    by (simp add: verify_block_txs_collect [OF assms, THEN iffD2] not_less)
qed

section \<open>What the rules guarantee\<close>

text \<open>What the cellbase of the block after \<open>parent\<close> pays.\<close>

definition cellbase_pays :: "nat \<Rightarrow> 'z ext_scheme \<Rightarrow> consensus \<Rightarrow> store \<Rightarrow> header_view \<Rightarrow> transaction_view \<Rightarrow> bool" where
  "cellbase_pays fuel X C s parent cellbase \<longleftrightarrow> (\<exists>lock r lack. block_reward_to_finalize fuel X C s parent = Some (Ok (lock, r)) \<and>
     is_lack_of_capacity (reward_output (br_total r) lock) 0 = Ok lack \<and>
     (if unat (h_number parent) \<le> unat (farthest (c_tx_proposal_window C)) \<or> lack then tx_outputs cellbase = []
      else sum_list (map (\<lambda>out. unat (co_capacity out)) (tx_outputs cellbase)) = unat (br_total r) \<and>
        tx_outputs cellbase \<noteq> [] \<and> co_lock (hd (tx_outputs cellbase)) = lock))"

lemma reward_verify_Ok:
  assumes "reward_verify fuel X C s resolved parent = Some (Ok ())"
  shows "resolved \<noteq> [] \<and> cellbase_pays fuel X C s parent (rtx_transaction (hd resolved))"
proof -
  obtain cellbase n delay lock r lack where
    c: "vec_get resolved 0 = Some cellbase" and n: "p_add (h_number parent) 1 = (Ok n :: u64 result)"
    and d: "finalization_delay_length C = Ok delay"
    and r: "block_reward_to_finalize fuel X C s parent = Some (Ok (lock, r))"
    and lack: "is_lack_of_capacity (reward_output (br_total r) lock) 0 = Ok lack"
    and rest: "(if n \<le> delay \<or> lack then
         Some (if tx_outputs (rtx_transaction cellbase) = [] then Ok () else Err (Block (CellbaseError InvalidRewardTarget)))
       else
         tryo (Some (cap_result (outputs_capacity (rtx_transaction cellbase)))) (\<lambda>capacity.
         if capacity \<noteq> br_total r then Some (Err (Block (CellbaseError InvalidRewardAmount)))
         else tryo (Some (expect (vec_get (tx_outputs (rtx_transaction cellbase)) 0))) (\<lambda>out.
           Some (if co_lock out \<noteq> lock then Err (Block (CellbaseError InvalidRewardTarget)) else Ok ())))) = Some (Ok ())"
    using assms unfolding reward_verify_def Let_def by (auto simp: outcome_simps)
  have hd: "resolved \<noteq> []" "hd resolved = cellbase" using c by (auto simp: hd_conv_nth)
  have le: "n \<le> delay \<longleftrightarrow> unat (h_number parent) \<le> unat (farthest (c_tx_proposal_window C))"
    using n d unfolding finalization_delay_length_def by (simp add: panic_simps word_le_nat_alt)
  show ?thesis
  proof (cases "n \<le> delay \<or> lack")
    case True
    then have "tx_outputs (rtx_transaction cellbase) = []" using rest by (simp split: if_splits)
    then show ?thesis unfolding cellbase_pays_def using r lack True le hd by auto
  next
    case False
    then obtain out where cap: "outputs_capacity (rtx_transaction cellbase) = Ok (br_total r)"
        and out: "vec_get (tx_outputs (rtx_transaction cellbase)) 0 = Some out" "co_lock out = lock"
      using rest by (auto simp: outcome_simps split: if_splits)
    have "sum_list (map (\<lambda>out. unat (co_capacity out)) (tx_outputs (rtx_transaction cellbase))) = unat (br_total r)"
      using cap.try_fold_sum [of 0 "map co_capacity (tx_outputs (rtx_transaction cellbase))"] cap
      by (simp add: outputs_capacity_def total_capacity_def o_def)
    moreover have "tx_outputs (rtx_transaction cellbase) \<noteq> []" "co_lock (hd (tx_outputs (rtx_transaction cellbase))) = lock"
      using out by (auto simp: hd_conv_nth)
    ultimately show ?thesis unfolding cellbase_pays_def using r lack False le hd by auto
  qed
qed

lemma epoch_verify_Ok:
  assumes "epoch_verify e block = Ok ()"
  shows "ef_from_full_value (h_epoch (b_header block)) = ef_new (ee_number e) (bv_number block - ee_start_number e) (ee_length e) \<and>
     ee_start_number e \<le> bv_number block \<and> ee_compact_target e = h_compact_target (b_header block)"
  using assms unfolding epoch_verify_def ee_number_with_fraction_def p_sub_def checked_sub_def
  by (auto simp: outcome_simps Let_def bv_header_def header_view_of_def header.defs bv_number_def split: if_splits)

lemma verify_contextual_block_Ok:
  "verify_contextual_block fuel X M ord R L T C s sw resolved block cache = Some (Ok r, cache') \<longleftrightarrow>
     contextual_rules fuel X C s sw resolved block = Some (Ok ()) \<and>
     verify_block_txs X M ord R L T C s \<lparr>sn_block_number = bv_number block, sn_epoch = ef_from_full_value (h_epoch (b_header block)),
             sn_parent_hash = h_parent_hash (b_header block)\<rparr> resolved cache = (Ok r, cache')"
  unfolding verify_contextual_block_def by (auto split: option.splits outcome.splits)

section \<open>An example\<close>

text \<open>The first block after a genesis block, with a cellbase only.\<close>

definition example_first_epoch :: epoch_ext where
  "example_first_epoch = example_epoch\<lparr>ee_number := 0, ee_start_number := 0, ee_length := 100, ee_base_block_reward := 50\<rparr>"

definition example_root :: header_view where
  "example_root = header_view_of (example_header\<lparr>h_number := 0, h_dao := pack_dao_data 1000 500000 700 100000\<rparr>) (replicate 32 1)"

definition example_root_store :: store where
  "example_root_store = store_empty\<lparr>
     st_header := [replicate 32 1 \<mapsto> example_root],
     st_index_hash := [0 \<mapsto> replicate 32 1],
     st_body := (\<lambda>_. [])(replicate 32 1 := [(0, tx_view example_cellbase_tx (replicate 32 8) (replicate 32 8))]),
     st_ext := [replicate 32 1 \<mapsto> \<lparr>ext_received_at = 0, ext_total_difficulty = 1, ext_total_uncles_count = 0,
       ext_verified = Some True, ext_txs_fees = []\<rparr>],
     st_block_epoch := [replicate 32 1 \<mapsto> byte32_zero],
     st_epoch := [byte32_zero \<mapsto> example_first_epoch]\<rparr>"

definition example_next_block :: block_view where
  "example_next_block = block.extend
     \<lparr>b_header = example_header\<lparr>h_number := 1, h_parent_hash := replicate 32 1, h_epoch := ef_new 0 1 100,
        h_compact_target := 0x20800000, h_uncles_hash := calc_uncle_vec_hash ext_word [],
        h_dao := pack_dao_data 1227398260 613699130187 490958904810 100000\<rparr>,
      b_uncles = [], b_transactions = [example_cellbase_tx], b_proposals = []\<rparr>
     \<lparr>bv_hash = replicate 32 2, bv_uncle_hashes = [], bv_tx_hashes = [replicate 32 9], bv_tx_witness_hashes = [replicate 32 9]\<rparr>"

definition example_next_rtxs :: "resolved_transaction list" where
  "example_next_rtxs = [\<lparr>rtx_transaction = tx_view example_cellbase_tx (replicate 32 9) (replicate 32 9), rtx_cell_deps = [],
     rtx_inputs = [], rtx_dep_groups = []\<rparr>]"

definition switch_none :: verify_switch where
  "switch_none = \<lparr>disable_epoch = False, disable_uncles = False, disable_two_phase_commit = False, disable_daoheader = False,
     disable_reward = False\<rparr>"

definition example_next_consensus :: consensus where
  "example_next_consensus = example_consensus\<lparr>c_max_block_bytes := - 1\<rparr>"

lemma example_root_sel [simp]: "h_number example_root = 0" "h_hash example_root = replicate 32 1"
  "extract_dao_data (h_dao example_root) = Ok (1000, 500000, 700, 100000)"
  by (simp_all add: example_root_def extract_pack)

lemma example_next_sel [simp]: "bv_number example_next_block = 1" "\<not> bv_is_genesis example_next_block"
  "h_parent_hash (b_header example_next_block) = replicate 32 1" "b_uncles example_next_block = []"
  "h_uncles_hash (b_header example_next_block) = calc_uncle_vec_hash ext_word []"
  "h_dao (b_header example_next_block) = pack_dao_data 1227398260 613699130187 490958904810 100000"
  "h_epoch (b_header example_next_block) = ef_new 0 1 100"
  "h_compact_target (b_header example_next_block) = 0x20800000" "drop 1 (bv_transactions example_next_block) = []"
  by (simp_all add: example_next_block_def block.defs bv_number_def bv_is_genesis_def bv_transactions_def)

lemma example_root_store_sel:
  "get_block_header example_root_store (replicate 32 1) = Some example_root"
  "get_block_hash example_root_store 0 = Some (replicate 32 1)"
  "get_block_epoch example_root_store (replicate 32 1) = Some example_first_epoch"
  "Option.bind (get_block_epoch_index example_root_store (replicate 32 1)) (get_epoch_ext example_root_store) = Some example_first_epoch"
  "store_next_epoch_ext ext_word example_root_store example_next_consensus example_first_epoch example_root = Ok None"
  by (simp_all add: example_root_store_def get_block_header_def get_block_hash_def get_block_epoch_def get_block_epoch_index_def
      get_epoch_ext_def store_next_epoch_ext_def next_epoch_ext_def p_add_def checked_add_def p_sub_def checked_sub_def
      example_first_epoch_def Let_def del: replicate.simps)

lemma example_root_linked: "index_linked example_root_store"
  by (auto simp: index_linked_def example_root_store_def get_block_hash_def get_block_header_def split: if_splits)

lemma example_next_dao: "dao_field ext_word example_next_consensus example_root_store example_next_rtxs example_root =
     Ok (pack_dao_data 1227398260 613699130187 490958904810 100000)"
proof -
  have g: "ee_block_reward example_first_epoch 1 = Ok 50"
    by (simp add: ee_block_reward_def example_first_epoch_def example_epoch_def p_add_def checked_add_def)
  have g2: "ee_secondary_block_issuance example_first_epoch 1 (c_secondary_epoch_reward example_next_consensus) = Ok 613698630137"
    by (simp add: ee_secondary_block_issuance_def example_next_consensus_def example_consensus_def example_first_epoch_def p_div_def checked_div_def p_mod_def
        checked_rem_def p_add_def checked_add_def safe_add_def)
  have m: "mul_div 613698630137 100000 500000 = Ok 122739726027" "mul_div 1000 613698630137 500000 = Ok 1227397260"
    by (simp_all add: mul_div_eq_Ok)
  have t: "u64_try_from 122739726027 = Ok 122739726027" "u64_try_from 1227397260 = Ok 1227397260"
    by (simp_all add: u64_try_from_eq_Ok)
  have z: "freed_occupied_capacities example_next_consensus example_next_rtxs = Ok 0" "added_occupied_capacities example_next_rtxs = Ok 0"
      "withdrawed_interests ext_word example_next_consensus example_root_store example_next_rtxs = Ok 0"
    by (simp_all add: freed_occupied_capacities_def added_occupied_capacities_def withdrawed_interests_def example_next_rtxs_def
        input_occupied_capacities_def transaction_maximum_withdraw_def outputs_with_data_def example_cellbase_tx_def
        safe_add_def checked_add_def safe_sub_def checked_sub_def)
  show ?thesis
    by (simp add: dao_field_def z example_root_store_sel g g2 m t p_add_def checked_add_def safe_add_def safe_sub_def checked_sub_def)
qed

lemma example_next_reward: "reward_verify 0 ext_word example_next_consensus example_root_store example_next_rtxs example_root = Some (Ok ())"
proof -
  have w: "farthest (c_tx_proposal_window example_next_consensus) = 10" "closest (c_tx_proposal_window example_next_consensus) = 2"
    by (simp_all add: example_next_consensus_def example_consensus_def)
  have "get_cellbase example_root_store (replicate 32 1) = Some (tx_view example_cellbase_tx (replicate 32 8) (replicate 32 8))"
    by (simp add: get_cellbase_def example_root_store_def)
  then have lock: "target_lock ext_word example_root_store example_root = Ok (cw_lock example_witness)"
    by (simp add: target_lock_def example_cellbase_tx_def example_witness_parses vec_get_def)
  have "\<exists>e. get_block_ext example_root_store (replicate 32 1) = Some e \<and> ext_txs_fees e = []"
    by (simp add: example_root_store_def get_block_ext_def)
  then have fees: "txs_fees example_next_consensus example_root_store example_root = Ok 0" by (auto simp: txs_fees_def)
  have "get_proposal_ids_by_hash example_root_store (replicate 32 1) = {}"
    by (simp add: get_proposal_ids_by_hash_def get_block_proposal_txs_ids_def get_block_uncles_def example_root_store_def store_empty_def)
  then have pays: "proposal_reward 0 example_next_consensus example_root_store example_root example_root = Some (Ok 0)"
    by (simp add: proposal_reward_def Let_def w pw_length_def p_add_def checked_add_def p_sub_def checked_sub_def
        saturating_sub_def reward_loop_unfold pay_committed_def)
  have base: "reward_base_block_reward example_next_consensus example_root_store example_root = Ok (50, 0)"
    by (simp add: reward_base_block_reward_def primary_block_reward_def secondary_block_reward_def example_root_store_sel
        ee_block_reward_def) (simp add: example_first_epoch_def example_epoch_def p_add_def checked_add_def)
  have lack: "is_lack_of_capacity (reward_output 50 (cw_lock example_witness)) 0 = Ok True"
    by (simp add: is_lack_of_capacity_def cell_occupied_capacity_def script_occupied_capacity_def capacity_bytes_def
        checked_mul_def BYTE_SHANNONS_def safe_add_def checked_add_def example_witness_def reward_output_def)
  have fin: "finalize_target example_next_consensus 1 = Ok (Some 0)"
    by (simp add: finalize_target_def finalization_delay_length_def w p_add_def checked_add_def saturating_sub_def word_le_nat_alt)
  have "block_reward_to_finalize 0 ext_word example_next_consensus example_root_store example_root =
      Some (Ok (cw_lock example_witness, \<lparr>br_total = 50, br_primary = 50, br_secondary = 0, br_tx_fee = 0, br_proposal_reward = 0\<rparr>))"
    by (simp add: block_reward_to_finalize_def p_add_def checked_add_def fin example_root_store_sel block_reward_internal_def
        lock fees pays base safe_add_def)
  then show ?thesis
    by (simp add: reward_verify_def vec_get_def example_next_rtxs_def p_add_def checked_add_def finalization_delay_length_def w lack Let_def
        example_cellbase_tx_def)
qed

lemma example_next_rules:
  "contextual_rules 0 ext_word example_next_consensus example_root_store switch_none example_next_rtxs example_next_block = Some (Ok ())"
proof -
  have e: "prepare_epoch_ext ext_word example_next_consensus example_root_store example_root = Ok example_first_epoch"
    by (simp add: prepare_epoch_ext_def example_root_store_sel)
  have "ef_from_full_value (ef_new 0 1 100) = ef_new 0 1 100" by (simp add: ef_from_full_value_def ef_fields_new)
  then have "epoch_verify example_first_epoch example_next_block = Ok ()"
    using example_next_sel(1) unfolding bv_number_def
    by (simp add: epoch_verify_def Let_def bv_header_def header_view_of_def header.defs ee_number_with_fraction_def
        example_first_epoch_def example_epoch_def p_sub_def checked_sub_def)
  moreover have "verify_uncles ext_word example_next_consensus (uncle_context example_root_store example_first_epoch) example_next_block = Ok ()"
    by (simp add: verify_uncles_def Let_def block_calc_uncles_hash_def)
  moreover have "two_phase_commit_verify example_next_consensus example_root_store example_next_block = Ok ()"
    by (subst two_phase_commit_verify_eq [OF example_root_linked])
      (simp_all add: example_next_sel(9) [unfolded One_nat_def] example_root_store_sel saturating_sub_def
        example_next_consensus_def example_consensus_def word_le_nat_alt)
  moreover have "dao_header_verify ext_word example_next_consensus example_root_store example_next_rtxs example_root
      (bv_header example_next_block) = Ok ()"
    by (simp add: dao_header_verify_def example_next_dao bv_header_def)
  ultimately show ?thesis
    by (simp add: contextual_rules_def Let_def example_root_store_sel e example_next_reward switch_none_def)
qed

definition collect_seq :: par_collect where
  "collect_seq rs = try_map (\<lambda>r. r) rs"

lemma collect_seq_ok: "par_collect_ok collect_seq"
proof -
  have "collect_seq rs = Ok xs \<longleftrightarrow> rs = map Ok xs" for rs xs
    unfolding collect_seq_def try_map_eq_Ok map_Ok_iff ..
  moreover have "collect_seq rs = Err e \<Longrightarrow> Err e \<in> set rs" for rs e
    unfolding collect_seq_def by (induction rs) (auto simp: tryq_eq_Err)
  moreover have "collect_seq rs = Panic \<Longrightarrow> Panic \<in> set rs" for rs
    unfolding collect_seq_def using try_map_Panic [of "\<lambda>r. r"] by auto
  ultimately show ?thesis unfolding par_collect_ok_def by blast
qed

definition example_position :: since_context where
  "example_position = \<lparr>sn_block_number = bv_number example_next_block,
     sn_epoch = ef_from_full_value (h_epoch (b_header example_next_block)), sn_parent_hash = h_parent_hash (b_header example_next_block)\<rparr>"

lemma example_cellbase_accepted:
  "tx_accepted ext_word M (map snd) lru_list T example_next_consensus s sn (lru_new T 9) (hd example_next_rtxs)
     \<lparr>ce_cycles = 0, ce_fee = 0\<rparr>" if "lru_ok T"
proof -
  have "lru_get T (lru_new T 9) h = None" for h using that by (simp add: lru_ok_def)
  moreover have "tx_is_cellbase (tx_view example_cellbase_tx a b)" for a b
    by (simp add: tx_is_cellbase_def example_cellbase_tx_def new_cellbase_input_def cell_input_new_def out_point_null_def
        out_point_is_null_def byte32_is_zero_def byte32_zero_def list_all_iff)
  moreover obtain v where v: "scripts_verifier_new ext_word (load_cell_data ext_word s) (hd example_next_rtxs) = Ok v"
    by (auto simp: scripts_verifier_new_def example_next_rtxs_def Let_def)
  moreover have "sv_lock_groups v = []" "sv_type_groups v = []"
    unfolding new_groups(2,3) [OF v]
    by (simp_all add: example_next_rtxs_def build_lock_groups_def build_type_groups_def example_cellbase_tx_def)
  then have "verify_scripts ext_word M (map snd) v mx = Ok 0" for mx by (simp add: verify_scripts_def)
  ultimately show ?thesis
    by (simp add: tx_accepted_def verify_contextual_transaction_def maturity_verify_def since_verify_def verify_apart_position_def
        tx_scripts_verify_def v)
      (simp add: example_next_rtxs_def tx_version_verify_def size_verify_def empty_verify_def capacity_verify_def
        duplicate_deps_verify_def outputs_data_verify_def fee_calculator_fee_def rtx_is_cellbase_def outputs_with_data_def
        example_cellbase_tx_def example_next_consensus_def example_consensus_def)
qed

text \<open>A virtual machine in which every script fails.\<close>

definition example_reject_vm :: vm where
  "example_reject_vm = example_vm\<lparr>vm_run := (\<lambda>rtx g p mx c. Ok (1, c + 500))\<rparr>"

lemma example_reject_scripts: "tx_scripts_verify ext_word example_reject_vm (map snd) store_empty example_pay_rtx mx \<noteq> Ok c"
proof
  assume "tx_scripts_verify ext_word example_reject_vm (map snd) store_empty example_pay_rtx mx = Ok c"
  then obtain v where v: "scripts_verifier_new ext_word (load_cell_data ext_word store_empty) example_pay_rtx = Ok v"
      "verify_scripts ext_word example_reject_vm (map snd) v mx = Ok c"
    by (auto simp: tx_scripts_verify_def outcome_simps)
  have "sv_lock_groups v = [(calc_script_hash ext_word example_lock,
      \<lparr>sg_script = example_lock, sg_input_indices = [0], sg_output_indices = []\<rparr>)]"
    unfolding new_groups(2) [OF v(1)]
    by (simp add: example_pay_rtx_def build_lock_groups_def calc_lock_hash_def push_input_def script_group_new_def)
  then show False using v(2)
    by (auto simp: verify_scripts_def verify_group_cycles_def verify_script_group_def run_group_def example_reject_vm_def
        example_vm_def example_lock_def outcome_simps split: if_splits)
qed

lemma example_next_txs:
  "fst (verify_block_txs ext_word example_vm (map snd) collect_seq lru_list lru_list example_next_consensus example_root_store
     example_position example_next_rtxs (lru_new lru_list 9)) = Ok (0, [\<lparr>ce_cycles = 0, ce_fee = 0\<rparr>])"
  unfolding verify_block_txs_Ok [OF collect_seq_ok]
  using example_cellbase_accepted [OF lru_list_ok] by (simp add: example_next_rtxs_def)

definition example_commit_block :: block_view where
  "example_commit_block = block.extend
     \<lparr>b_header = example_header\<lparr>h_number := 3\<rparr>, b_uncles = [], b_transactions = [example_cellbase_tx, example_tx], b_proposals = []\<rparr>
     \<lparr>bv_hash = replicate 32 7, bv_uncle_hashes = [], bv_tx_hashes = [replicate 32 1, replicate 32 9],
      bv_tx_witness_hashes = [replicate 32 1, replicate 32 9]\<rparr>"

lemma example_commit_sel:
  "bv_number (example_commit_block\<lparr>bv_tx_hashes := hs\<rparr>) = 3" "bv_number example_commit_block = 3"
  "set (map proposal_short_id (drop 1 (bv_transactions (example_commit_block\<lparr>bv_tx_hashes := [replicate 32 1, h]\<rparr>)))) = {take 10 h}"
  "set (map proposal_short_id (drop 1 (bv_transactions example_commit_block))) = {replicate 10 9}"
  by (simp_all add: example_commit_block_def bv_number_def block.defs bv_transactions_def proposal_short_id_def
      proposal_short_id_from_tx_hash_def)

lemma example_ids_at: "ids_at example_reward_store 2 = {replicate 10 9}"
  by (simp add: ids_at_def example_reward_store_def get_block_hash_def get_proposal_ids_by_hash_def
      get_block_proposal_txs_ids_def get_block_uncles_def store_empty_def)

lemma example_commit_window: "proposed_in_window example_reward_consensus example_reward_store 3 = {replicate 10 9}"
proof -
  have w: "{max 1 (3 - unat (1 :: u64))..3 - unat (1 :: u64)} = {2}" by auto
  show ?thesis unfolding proposed_in_window_def example_reward_window w using example_ids_at by simp
qed

lemma example_commit_ok: "two_phase_commit_verify example_reward_consensus example_reward_store example_commit_block = Ok ()"
proof -
  have "get_block_hash example_reward_store 2 \<noteq> None" by (simp add: example_reward_store_def get_block_hash_def)
  then show ?thesis
    by (subst two_phase_commit_verify_eq [OF example_reward_linked], unfold example_commit_sel)
      (simp_all add: example_commit_window example_reward_window saturating_sub_def word_le_nat_alt)
qed

section \<open>Properties\<close>

text \<open>
  C4. What a contextually verified block guarantees with no check disabled: it continues the
  epoch of its parent with the target of that epoch; every transaction after the cellbase was
  proposed inside its window; the NervosDAO field is the one computed from its transactions; the
  cellbase pays the finalized reward to the lock of the target block, or nothing while there is
  no target or the reward cannot hold its cell; every transaction passes the rules of its
  position, and the cycles are the exact sum and within the limit.
\<close>

theorem verified_contextual_block_rules:
  assumes "verify_contextual_block fuel X M ord R L T C s sw resolved block cache = Some (Ok (cycles, entries), cache')"
    and "sw = switch_none" and "par_collect_ok R" and "index_linked s" and "bv_number block \<noteq> 0"
  shows "\<exists>parent e. get_block_header s (h_parent_hash (b_header block)) = Some parent \<and>
     prepare_epoch_ext X C s parent = Ok e \<and>
     ef_from_full_value (h_epoch (b_header block)) = ef_new (ee_number e) (bv_number block - ee_start_number e) (ee_length e) \<and>
     h_compact_target (b_header block) = ee_compact_target e \<and>
     verify_uncles X C (uncle_context s e) block = Ok () \<and>
     set (map proposal_short_id (drop 1 (bv_transactions block))) \<subseteq> proposed_in_window C s (unat (bv_number block)) \<and>
     dao_field X C s resolved parent = Ok (h_dao (b_header block)) \<and>
     resolved \<noteq> [] \<and> cellbase_pays fuel X C s parent (rtx_transaction (hd resolved)) \<and>
     length entries = length resolved \<and>
     (\<forall>rtx\<in>set resolved. verify_contextual_transaction X C L (ctx_timestamp_and_parent s) (ctx_median_block_count C)
        \<lparr>sn_block_number = bv_number block, sn_epoch = ef_from_full_value (h_epoch (b_header block)),
           sn_parent_hash = h_parent_hash (b_header block)\<rparr> rtx = Ok ()) \<and>
     unat cycles = sum_list (map (unat \<circ> ce_cycles) entries) \<and> cycles \<le> c_max_block_cycles C"
proof -
  note ok = assms(1) [unfolded verify_contextual_block_Ok]
  obtain parent e where p: "get_block_header s (h_parent_hash (b_header block)) = Some parent" "prepare_epoch_ext X C s parent = Ok e"
      "epoch_verify e block = Ok ()" "verify_uncles X C (uncle_context s e) block = Ok ()"
      "two_phase_commit_verify C s block = Ok ()" "dao_header_verify X C s resolved parent (bv_header block) = Ok ()"
      "reward_verify fuel X C s resolved parent = Some (Ok ())"
    using ok assms(2,5) by (auto simp: contextual_rules_def Let_def switch_none_def outcome_simps bv_is_genesis_def)
  have "get_block_hash s (saturating_sub (bv_number block) (closest (c_tx_proposal_window C))) \<noteq> None"
    using p(5) assms(5) by (auto simp: two_phase_commit_verify_def Let_def outcome_simps bv_is_genesis_def)
  then have "set (map proposal_short_id (drop 1 (bv_transactions block))) \<subseteq> proposed_in_window C s (unat (bv_number block))"
    using p(5) two_phase_commit_verify_eq [OF assms(4,5)] by (metis outcome.distinct(1))
  moreover have "dao_field X C s resolved parent = Ok (h_dao (b_header block))"
    using p(6) by (auto simp: dao_header_verify_def outcome_simps bv_header_def split: if_splits)
  moreover have txs: "list_all2 (tx_accepted X M ord L T C s \<lparr>sn_block_number = bv_number block,
        sn_epoch = ef_from_full_value (h_epoch (b_header block)), sn_parent_hash = h_parent_hash (b_header block)\<rparr> cache) resolved entries"
      "unat cycles = sum_list (map (unat \<circ> ce_cycles) entries)" "cycles \<le> c_max_block_cycles C"
    using verify_block_txs_Ok [OF assms(3), THEN iffD1] ok by (metis fst_conv)+
  ultimately show ?thesis
    using p(1,2,4) epoch_verify_Ok [OF p(3)] reward_verify_Ok [OF p(7)] list_all2_lengthD [OF txs(1)]
    by (auto simp: list_all2_conv_all_nth in_set_conv_nth tx_accepted_def)
qed

theorem verified_contextual_block_rules_witness:
  "cellbase_pays 0 ext_word example_next_consensus example_root_store example_root (rtx_transaction (hd example_next_rtxs)) \<and>
   dao_field ext_word example_next_consensus example_root_store example_next_rtxs example_root = Ok (h_dao (b_header example_next_block))"
proof -
  let ?cache = "lru_new (lru_list :: (_, cache_entry) lru) 9"
  let ?r = "verify_block_txs ext_word example_vm (map snd) collect_seq lru_list lru_list example_next_consensus example_root_store
      example_position example_next_rtxs ?cache"
  have "verify_contextual_block 0 ext_word example_vm (map snd) collect_seq lru_list lru_list example_next_consensus
      example_root_store switch_none example_next_rtxs example_next_block ?cache = Some (Ok (0, [\<lparr>ce_cycles = 0, ce_fee = 0\<rparr>]), snd ?r)"
    unfolding verify_contextual_block_Ok example_position_def using example_next_rules example_next_txs
    unfolding example_position_def by (simp add: prod_eq_iff)
  from verified_contextual_block_rules [OF this refl collect_seq_ok example_root_linked] show ?thesis
    by (auto simp: example_root_store_sel)
qed

text \<open>
  C12. Two-phase commit is decided exactly: for a block on top of the main chain, with a window
  that excludes the block itself, the loop over the ancestors neither panics nor misses one, and
  the check passes if and only if every committed id was proposed by a main chain block inside
  the window or by an uncle of it.
\<close>

theorem two_phase_commit_exact:
  assumes "index_linked s" and "on_index s parent" and "unat (bv_number block) = Suc (unat (h_number parent))"
    and "closest (c_tx_proposal_window C) \<noteq> 0"
  shows "two_phase_commit_verify C s block =
     (if set (map proposal_short_id (drop 1 (bv_transactions block))) \<subseteq> proposed_in_window C s (unat (bv_number block))
      then Ok () else Err (Block (CommitError CommitInvalid)))"
proof (rule two_phase_commit_verify_eq [OF assms(1)])
  show "bv_number block \<noteq> 0" using assms(3) by auto
  have "0 < unat (closest (c_tx_proposal_window C))" using assms(4) by (simp add: unat_gt_0)
  then have "saturating_sub (bv_number block) (closest (c_tx_proposal_window C)) \<le> h_number parent"
    using assms(3) by (simp add: word_le_nat_alt)
  then show "get_block_hash s (saturating_sub (bv_number block) (closest (c_tx_proposal_window C))) \<noteq> None"
    using index_below [OF assms(1)] assms(2) unfolding on_index_def by fastforce
qed

theorem two_phase_commit_exact_witness:
  "two_phase_commit_verify example_reward_consensus example_reward_store example_commit_block = Ok () \<and>
   two_phase_commit_verify example_reward_consensus example_reward_store
     (example_commit_block\<lparr>bv_tx_hashes := [replicate 32 1, replicate 32 5]\<rparr>) = Err (Block (CommitError CommitInvalid))"
proof -
  have "closest (c_tx_proposal_window example_reward_consensus) \<noteq> 0" by (simp add: example_reward_window)
  note exact = two_phase_commit_exact [OF example_reward_linked example_reward_on_index(1) _ this]
  have "two_phase_commit_verify example_reward_consensus example_reward_store example_commit_block = Ok ()"
    by (subst exact, unfold example_commit_sel) (simp_all add: example_commit_window)
  moreover have "two_phase_commit_verify example_reward_consensus example_reward_store
     (example_commit_block\<lparr>bv_tx_hashes := [replicate 32 1, replicate 32 5]\<rparr>) = Err (Block (CommitError CommitInvalid))"
    by (subst exact, unfold example_commit_sel) (simp_all add: example_commit_window replicate_eq_replicate)
  ultimately show ?thesis ..
qed

text \<open>
  C27. The cache of verified transactions changes no verdict: when every cached entry of a
  transaction is the outcome of verifying it, at whatever position, a block is accepted with the
  cache exactly when it is accepted with an empty cache, with the same cycles and fees.
\<close>

theorem tx_cache_transparent:
  assumes "par_collect_ok R" and "lru_ok T"
    and "\<forall>rtx\<in>set resolved. \<forall>en. lru_get T cache (tx_hash (rtx_transaction rtx)) = Some en \<longrightarrow>
       (\<exists>tp cnt sn'. verify_transaction X M ord L C s tp cnt sn' rtx (c_max_block_cycles C) = Ok en)"
  shows "fst (verify_block_txs X M ord R L T C s sn resolved cache) = Ok r \<longleftrightarrow>
     fst (verify_block_txs X M ord R L T C s sn resolved (lru_new T n)) = Ok r"
proof -
  have "tx_accepted X M ord L T C s sn cache rtx en \<longleftrightarrow> tx_accepted X M ord L T C s sn (lru_new T n) rtx en"
    if "rtx \<in> set resolved" for rtx en
  proof (cases "lru_get T cache (tx_hash (rtx_transaction rtx))")
    case (Some e)
    then have "verify_apart_position X M ord C s rtx (c_max_block_cycles C) = Ok e"
      using assms(3) that by (auto simp: verify_transaction_split)
    then show ?thesis using Some assms(2) by (auto simp: tx_accepted_def lru_ok_def)
  qed (use assms(2) in \<open>simp add: tx_accepted_def lru_ok_def\<close>)
  then have "list_all2 (tx_accepted X M ord L T C s sn cache) resolved ens \<longleftrightarrow>
      list_all2 (tx_accepted X M ord L T C s sn (lru_new T n)) resolved ens" for ens
    by (auto simp: list_all2_conv_all_nth)
  then show ?thesis by (cases r) (simp add: verify_block_txs_Ok [OF assms(1)])
qed

theorem tx_cache_transparent_witness:
  "fst (verify_block_txs ext_word example_vm (map snd) collect_seq lru_list lru_list example_next_consensus example_root_store
     example_position example_next_rtxs (9, [(replicate 32 9, \<lparr>ce_cycles = 0, ce_fee = 0\<rparr>)])) = Ok (0, [\<lparr>ce_cycles = 0, ce_fee = 0\<rparr>])"
proof -
  let ?cache = "(9 :: nat, [(replicate 32 9 :: byte32, \<lparr>ce_cycles = 0, ce_fee = 0\<rparr>)])"
  have acc: "tx_accepted ext_word example_vm (map snd) lru_list lru_list example_next_consensus example_root_store
      example_position (lru_new lru_list 9) (hd example_next_rtxs) \<lparr>ce_cycles = 0, ce_fee = 0\<rparr>"
    by (rule example_cellbase_accepted [OF lru_list_ok])
  then have "verify_transaction ext_word example_vm (map snd) lru_list example_next_consensus example_root_store
      (ctx_timestamp_and_parent example_root_store) (ctx_median_block_count example_next_consensus) example_position
      (hd example_next_rtxs) (c_max_block_cycles example_next_consensus) = Ok \<lparr>ce_cycles = 0, ce_fee = 0\<rparr>"
    unfolding verify_transaction_split by (auto simp: tx_accepted_def lru_list_def split: option.splits)
  then have "\<forall>rtx\<in>set example_next_rtxs. \<forall>en. lru_get lru_list ?cache (tx_hash (rtx_transaction rtx)) = Some en \<longrightarrow>
      (\<exists>tp cnt sn'. verify_transaction ext_word example_vm (map snd) lru_list example_next_consensus example_root_store tp cnt sn' rtx
         (c_max_block_cycles example_next_consensus) = Ok en)"
    by (auto simp: example_next_rtxs_def lru_list_def split: if_splits)
  from tx_cache_transparent [OF collect_seq_ok lru_list_ok this, THEN iffD2, OF example_next_txs] show ?thesis .
qed

text \<open>
  C35. The cache is keyed by the transaction hash, which does not cover the witnesses: once the
  transactions of a block are in the cache, the scripts do not run, so the verdict is the same
  whatever the witnesses are replaced with and whatever the virtual machine would decide.
\<close>

definition with_witnesses :: "bytes list \<Rightarrow> byte32 \<Rightarrow> resolved_transaction \<Rightarrow> resolved_transaction" where
  "with_witnesses ws wh rtx = rtx\<lparr>rtx_transaction := (rtx_transaction rtx)\<lparr>tx_witnesses := ws, tx_witness_hash := wh\<rparr>\<rparr>"

theorem cached_witnesses_unchecked:
  assumes "\<forall>rtx\<in>set resolved. lru_get T cache (tx_hash (rtx_transaction rtx)) \<noteq> None"
  shows "verify_block_txs X M ord R L T C s sn (map (with_witnesses ws wh) resolved) cache =
     verify_block_txs X M' ord' R L T C s sn resolved cache"
proof -
  have ks: "map (\<lambda>rtx. tx_hash (rtx_transaction rtx)) (map (with_witnesses ws wh) resolved) =
      map (\<lambda>rtx. tx_hash (rtx_transaction rtx)) resolved" by (simp add: with_witnesses_def)
  have "verify_block_tx X M ord L C s sn (fetched_cache T cache (map (\<lambda>rtx. tx_hash (rtx_transaction rtx)) resolved))
        (i, with_witnesses ws wh (resolved ! i)) =
      verify_block_tx X M' ord' L C s sn (fetched_cache T cache (map (\<lambda>rtx. tx_hash (rtx_transaction rtx)) resolved)) (i, resolved ! i)"
    if i: "i < length resolved" for i
  proof -
    obtain en where "fetched_cache T cache (map (\<lambda>rtx. tx_hash (rtx_transaction rtx)) resolved)
        (tx_hash (rtx_transaction (resolved ! i))) = Some en"
      using assms i by (fastforce simp: fetched_cache_def)
    then show ?thesis
      by (simp add: verify_block_tx_def Let_def with_witnesses_def verify_contextual_transaction_def maturity_verify_def since_verify_def
          cong: if_cong)
  qed
  then show ?thesis unfolding verify_block_txs_def ks
    by (auto simp: Let_def enumerate_map_upt map_equality_iff nth_enumerate_eq intro!: arg_cong [where f = R] outcome.case_cong)
qed

theorem cached_witnesses_unchecked_witness:
  "fst (verify_block_txs ext_word example_reject_vm (map snd) collect_seq lru_list lru_list example_next_consensus store_empty example_since
     (map (with_witnesses [] byte32_zero) [example_pay_rtx]) (9, [(replicate 32 2, \<lparr>ce_cycles = 501, ce_fee = 1000000000\<rparr>)])) =
   Ok (501, [\<lparr>ce_cycles = 501, ce_fee = 1000000000\<rparr>]) \<and>
   fst (verify_block_txs ext_word example_reject_vm (map snd) collect_seq lru_list lru_list example_next_consensus store_empty example_since
     [example_pay_rtx] (9, [])) \<noteq> Ok (501, [\<lparr>ce_cycles = 501, ce_fee = 1000000000\<rparr>])"
proof -
  let ?cache = "(9 :: nat, [(replicate 32 2 :: byte32, \<lparr>ce_cycles = 501, ce_fee = 1000000000\<rparr>)])"
  have h: "tx_hash (rtx_transaction example_pay_rtx) = replicate 32 2" by (simp add: example_pay_rtx_def tx_view_def transaction.defs)
  have "verify_contextual_transaction ext_word example_next_consensus lru_list (ctx_timestamp_and_parent store_empty)
      (ctx_median_block_count example_next_consensus) example_since example_pay_rtx = Ok ()"
    using example_pay_verifies [unfolded verify_transaction_split] unfolding example_next_consensus_def by blast
  then have "tx_accepted ext_word example_vm (map snd) lru_list lru_list example_next_consensus store_empty example_since ?cache
      example_pay_rtx \<lparr>ce_cycles = 501, ce_fee = 1000000000\<rparr>"
    by (simp add: tx_accepted_def h lru_list_def)
  then have "fst (verify_block_txs ext_word example_vm (map snd) collect_seq lru_list lru_list example_next_consensus store_empty example_since
      [example_pay_rtx] ?cache) = Ok (501, [\<lparr>ce_cycles = 501, ce_fee = 1000000000\<rparr>])"
    by (simp add: verify_block_txs_Ok [OF collect_seq_ok]) (simp add: example_next_consensus_def example_consensus_def)
  moreover have "\<forall>rtx\<in>set [example_pay_rtx]. lru_get lru_list ?cache (tx_hash (rtx_transaction rtx)) \<noteq> None"
    by (simp add: h lru_list_def)
  note cached_witnesses_unchecked [OF this, of ext_word example_reject_vm "map snd" collect_seq lru_list example_next_consensus store_empty
      example_since "[]" byte32_zero example_vm "map snd"]
  moreover have "\<not> tx_accepted ext_word example_reject_vm (map snd) lru_list lru_list example_next_consensus store_empty example_since (9, [])
      example_pay_rtx en" for en
    by (simp add: tx_accepted_def lru_list_def verify_apart_position_def example_reject_scripts outcome_simps)
  ultimately show ?thesis by (simp add: verify_block_txs_Ok [OF collect_seq_ok])
qed

end
