(* ===== verification/Proposal_Table.thy ===== *)
theory Proposal_Table
  imports Contextual_Verifier
begin

text \<open>
  The proposals of the main chain (\<open>util/proposal-table/src/lib.rs\<close>) and their initialisation from
  the store (\<open>shared/src/shared.rs\<close>). The table is a \<open>BTreeMap\<close>: a list of pairs with strictly
  increasing numbers. The view tells the transaction pool which ids the next block may commit;
  the theorems relate it to the commit rule of \<open>Contextual_Verifier\<close>.
\<close>

section \<open>Ordered maps\<close>

datatype range_bound = Included u64 | Excluded u64 | Unbounded

fun above :: "range_bound \<Rightarrow> u64 \<Rightarrow> bool" where
  "above (Included a) k = (a \<le> k)"
| "above (Excluded a) k = (a < k)"
| "above Unbounded k = True"

fun below :: "range_bound \<Rightarrow> u64 \<Rightarrow> bool" where
  "below (Included b) k = (k \<le> b)"
| "below (Excluded b) k = (k < b)"
| "below Unbounded k = True"

text \<open>\<open>BTreeMap::range\<close> panics when the start is after the end, or equal to it with both excluded.\<close>

fun range_panics :: "range_bound \<Rightarrow> range_bound \<Rightarrow> bool" where
  "range_panics (Included a) (Included b) = (b < a)"
| "range_panics (Included a) (Excluded b) = (b < a)"
| "range_panics (Excluded a) (Included b) = (b < a)"
| "range_panics (Excluded a) (Excluded b) = (b \<le> a)"
| "range_panics Unbounded r = False"
| "range_panics l Unbounded = False"

definition btree_range :: "range_bound \<Rightarrow> range_bound \<Rightarrow> (u64 \<times> 'v) list \<Rightarrow> 'v list result" where
  "btree_range l r kvs = (if range_panics l r then Panic else Ok (map snd (filter (\<lambda>(k, _). above l k \<and> below r k) kvs)))"

definition btree_split_off :: "u64 \<Rightarrow> (u64 \<times> 'v) list \<Rightarrow> (u64 \<times> 'v) list" where
  "btree_split_off a kvs = filter (\<lambda>(k, _). a \<le> k) kvs"

section \<open>The table\<close>

record proposal_view =
  pv_gap :: "proposal_short_id set"
  pv_set :: "proposal_short_id set"

definition contains_proposed :: "proposal_view \<Rightarrow> proposal_short_id \<Rightarrow> bool" where
  "contains_proposed v pid \<longleftrightarrow> pid \<in> pv_set v"

definition contains_gap :: "proposal_view \<Rightarrow> proposal_short_id \<Rightarrow> bool" where
  "contains_gap v pid \<longleftrightarrow> pid \<in> pv_gap v"

definition proposal_view_default :: proposal_view where
  "proposal_view_default = \<lparr>pv_gap = {}, pv_set = {}\<rparr>"

record proposal_table =
  pt_table :: "(u64 \<times> proposal_short_id set) list"
  pt_window :: proposal_window

definition pt_new :: "proposal_window \<Rightarrow> proposal_table" where
  "pt_new w = \<lparr>pt_table = [], pt_window = w\<rparr>"

definition pt_insert :: "u64 \<Rightarrow> proposal_short_id set \<Rightarrow> proposal_table \<Rightarrow> bool \<times> proposal_table" where
  "pt_insert number ids t =
     (map_of (pt_table t) number = None, t\<lparr>pt_table := put_sorted number ids (pt_table t)\<rparr>)"

definition pt_remove :: "u64 \<Rightarrow> proposal_table \<Rightarrow> proposal_short_id set option \<times> proposal_table" where
  "pt_remove number t = (map_of (pt_table t) number, t\<lparr>pt_table := filter (\<lambda>(k, _). k \<noteq> number) (pt_table t)\<rparr>)"

definition pt_finalize ::
  "proposal_view \<Rightarrow> u64 \<Rightarrow> proposal_table \<Rightarrow> (proposal_short_id set \<times> proposal_view \<times> proposal_table) result" where
  "pt_finalize origin number t =
     tryq (p_add number 1) (\<lambda>candidate_number.
     let proposal_start = saturating_sub candidate_number (farthest (pt_window t));
         proposal_end = saturating_sub candidate_number (closest (pt_window t));
         t = (if 1 < proposal_start then t\<lparr>pt_table := btree_split_off proposal_start (pt_table t)\<rparr> else t)
     in tryq (if candidate_number \<le> closest (pt_window t) then
                tryq (btree_range Unbounded (Included number) (pt_table t)) (\<lambda>gap. Ok ({}, \<Union>(set gap)))
              else
                tryq (btree_range (Included proposal_start) (Included proposal_end) (pt_table t)) (\<lambda>ids.
                tryq (btree_range (Excluded proposal_end) (Included number) (pt_table t)) (\<lambda>gap.
                Ok (\<Union>(set ids), \<Union>(set gap))))) (\<lambda>(new_ids, gap).
        Ok (pv_set origin - new_ids, \<lparr>pv_gap = gap, pv_set = new_ids\<rparr>, t)))"

section \<open>Initialisation\<close>

definition init_proposal_table :: "store \<Rightarrow> consensus \<Rightarrow> (proposal_table \<times> proposal_view) result" where
  "init_proposal_table s C =
     (let proposal_window = c_tx_proposal_window C in
      tryq (expect (get_tip_header s)) (\<lambda>tip.
      let tip_number = h_number tip;
          proposal_start = saturating_sub tip_number (farthest proposal_window);
          proposal_ids = fold (\<lambda>bn t.
            case get_block_hash s bn of
              None \<Rightarrow> t
            | Some hash \<Rightarrow> snd (pt_insert bn (get_proposal_ids_by_hash s hash) t))
            (map of_nat [unat proposal_start..<Suc (unat tip_number)]) (pt_new proposal_window)
      in tryq (pt_finalize proposal_view_default tip_number proposal_ids) (\<lambda>(_, proposals, proposal_ids).
         Ok (proposal_ids, proposals))))"

section \<open>The table as a map\<close>

definition pt_wf :: "proposal_table \<Rightarrow> bool" where
  "pt_wf t \<longleftrightarrow> sorted_wrt (<) (map fst (pt_table t))"

lemma put_sorted_keys: "(\<forall>x\<in>set (put_sorted k v kvs). P (fst x)) \<longleftrightarrow> P k \<and> (\<forall>x\<in>set kvs. P (fst x))"
  by (induction k v kvs rule: put_sorted.induct) auto

lemma put_sorted_sorted: "sorted_wrt (<) (map fst kvs) \<Longrightarrow> sorted_wrt (<) (map fst (put_sorted k v kvs))"
  by (induction k v kvs rule: put_sorted.induct) (auto simp: put_sorted_keys dest: order.strict_trans)

lemma map_of_put_sorted: "sorted_wrt (<) (map fst kvs) \<Longrightarrow> map_of (put_sorted k v kvs) = (map_of kvs)(k \<mapsto> v)"
proof (induction kvs)
  case (Cons x kvs)
  have "map_of kvs k = None" if "k < fst x" using Cons.prems that by (force simp: map_of_eq_None_iff)
  then show ?case using Cons by (cases x) (auto simp: fun_eq_iff)
qed auto

lemma sorted_filter: "sorted_wrt (<) (map fst kvs) \<Longrightarrow> sorted_wrt (<) (map fst (filter P kvs))"
  by (induction kvs) auto

lemma map_of_filter_keys: "map_of (filter (\<lambda>(k, _). P k) kvs) k = (if P k then map_of kvs k else None)"
  by (induction kvs) auto

lemma sorted_distinct: "sorted_wrt (<) ks \<Longrightarrow> distinct (ks :: u64 list)"
  by (simp add: strict_sorted_iff)

lemma range_union:
  fixes kvs :: "(u64 \<times> 'v set) list"
  assumes "sorted_wrt (<) (map fst kvs)"
  shows "\<Union>(set (map snd (filter (\<lambda>(k, _). P k) kvs))) = (\<Union>k\<in>{k. P k}. case map_of kvs k of None \<Rightarrow> {} | Some ids \<Rightarrow> ids)"
proof -
  have m: "(k, ids) \<in> set kvs \<longleftrightarrow> map_of kvs k = Some ids" for k ids
    using map_of_eq_Some_iff [OF sorted_distinct [OF assms]] by simp
  have r: "\<Union>(set (map snd (filter (\<lambda>(k, _). P k) kvs))) = (\<Union>k\<in>{k. P k}. \<Union>{ids. (k, ids) \<in> set kvs})" by force
  have "\<Union>{ids. (k, ids) \<in> set kvs} = (case map_of kvs k of None \<Rightarrow> {} | Some ids \<Rightarrow> ids)" for k
    unfolding m by (cases "map_of kvs k") auto
  then show ?thesis unfolding r by simp
qed

lemma btree_range_union:
  fixes kvs :: "(u64 \<times> 'v set) list"
  assumes "sorted_wrt (<) (map fst kvs)" and "\<not> range_panics l r"
  obtains vs where "btree_range l r kvs = Ok vs"
    and "\<Union>(set vs) = (\<Union>k\<in>{k. above l k \<and> below r k}. case map_of kvs k of None \<Rightarrow> {} | Some ids \<Rightarrow> ids)"
  using assms(2) range_union [OF assms(1)] unfolding btree_range_def by simp

text \<open>The table holds the proposals of the main chain blocks with the numbers from \<open>lo\<close> to \<open>hi\<close>, and none for the genesis block.\<close>

definition pt_agrees :: "store \<Rightarrow> nat \<Rightarrow> nat \<Rightarrow> (u64 \<times> proposal_short_id set) list \<Rightarrow> bool" where
  "pt_agrees s lo hi kvs \<longleftrightarrow> (\<forall>k. max 1 lo \<le> unat k \<and> unat k \<le> hi \<longrightarrow> map_of kvs k = Some (ids_at s (unat k))) \<and>
     (\<forall>ids. map_of kvs 0 = Some ids \<longrightarrow> ids = {})"

lemma range_ids:
  assumes "pt_agrees s lo hi kvs" and "lo \<le> max 1 a" and "b \<le> hi" and "hi < 2 ^ 64"
  shows "(\<Union>k\<in>{k. a \<le> unat k \<and> unat k \<le> b}. case map_of kvs k of None \<Rightarrow> {} | Some ids \<Rightarrow> ids) = (\<Union>k\<in>{max 1 a..b}. ids_at s k)"
proof -
  have one: "(case map_of kvs k of None \<Rightarrow> {} | Some ids \<Rightarrow> ids) = (if k = 0 then {} else ids_at s (unat k))"
    if "a \<le> unat k" "unat k \<le> b" for k
    using assms(1-3) that unat_gt_0 [of k] by (auto simp: pt_agrees_def max_def split: option.splits if_splits)
  have "(\<Union>k\<in>{k. a \<le> unat k \<and> unat k \<le> b}. case map_of kvs k of None \<Rightarrow> {} | Some ids \<Rightarrow> ids) =
      (\<Union>k\<in>{k :: u64. a \<le> unat k \<and> unat k \<le> b}. if k = 0 then {} else ids_at s (unat k))"
    by (rule SUP_cong) (use one in auto)
  also have "\<dots> = (\<Union>j\<in>{max 1 a..b}. ids_at s j)"
  proof (intro equalityI subsetI)
    fix x assume "x \<in> (\<Union>k\<in>{k :: u64. a \<le> unat k \<and> unat k \<le> b}. if k = 0 then {} else ids_at s (unat k))"
    then obtain k :: u64 where "a \<le> unat k" "unat k \<le> b" "k \<noteq> 0" "x \<in> ids_at s (unat k)" by (auto split: if_splits)
    moreover from this have "max 1 a \<le> unat k" using unat_gt_0 [of k] by simp
    ultimately show "x \<in> (\<Union>j\<in>{max 1 a..b}. ids_at s j)" by auto
  next
    fix x assume "x \<in> (\<Union>j\<in>{max 1 a..b}. ids_at s j)"
    then obtain j where j: "max 1 a \<le> j" "j \<le> b" "x \<in> ids_at s j" by auto
    then have "unat (of_nat j :: u64) = j" using assms(3,4) by (simp add: unat_of_nat)
    moreover from this have "(of_nat j :: u64) \<noteq> 0" using j by auto
    ultimately show "x \<in> (\<Union>k\<in>{k :: u64. a \<le> unat k \<and> unat k \<le> b}. if k = 0 then {} else ids_at s (unat k))"
      using j by (intro UN_I [of "of_nat j"]) auto
  qed
  finally show ?thesis .
qed

lemma pt_finalize_correct:
  fixes n :: u64
  assumes "pt_wf t" and "pt_window t = c_tx_proposal_window C" and "unat n + 1 < 2 ^ 64"
    and "closest (pt_window t) \<noteq> 0" and "closest (pt_window t) \<le> farthest (pt_window t)"
    and "pt_agrees s (unat n + 1 - unat (farthest (pt_window t))) (unat n) (pt_table t)"
  shows "\<exists>t'. pt_finalize origin n t = Ok (pv_set origin - proposed_in_window C s (unat n + 1),
       \<lparr>pv_gap = (\<Union>k\<in>{max 1 (unat n + 2 - unat (closest (pt_window t)))..unat n}. ids_at s k),
        pv_set = proposed_in_window C s (unat n + 1)\<rparr>, t') \<and>
     pt_wf t' \<and> pt_window t' = pt_window t \<and> pt_agrees s (unat n + 1 - unat (farthest (pt_window t))) (unat n) (pt_table t')"
proof -
  let ?c = "closest (pt_window t)" and ?f = "farthest (pt_window t)"
  define cand where "cand = n + 1"
  have cand: "p_add n 1 = (Ok cand :: u64 result)" "unat cand = unat n + 1"
    using assms(3) by (simp_all add: cand_def panic_simps unat_add_exact)
  have ord: "0 < unat ?c" "unat ?c \<le> unat ?f" using assms(4,5) by (simp_all add: unat_gt_0 word_le_nat_alt)
  define st where "st = saturating_sub cand ?f"
  define en where "en = saturating_sub cand ?c"
  have se: "unat st = unat n + 1 - unat ?f" "unat en = unat n + 1 - unat ?c" by (simp_all add: st_def en_def cand)
  define t1 where "t1 = (if 1 < st then t\<lparr>pt_table := btree_split_off st (pt_table t)\<rparr> else t)"
  have w1: "pt_window t1 = pt_window t" by (simp add: t1_def)
  have wf1: "sorted_wrt (<) (map fst (pt_table t1))" using assms(1) sorted_filter
    by (auto simp: t1_def pt_wf_def btree_split_off_def)
  have same: "map_of (pt_table t1) k = map_of (pt_table t) k" if "unat st \<le> unat k" for k
    using that by (simp add: t1_def btree_split_off_def map_of_filter_keys word_le_nat_alt)
  have ag: "pt_agrees s (unat st) (unat n) (pt_table t1)"
    using assms(6) same unfolding pt_agrees_def se(1)
    by (auto simp: t1_def btree_split_off_def map_of_filter_keys split: if_splits)
  have win: "proposed_in_window C s (unat n + 1) = (\<Union>k\<in>{max 1 (unat st)..unat en}. ids_at s k)"
    using assms(2) by (simp add: proposed_in_window_def se)
  have "unat n < 2 ^ 64" using assms(3) by simp
  note ids = range_ids [OF ag _ _ this]
  have "(if cand \<le> ?c then tryq (btree_range Unbounded (Included n) (pt_table t1)) (\<lambda>gap. Ok ({}, \<Union>(set gap)))
      else tryq (btree_range (Included st) (Included en) (pt_table t1)) (\<lambda>ids.
           tryq (btree_range (Excluded en) (Included n) (pt_table t1)) (\<lambda>gap. Ok (\<Union>(set ids), \<Union>(set gap))))) =
      (Ok (proposed_in_window C s (unat n + 1), \<Union>k\<in>{max 1 (unat n + 2 - unat ?c)..unat n}. ids_at s k) ::
        (proposal_short_id set \<times> proposal_short_id set) result)"
  proof (cases "cand \<le> ?c")
    case True
    then have "unat en = 0" "unat st = 0" "unat n + 2 - unat ?c \<le> 1" using se cand ord by (simp_all add: word_le_nat_alt)
    moreover obtain gap where "btree_range Unbounded (Included n) (pt_table t1) = Ok gap"
        "\<Union>(set gap) = (\<Union>k\<in>{k. above Unbounded k \<and> below (Included n) k}. case map_of (pt_table t1) k of None \<Rightarrow> {} | Some ids \<Rightarrow> ids)"
      by (rule btree_range_union [OF wf1, of Unbounded "Included n"]) simp_all
    ultimately show ?thesis using True ids [of 0 "unat n"] unfolding win by (simp add: word_le_nat_alt max_def)
  next
    case False
    then have e: "unat en \<le> unat n" "unat st \<le> unat en" "unat n + 2 - unat ?c = Suc (unat en)"
      using se cand ord by (auto simp: word_le_nat_alt)
    obtain vs where "btree_range (Included st) (Included en) (pt_table t1) = Ok vs"
        "\<Union>(set vs) = (\<Union>k\<in>{k. above (Included st) k \<and> below (Included en) k}. case map_of (pt_table t1) k of None \<Rightarrow> {} | Some ids \<Rightarrow> ids)"
      by (rule btree_range_union [OF wf1, of "Included st" "Included en"]) (use e in \<open>simp_all add: word_less_nat_alt\<close>)
    moreover obtain gap where "btree_range (Excluded en) (Included n) (pt_table t1) = Ok gap"
        "\<Union>(set gap) = (\<Union>k\<in>{k. above (Excluded en) k \<and> below (Included n) k}. case map_of (pt_table t1) k of None \<Rightarrow> {} | Some ids \<Rightarrow> ids)"
      by (rule btree_range_union [OF wf1, of "Excluded en" "Included n"]) (use e in \<open>simp_all add: word_less_nat_alt\<close>)
    ultimately show ?thesis using False e ids [of "unat st" "unat en"] ids [of "Suc (unat en)" "unat n"] unfolding win
      by (simp add: word_le_nat_alt word_less_nat_alt Suc_le_eq)
  qed
  then have "pt_finalize origin n t = Ok (pv_set origin - proposed_in_window C s (unat n + 1),
       \<lparr>pv_gap = (\<Union>k\<in>{max 1 (unat n + 2 - unat ?c)..unat n}. ids_at s k), pv_set = proposed_in_window C s (unat n + 1)\<rparr>, t1)"
    unfolding pt_finalize_def cand(1) tryq.simps Let_def st_def [symmetric] en_def [symmetric] t1_def [symmetric] w1 by simp
  then show ?thesis using wf1 w1 ag unfolding pt_wf_def se(1) by (intro exI [of _ t1] conjI) assumption+
qed

lemma pt_insert_wf: "pt_wf t \<Longrightarrow> pt_wf (snd (pt_insert n ids t))"
  by (simp add: pt_wf_def pt_insert_def put_sorted_sorted)

lemma pt_insert_lookup: "pt_wf t \<Longrightarrow> map_of (pt_table (snd (pt_insert n ids t))) = (map_of (pt_table t))(n \<mapsto> ids)"
  by (simp add: pt_wf_def pt_insert_def map_of_put_sorted)

lemma pt_remove_wf: "pt_wf t \<Longrightarrow> pt_wf (snd (pt_remove n t))"
  by (simp add: pt_wf_def pt_remove_def sorted_filter)

lemma pt_remove_lookup: "map_of (pt_table (snd (pt_remove n t))) = (map_of (pt_table t))(n := None)"
  by (auto simp: pt_remove_def map_of_filter_keys)

lemma pt_finalize_wf: "pt_wf t \<Longrightarrow> pt_finalize origin n t = Ok (removed, view, t') \<Longrightarrow> pt_wf t'"
  by (auto simp: pt_finalize_def Let_def outcome_simps pt_wf_def btree_split_off_def sorted_filter split: if_splits)

lemma fold_insert_blocks:
  defines "step \<equiv> \<lambda>s bn t. case get_block_hash s bn of None \<Rightarrow> t
     | Some hash \<Rightarrow> snd (pt_insert bn (get_proposal_ids_by_hash s hash) t)"
  assumes "pt_wf t" and "\<forall>bn\<in>set ns. get_block_hash s bn \<noteq> None"
  shows "pt_wf (fold (step s) ns t) \<and> pt_window (fold (step s) ns t) = pt_window t \<and>
     map_of (pt_table (fold (step s) ns t)) k = (if k \<in> set ns then Some (ids_at s (unat k)) else map_of (pt_table t) k)"
  using assms(2,3)
proof (induction ns arbitrary: t)
  case (Cons n ns)
  obtain h where h: "get_block_hash s n = Some h" using Cons.prems(2) by auto
  let ?t = "snd (pt_insert n (get_proposal_ids_by_hash s h) t)"
  have st: "step s n t = ?t" by (simp add: step_def h)
  have "ids_at s (unat n) = get_proposal_ids_by_hash s h" by (simp add: ids_at_def h)
  moreover have "pt_window ?t = pt_window t" by (simp add: pt_insert_def)
  ultimately show ?case
    using Cons.IH [OF pt_insert_wf [OF Cons.prems(1)]] Cons.prems pt_insert_lookup [OF Cons.prems(1)] unfolding fold_simps st
    by auto
qed auto

lemma init_proposal_table_eq:
  assumes "index_linked s" and "get_tip_header s = Some tip" and "on_index s tip" and "ids_at s 0 = {}"
    and "unat (h_number tip) + 1 < 2 ^ 64"
    and "closest (c_tx_proposal_window C) \<noteq> 0" and "closest (c_tx_proposal_window C) \<le> farthest (c_tx_proposal_window C)"
  shows "\<exists>t. init_proposal_table s C = Ok (t,
       \<lparr>pv_gap = (\<Union>k\<in>{max 1 (unat (h_number tip) + 2 - unat (closest (c_tx_proposal_window C)))..unat (h_number tip)}. ids_at s k),
        pv_set = proposed_in_window C s (unat (h_number tip) + 1)\<rparr>) \<and>
     pt_wf t \<and> pt_window t = c_tx_proposal_window C \<and>
     pt_agrees s (unat (h_number tip) + 1 - unat (farthest (c_tx_proposal_window C))) (unat (h_number tip)) (pt_table t)"
proof -
  let ?w = "c_tx_proposal_window C" and ?n = "h_number tip"
  let ?ns = "map of_nat [unat (saturating_sub ?n (farthest ?w))..<Suc (unat ?n)] :: u64 list"
  define t where "t = fold (\<lambda>bn t. case get_block_hash s bn of None \<Rightarrow> t
       | Some hash \<Rightarrow> snd (pt_insert bn (get_proposal_ids_by_hash s hash) t)) ?ns (pt_new ?w)"
  have mem: "k \<in> set ?ns \<longleftrightarrow> unat ?n - unat (farthest ?w) \<le> unat k \<and> unat k \<le> unat ?n" for k :: u64
  proof -
    have small: "unat (of_nat j :: u64) = j" if "j \<le> unat ?n" for j
      using that assms(5) by (simp add: unat_of_nat)
    have "set ?ns = of_nat ` {unat ?n - unat (farthest ?w)..unat ?n}" by (simp add: atLeastLessThanSuc_atLeastAtMost del: upt_Suc)
    moreover have "k \<in> of_nat ` {a..unat ?n} \<longleftrightarrow> a \<le> unat k \<and> unat k \<le> unat ?n" for a
    proof
      assume "a \<le> unat k \<and> unat k \<le> unat ?n"
      then show "k \<in> of_nat ` {a..unat ?n}" by (intro image_eqI [of _ _ "unat k"]) simp_all
    qed (use small in auto)
    ultimately show ?thesis by blast
  qed
  have "\<forall>bn\<in>set ?ns. get_block_hash s bn \<noteq> None"
  proof
    fix bn assume "bn \<in> set ?ns"
    then have "bn \<le> ?n" unfolding mem by (simp add: word_le_nat_alt)
    moreover have "get_block_hash s ?n = Some (h_hash tip)" using assms(3) by (simp add: on_index_def)
    ultimately show "get_block_hash s bn \<noteq> None" using index_below [OF assms(1)] by blast
  qed
  from fold_insert_blocks [OF _ this, of "pt_new ?w"]
  have t: "pt_wf t" "pt_window t = ?w" "map_of (pt_table t) k = (if k \<in> set ?ns then Some (ids_at s (unat k)) else None)" for k
    unfolding t_def [symmetric] by (simp_all add: pt_wf_def pt_new_def)
  have ag: "pt_agrees s (unat ?n + 1 - unat (farthest (pt_window t))) (unat ?n) (pt_table t)"
    unfolding pt_agrees_def t(2,3) mem using assms(4) by auto
  obtain t' where t': "pt_finalize proposal_view_default ?n t = Ok (pv_set proposal_view_default - proposed_in_window C s (unat ?n + 1),
       \<lparr>pv_gap = (\<Union>k\<in>{max 1 (unat ?n + 2 - unat (closest ?w))..unat ?n}. ids_at s k), pv_set = proposed_in_window C s (unat ?n + 1)\<rparr>, t')"
      "pt_wf t'" "pt_window t' = ?w" "pt_agrees s (unat ?n + 1 - unat (farthest ?w)) (unat ?n) (pt_table t')"
    using pt_finalize_correct [OF t(1,2) assms(5) _ _ ag, of proposal_view_default] assms(6,7) unfolding t(2) by blast
  have "init_proposal_table s C = Ok (t',
       \<lparr>pv_gap = (\<Union>k\<in>{max 1 (unat ?n + 2 - unat (closest ?w))..unat ?n}. ids_at s k), pv_set = proposed_in_window C s (unat ?n + 1)\<rparr>)"
    unfolding init_proposal_table_def assms(2) expect.simps tryq.simps Let_def t_def [symmetric] t'(1) by simp
  then show ?thesis using t'(2-4) by blast
qed

section \<open>Properties\<close>

text \<open>
  C13. The view of the proposals and the commit rule agree: when the table holds the proposals of
  the main chain blocks of the window, finalizing it at the tip does not panic, and a block on top
  of the tip passes the two-phase commit check exactly when the view contains every id that the
  block commits; the new table again holds the proposals of the window.
\<close>

theorem proposal_view_matches_commit_rule:
  assumes "index_linked s" and "on_index s tip" and "unat (bv_number block) = Suc (unat (h_number tip))"
    and "pt_wf t" and "pt_window t = c_tx_proposal_window C"
    and "closest (pt_window t) \<noteq> 0" and "closest (pt_window t) \<le> farthest (pt_window t)"
    and "pt_agrees s (unat (h_number tip) + 1 - unat (farthest (pt_window t))) (unat (h_number tip)) (pt_table t)"
  shows "\<exists>removed view t'. pt_finalize origin (h_number tip) t = Ok (removed, view, t') \<and>
     two_phase_commit_verify C s block =
       (if \<forall>tx\<in>set (drop 1 (bv_transactions block)). contains_proposed view (proposal_short_id tx) then Ok ()
        else Err (Block (CommitError CommitInvalid))) \<and>
     removed = pv_set origin - pv_set view \<and> pt_wf t' \<and>
     pt_agrees s (unat (h_number tip) + 1 - unat (farthest (pt_window t))) (unat (h_number tip)) (pt_table t')"
proof -
  have n: "unat (h_number tip) + 1 = unat (bv_number block)" using assms(3) by simp
  have lim: "unat (h_number tip) + 1 < 2 ^ 64" unfolding n by (rule cap.amount_cap)
  obtain t' where t': "pt_finalize origin (h_number tip) t = Ok (pv_set origin - proposed_in_window C s (unat (h_number tip) + 1),
       \<lparr>pv_gap = (\<Union>k\<in>{max 1 (unat (h_number tip) + 2 - unat (closest (pt_window t)))..unat (h_number tip)}. ids_at s k),
        pv_set = proposed_in_window C s (unat (h_number tip) + 1)\<rparr>, t')" "pt_wf t'"
      "pt_agrees s (unat (h_number tip) + 1 - unat (farthest (pt_window t))) (unat (h_number tip)) (pt_table t')"
    using pt_finalize_correct [OF assms(4,5) lim assms(6-8), of origin] by blast
  have "closest (c_tx_proposal_window C) \<noteq> 0" using assms(5,6) by simp
  moreover have "saturating_sub (bv_number block) (closest (c_tx_proposal_window C)) \<le> h_number tip"
    using assms(3) calculation unat_gt_0 [of "closest (c_tx_proposal_window C)"] by (simp add: word_le_nat_alt)
  then have "get_block_hash s (saturating_sub (bv_number block) (closest (c_tx_proposal_window C))) \<noteq> None"
    using index_below [OF assms(1)] assms(2) unfolding on_index_def by blast
  moreover have "bv_number block \<noteq> 0" using assms(3) by auto
  ultimately have "two_phase_commit_verify C s block =
      (if set (map proposal_short_id (drop 1 (bv_transactions block))) \<subseteq> proposed_in_window C s (unat (h_number tip) + 1)
       then Ok () else Err (Block (CommitError CommitInvalid)))"
    unfolding n using two_phase_commit_verify_eq [OF assms(1)] by blast
  then show ?thesis using t' by (auto simp: contains_proposed_def image_subset_iff)
qed

theorem proposal_view_matches_commit_rule_witness:
  "\<exists>removed view t'. pt_finalize proposal_view_default 2
       \<lparr>pt_table = [(2, {replicate 10 9})], pt_window = ProposalWindow 1 1\<rparr> = Ok (removed, view, t') \<and>
     contains_proposed view (replicate 10 9) \<and> pt_wf t'"
proof -
  let ?t = "\<lparr>pt_table = [(2 :: u64, {replicate 10 (9 :: u8)})], pt_window = ProposalWindow 1 1\<rparr>"
  have n: "unat (bv_number example_commit_block) = Suc (unat (h_number (example_numbered 2 2)))"
    by (simp add: example_commit_sel)
  have ag: "pt_agrees example_reward_store (unat (h_number (example_numbered 2 2)) + 1 - unat (farthest (pt_window ?t)))
      (unat (h_number (example_numbered 2 2))) (pt_table ?t)"
    unfolding pt_agrees_def
  proof (intro conjI allI impI)
    fix k :: u64 assume k: "max 1 (unat (h_number (example_numbered 2 2)) + 1 - unat (farthest (pt_window ?t))) \<le> unat k \<and>
        unat k \<le> unat (h_number (example_numbered 2 2))"
    then have "unat k = 2" by simp
    then have "k = 2" by (intro unat_eqI) simp
    then show "map_of (pt_table ?t) k = Some (ids_at example_reward_store (unat k))" using example_ids_at by simp
  qed auto
  note example_commit_ok
  moreover have "\<exists>removed view t'. pt_finalize proposal_view_default (h_number (example_numbered 2 2)) ?t = Ok (removed, view, t') \<and>
     two_phase_commit_verify example_reward_consensus example_reward_store example_commit_block =
       (if \<forall>tx\<in>set (drop 1 (bv_transactions example_commit_block)). contains_proposed view (proposal_short_id tx) then Ok ()
        else Err (Block (CommitError CommitInvalid))) \<and>
     removed = pv_set proposal_view_default - pv_set view \<and> pt_wf t' \<and>
     pt_agrees example_reward_store (unat (h_number (example_numbered 2 2)) + 1 - unat (farthest (pt_window ?t)))
       (unat (h_number (example_numbered 2 2))) (pt_table t')"
    by (rule proposal_view_matches_commit_rule [OF example_reward_linked example_reward_on_index(1) n _ _ _ _ ag])
      (simp_all add: pt_wf_def example_reward_consensus_def)
  ultimately obtain removed view t' where "pt_finalize proposal_view_default 2 ?t = Ok (removed, view, t')" "pt_wf t'"
      "\<forall>pid\<in>set (map proposal_short_id (drop 1 (bv_transactions example_commit_block))). contains_proposed view pid"
    by (auto split: if_splits)
  then show ?thesis unfolding example_commit_sel by blast
qed



end
