(* ===== verification/Chain.thy ===== *)
theory Chain
  imports Cell_Set Proposal_Table
begin

text \<open>
  The chain service (\<open>chain/src/chain.rs\<close>): finding the fork between the main chain and a heavier
  branch, rolling the main chain back, verifying and attaching the branch, and accepting a block.
  A database transaction is the store that the function passes on; it is dropped when the block is
  refused and becomes the store of the service when it is committed. The database does not fail.
  The notifications of the other services, the metrics and the logging are not modelled.
\<close>

section \<open>Fork changes\<close>

record fork_changes =
  attached_blocks :: "block_view list"
  detached_blocks :: "block_view list"
  detached_proposal_id :: "proposal_short_id set"
  dirty_exts :: "block_ext list"

definition fork_default :: fork_changes where
  "fork_default = \<lparr>attached_blocks = [], detached_blocks = [], detached_proposal_id = {}, dirty_exts = []\<rparr>"

definition has_detached :: "fork_changes \<Rightarrow> bool" where
  "has_detached fork \<longleftrightarrow> detached_blocks fork \<noteq> []"

definition verified_len :: "fork_changes \<Rightarrow> nat result" where
  "verified_len fork =
     (if length (dirty_exts fork) \<le> length (attached_blocks fork)
      then Ok (length (attached_blocks fork) - length (dirty_exts fork)) else Panic)"

record global_index =
  gi_number :: u64
  gi_hash :: byte32
  gi_unseen :: bool

definition gi_forward :: "byte32 \<Rightarrow> global_index \<Rightarrow> global_index result" where
  "gi_forward h index = tryq (p_sub (gi_number index) 1) (\<lambda>n. Ok (index\<lparr>gi_number := n, gi_hash := h\<rparr>))"

section \<open>Finding the fork\<close>

definition load_block :: "store \<Rightarrow> byte32 \<Rightarrow> block_view result" where
  "load_block s h = tryq (get_block s h) expect"

definition detach_number :: "store \<Rightarrow> fork_changes \<Rightarrow> u64 \<Rightarrow> fork_changes result" where
  "detach_number s fork bn =
     tryq (expect (get_block_hash s bn)) (\<lambda>hash.
     tryq (load_block s hash) (\<lambda>old_block.
     Ok (fork\<lparr>detached_blocks := old_block # detached_blocks fork\<rparr>)))"

definition mark_unseen :: "store \<Rightarrow> fork_changes \<Rightarrow> global_index \<Rightarrow> (fork_changes \<times> global_index) result" where
  "mark_unseen s fork index =
     (if gi_unseen index then
        tryq (expect (get_block_ext s (gi_hash index))) (\<lambda>ext.
        Ok (if ext_verified ext = None then (fork\<lparr>dirty_exts := ext # dirty_exts fork\<rparr>, index)
            else (fork, index\<lparr>gi_unseen := False\<rparr>)))
      else Ok (fork, index))"

text \<open>The block at the index joins the branch, and the index moves to its parent.\<close>

definition attach_index :: "store \<Rightarrow> fork_changes \<Rightarrow> global_index \<Rightarrow> (fork_changes \<times> global_index) result" where
  "attach_index s fork index =
     tryq (mark_unseen s fork index) (\<lambda>(fork, index).
     tryq (load_block s (gi_hash index)) (\<lambda>new_block.
     tryq (gi_forward (h_parent_hash (b_header new_block)) index) (\<lambda>index.
     Ok (fork\<lparr>attached_blocks := new_block # attached_blocks fork\<rparr>, index))))"

lemma attach_index_number:
  "attach_index s fork index = Ok (fork', index') \<Longrightarrow> gi_number index \<noteq> 0 \<and> gi_number index' = gi_number index - 1"
  by (auto simp: attach_index_def mark_unseen_def gi_forward_def outcome_simps p_sub_def checked_sub_def split: if_splits)

lemma tryq_cong [fundef_cong]: "m = m' \<Longrightarrow> (\<And>x. m' = Ok x \<Longrightarrow> f x = g x) \<Longrightarrow> tryq m f = tryq m' g"
  by (cases m') auto

function attach_down_to :: "store \<Rightarrow> u64 \<Rightarrow> fork_changes \<Rightarrow> global_index \<Rightarrow> (fork_changes \<times> global_index) result" where
  "attach_down_to s current_tip_number fork index =
     (if current_tip_number < gi_number index then
        tryq (attach_index s fork index) (\<lambda>r. attach_down_to s current_tip_number (fst r) (snd r))
      else Ok (fork, index))"
  by pat_completeness auto
termination
  by (relation "measure (\<lambda>(s, n, fork, index). unat (gi_number index))")
    (auto dest!: attach_index_number simp: unat_pred)

definition alignment_fork ::
  "store \<Rightarrow> fork_changes \<Rightarrow> global_index \<Rightarrow> u64 \<Rightarrow> u64 \<Rightarrow> (fork_changes \<times> global_index) result" where
  "alignment_fork s fork index new_tip_number current_tip_number =
     (if new_tip_number \<le> current_tip_number then
        tryq (try_fold (detach_number s) fork (map of_nat [unat new_tip_number..<Suc (unat current_tip_number)])) (\<lambda>fork.
        Ok (fork, index))
      else attach_down_to s current_tip_number fork index)"

function find_fork_until_latest_common :: "store \<Rightarrow> fork_changes \<Rightarrow> global_index \<Rightarrow> (fork_changes \<times> global_index) result" where
  "find_fork_until_latest_common s fork index =
     (if gi_number index = 0 then Ok (fork, index)
      else
        tryq (expect (get_block_hash s (gi_number index))) (\<lambda>detached_hash.
        if detached_hash = gi_hash index then Ok (fork, index)
        else
          tryq (load_block s detached_hash) (\<lambda>detached_block.
          tryq (attach_index s (fork\<lparr>detached_blocks := detached_block # detached_blocks fork\<rparr>) index) (\<lambda>r.
          find_fork_until_latest_common s (fst r) (snd r)))))"
  by pat_completeness auto
termination
  by (relation "measure (\<lambda>(s, fork, index). unat (gi_number index))")
    (auto dest!: attach_index_number simp: unat_pred)

declare attach_down_to.simps [simp del] find_fork_until_latest_common.simps [simp del]

definition find_fork :: "store \<Rightarrow> fork_changes \<Rightarrow> u64 \<Rightarrow> block_view \<Rightarrow> block_ext \<Rightarrow> fork_changes result" where
  "find_fork s fork current_tip_number new_tip_block new_tip_ext =
     (let new_tip_number = bv_number new_tip_block;
          fork = fork\<lparr>dirty_exts := new_tip_ext # dirty_exts fork\<rparr>;
          fork = fork\<lparr>attached_blocks := new_tip_block # attached_blocks fork\<rparr>
      in tryq (p_sub new_tip_number 1) (\<lambda>n.
         let index = \<lparr>gi_number = n, gi_hash = h_parent_hash (b_header new_tip_block), gi_unseen = True\<rparr> in
         tryq (alignment_fork s fork index new_tip_number current_tip_number) (\<lambda>(fork, index).
         tryq (find_fork_until_latest_common s fork index) (\<lambda>(fork, index). Ok fork))))"

section \<open>Reorganisation\<close>

definition detach_main :: "store \<Rightarrow> block_view \<Rightarrow> store result" where
  "detach_main s b = detach_block_cell b (detach_block b s)"

definition rollback :: "fork_changes \<Rightarrow> store \<Rightarrow> store result" where
  "rollback fork s = try_fold detach_main s (rev (detached_blocks fork))"

record switch = verify_switch +
  disable_non_contextual :: bool

definition SWITCH_NONE :: switch where
  "SWITCH_NONE = \<lparr>disable_epoch = False, disable_uncles = False, disable_two_phase_commit = False, disable_daoheader = False,
     disable_reward = False, disable_non_contextual = False\<rparr>"

definition disable_all :: "switch \<Rightarrow> bool" where
  "disable_all sw \<longleftrightarrow> disable_epoch sw \<and> disable_uncles sw \<and> disable_two_phase_commit sw \<and> disable_daoheader sw \<and>
     disable_reward sw \<and> disable_non_contextual sw"

text \<open>The functions outside the repository that verification uses, and the fuel of the reward loop.\<close>

record ('z, 'c, 't) env =
  e_ext :: "'z ext_scheme"
  e_vm :: vm
  e_order :: "groups \<Rightarrow> script_group list"
  e_collect :: par_collect
  e_times :: "('c, u64) lru"
  e_txs :: "('t, cache_entry) lru"
  e_system :: system_cells
  e_fuel :: nat

definition write_ext :: "block_view \<Rightarrow> block_ext \<Rightarrow> bool \<Rightarrow> capacity list \<Rightarrow> store \<Rightarrow> store" where
  "write_ext b ext ok fees s = insert_block_ext (bv_hash b) (ext\<lparr>ext_verified := Some ok, ext_txs_fees := fees\<rparr>) s"

type_synonym 't reconciled = "store \<times> 't \<times> ckb_error option"

definition verify_attached ::
  "('z, 'c, 't) env \<Rightarrow> consensus \<Rightarrow> switch \<Rightarrow> store \<Rightarrow> 't \<Rightarrow> block_ext \<Rightarrow> block_view \<Rightarrow> 't reconciled result option" where
  "verify_attached E C sw s cache ext b =
     (case block_cell_provider_new b of
        Panic \<Rightarrow> Some Panic
      | Err err \<Rightarrow> Some (Ok (s, cache, Some err))
      | Ok block_cp \<Rightarrow>
          (case resolve_transactions (e_ext E) (e_system E) (overlay_cell (block_cell (e_ext E) b block_cp) (store_cell (e_ext E) s))
                  (check_valid (e_ext E) C s) {} (bv_transactions b) of
             Panic \<Rightarrow> Some Panic
           | Err err \<Rightarrow> Some (Ok (write_ext b ext False (ext_txs_fees ext) s, cache, Some err))
           | Ok (resolved, _) \<Rightarrow>
               (case verify_contextual_block (e_fuel E) (e_ext E) (e_vm E) (e_order E) (e_collect E) (e_times E) (e_txs E)
                       C s sw resolved b cache of
                  None \<Rightarrow> None
                | Some (Panic, cache) \<Rightarrow> Some Panic
                | Some (Err err, cache) \<Rightarrow> Some (Ok (write_ext b ext False (ext_txs_fees ext) s, cache, Some err))
                | Some (Ok (cycles, entries), cache) \<Rightarrow>
                    Some (Ok (write_ext b ext True (map ce_fee (drop 1 entries)) (attach_main b s), cache, None)))))"

definition reconcile_block ::
  "('z, 'c, 't) env \<Rightarrow> consensus \<Rightarrow> switch \<Rightarrow> 't reconciled \<Rightarrow> block_ext \<times> block_view \<Rightarrow> 't reconciled result option" where
  "reconcile_block E C sw = (\<lambda>(s, cache, found_error) (ext, b).
     if disable_all sw then
       Some (Ok (write_ext b ext True (ext_txs_fees ext) (attach_main b s), cache, found_error))
     else
       case found_error of
         None \<Rightarrow> verify_attached E C sw s cache ext b
       | Some err \<Rightarrow> Some (Ok (write_ext b ext False (ext_txs_fees ext) s, cache, Some err)))"

fun tryo_fold :: "('b \<Rightarrow> 'a \<Rightarrow> ('b, 'e) outcome option) \<Rightarrow> 'b \<Rightarrow> 'a list \<Rightarrow> ('b, 'e) outcome option" where
  "tryo_fold f acc [] = Some (Ok acc)"
| "tryo_fold f acc (x # xs) = tryo (f acc x) (\<lambda>acc'. tryo_fold f acc' xs)"

definition reconcile_main_chain ::
  "('z, 'c, 't) env \<Rightarrow> consensus \<Rightarrow> switch \<Rightarrow> fork_changes \<Rightarrow> store \<Rightarrow> 't \<Rightarrow> 't reconciled result option" where
  "reconcile_main_chain E C sw fork s cache =
     tryo (Some (verified_len fork)) (\<lambda>n.
     let s = fold attach_main (take n (attached_blocks fork)) s in
     tryo_fold (reconcile_block E C sw) (s, cache, None) (zip (dirty_exts fork) (drop n (attached_blocks fork))))"

section \<open>Accepting a block\<close>

text \<open>
  The service: the database, the fields of the shared snapshot other than its copy of the
  database, the proposal table and the cache of verified transactions.
\<close>

record 't chain_service =
  cs_store :: store
  cs_tip_header :: header_view
  cs_total_difficulty :: u256
  cs_epoch_ext :: epoch_ext
  cs_proposals :: proposal_view
  cs_proposal_table :: proposal_table
  cs_txs_verify_cache :: 't

definition update_proposal_table :: "fork_changes \<Rightarrow> proposal_table \<Rightarrow> proposal_table" where
  "update_proposal_table fork t =
     (let t = fold (\<lambda>b t. snd (pt_remove (bv_number b) t)) (detached_blocks fork) t
      in fold (\<lambda>b t. snd (pt_insert (bv_number b) (union_proposal_ids b) t)) (attached_blocks fork) t)"

definition cannon_total_difficulty :: "'z ext_scheme \<Rightarrow> block_ext \<Rightarrow> block_view \<Rightarrow> u256 option" where
  "cannon_total_difficulty X parent_ext block = do {
     d \<leftarrow> raw_header_difficulty X (b_header block);
     nx_add X (ext_total_difficulty parent_ext) d }"

definition new_best_block ::
  "('z, 'c, 't) env \<Rightarrow> consensus \<Rightarrow> switch \<Rightarrow> 't chain_service \<Rightarrow> block_view \<Rightarrow> block_ext \<Rightarrow> epoch_ext \<Rightarrow> bool \<Rightarrow> store \<Rightarrow>
   (bool result \<times> 't chain_service) option" where
  "new_best_block E C sw st block ext epoch new_epoch s =
     (case find_fork (cs_store st) fork_default (h_number (cs_tip_header st)) block ext of
        Ok fork \<Rightarrow>
          (case rollback fork s of
             Ok s \<Rightarrow>
               (case reconcile_main_chain E C sw fork s (cs_txs_verify_cache st) of
                  None \<Rightarrow> None
                | Some (Ok (s, cache, Some err)) \<Rightarrow> Some (Err err, st\<lparr>cs_txs_verify_cache := cache\<rparr>)
                | Some (Ok (s, cache, None)) \<Rightarrow>
                    (let s = insert_tip_header (bv_header block) s;
                         s = (if new_epoch \<or> has_detached fork then insert_current_epoch_ext epoch s else s);
                         t = update_proposal_table fork (cs_proposal_table st)
                     in case pt_finalize (cs_proposals st) (bv_number block) t of
                          Ok (removed_ids, new_proposals, t) \<Rightarrow>
                            Some (Ok True, st\<lparr>cs_store := s, cs_tip_header := bv_header block,
                              cs_total_difficulty := ext_total_difficulty ext, cs_epoch_ext := epoch,
                              cs_proposals := new_proposals, cs_proposal_table := t, cs_txs_verify_cache := cache\<rparr>)
                        | _ \<Rightarrow> Some (Panic, st\<lparr>cs_store := s\<rparr>))
                | Some (Err err) \<Rightarrow> Some (Err err, st)
                | Some Panic \<Rightarrow> Some (Panic, st))
           | Err err \<Rightarrow> Some (Err err, st)
           | Panic \<Rightarrow> Some (Panic, st))
      | _ \<Rightarrow> Some (Panic, st))"

text \<open>What a block needs before it is compared with the tip: its record, its epoch and whether the epoch is new.\<close>

definition prepare_block ::
  "('z, 'c, 't) env \<Rightarrow> consensus \<Rightarrow> switch \<Rightarrow> u64 \<Rightarrow> store \<Rightarrow> block_view \<Rightarrow> (block_ext \<times> epoch_ext \<times> bool) result" where
  "prepare_block E C sw now s block =
     tryq (if disable_non_contextual sw then Ok () else verify_block (e_ext E) C block) (\<lambda>_.
     let parent_hash = h_parent_hash (b_header block) in
     tryq (expect (get_block_ext s parent_hash)) (\<lambda>parent_ext.
     tryq (expect (get_block_header s parent_hash)) (\<lambda>parent_header.
     tryq (expect (cannon_total_difficulty (e_ext E) parent_ext block)) (\<lambda>total_difficulty.
     if ext_verified parent_ext = Some False then Err (Header (InvalidParentError (h_hash parent_header)))
     else
       tryq (expect (get_block_epoch s (h_hash parent_header))) (\<lambda>parent_header_epoch.
       tryq (store_next_epoch_ext (e_ext E) s C parent_header_epoch parent_header) (\<lambda>next_epoch_ext.
       tryq (p_add (ext_total_uncles_count parent_ext) (of_nat (length (b_uncles block)))) (\<lambda>total_uncles_count.
       Ok (\<lparr>ext_received_at = now, ext_total_difficulty = total_difficulty, ext_total_uncles_count = total_uncles_count,
             ext_verified = None, ext_txs_fees = []\<rparr>,
           case next_epoch_ext of None \<Rightarrow> parent_header_epoch | Some e \<Rightarrow> e, next_epoch_ext \<noteq> None))))))))"

definition process_block ::
  "('z, 'c, 't) env \<Rightarrow> consensus \<Rightarrow> switch \<Rightarrow> u64 \<Rightarrow> 't chain_service \<Rightarrow> block_view \<Rightarrow> (bool result \<times> 't chain_service) option" where
  "process_block E C sw now st block =
     (if block_exists (cs_store st) (bv_hash block) then Some (Ok False, st)
      else
        case prepare_block E C sw now (cs_store st) block of
          Err e \<Rightarrow> Some (Err e, st)
        | Panic \<Rightarrow> Some (Panic, st)
        | Ok (ext, epoch, new_epoch) \<Rightarrow>
            (let s = insert_block block (cs_store st);
                 s = insert_block_epoch_index (bv_hash block) (ee_last_block_hash_in_previous_epoch epoch) s;
                 s = insert_epoch_ext (ee_last_block_hash_in_previous_epoch epoch) epoch s
             in if cs_total_difficulty st < ext_total_difficulty ext
                then new_best_block E C sw st block ext epoch new_epoch s
                else Some (Ok True, st\<lparr>cs_store := insert_block_ext (bv_hash block) ext s\<rparr>)))"

end
