(* ===== verification/Chain_Service.thy ===== *)
theory Chain_Service
  imports Chain "HOL-Library.Multiset"
begin

text \<open>
  What the functions of the chain service do to the database: a rollback does not depend on the order
  of the detached blocks, the branch is attached with records that mark it as verified, a refused
  block changes nothing but the cache of verified transactions, and the new tip is a heaviest block.
\<close>

section \<open>Rolling back\<close>

text \<open>Detaching a block, as a function of the store.\<close>

definition detached :: "block_view \<Rightarrow> store \<Rightarrow> store" where
  "detached b s = (detach_block b s)\<lparr>st_cell_set := \<lambda>k. detach_at (recovered (detach_block b s) k) k (rev (bv_transactions b)) (st_cell_set s k)\<rparr>"

lemma detach_block_columns:
  "detach_block b s = s\<lparr>st_tx_info := \<lambda>k. if k \<in> set (bv_tx_hashes b) then None else st_tx_info s k,
     st_uncles := \<lambda>k. if k \<in> uv_hash ` set (bv_uncles b) then None else st_uncles s k,
     st_index_hash := (st_index_hash s)(bv_number b := None), st_index_number := (st_index_number s)(bv_hash b := None)\<rparr>"
proof -
  have "fold (\<lambda>x s. s\<lparr>st_tx_info := (st_tx_info s)(x := None)\<rparr>) xs s =
      s\<lparr>st_tx_info := \<lambda>k. if k \<in> set xs then None else st_tx_info s k\<rparr>" for xs and s :: store
    using fold_put_info [of "\<lambda>x. x" "\<lambda>_. None" xs s] fold_clear [of "\<lambda>x. x" xs "st_tx_info s"] by (simp add: fun_eq_iff)
  moreover have "fold (\<lambda>u s. s\<lparr>st_uncles := (st_uncles s)(uv_hash u := None)\<rparr>) us s =
      s\<lparr>st_uncles := \<lambda>k. if k \<in> uv_hash ` set us then None else st_uncles s k\<rparr>" for us :: "uncle_block_view list" and s :: store
    using fold_put_uncles [of uv_hash "\<lambda>_. None" us s] fold_clear [of uv_hash us "st_uncles s"] by (simp add: fun_eq_iff)
  ultimately show ?thesis by (simp add: detach_block_def Let_def bv_number_def cong: if_cong)
qed

lemma recovered_detach: "recovered (detach_block b s) k = (if k \<in> set (bv_tx_hashes b) then None else recovered s k)"
  by (simp add: detach_block_columns recovered_def recover_meta_def get_transaction_def get_transaction_info_def
      body_entry_def get_block_header_def cong: option.case_cong)

lemma infos_stored_detach: "infos_stored s \<Longrightarrow> infos_stored (detach_block b s)"
  by (auto simp: infos_stored_def detach_block_columns body_entry_def split: if_splits)

lemma detach_main_detached:
  assumes "infos_stored s"
  shows "detach_main s b = Ok (detached b s)" "infos_stored (detached b s)"
proof -
  have "detach_main s b = Ok ((detach_block b s)\<lparr>st_cell_set := \<lambda>k. detach_at (recovered (detach_block b s) k) k
      (rev (bv_transactions b)) (st_cell_set (detach_block b s) k)\<rparr>)"
    unfolding detach_main_def detach_block_cell_def by (rule try_fold_detach [OF infos_stored_detach [OF assms]])
  then show "detach_main s b = Ok (detached b s)" by (simp add: detached_def detach_block_columns)
  show "infos_stored (detached b s)" using infos_stored_detach [OF assms] by (simp add: detached_def)
qed

lemma try_fold_detach_main: "infos_stored s \<Longrightarrow> try_fold detach_main s bs = Ok (fold detached bs s)"
  by (induction bs arbitrary: s) (simp_all add: detach_main_detached)

lemma fold_unset_set: "set is = set js \<Longrightarrow> fold (\<lambda>i m. unset_dead m i) is m = fold (\<lambda>i m. unset_dead m i) js m"
  unfolding fold_unset_dead by (auto simp: nth_fold_update intro!: transaction_meta.equality nth_equalityI)

lemma fold_restore_set:
  "set (positions k ps) = set (positions k qs) \<Longrightarrow> fold (restore_at r k) ps v = fold (restore_at r k) qs v"
proof (cases v)
  case None
  assume eq: "set (positions k ps) = set (positions k qs)"
  then have "positions k ps = [] \<longleftrightarrow> positions k qs = []" by (metis set_empty)
  then show ?thesis using fold_unset_set [OF eq] unfolding None by (cases r) (simp_all add: fold_restore_None)
next
  case (Some m)
  assume "set (positions k ps) = set (positions k qs)"
  then show ?thesis using fold_unset_set unfolding Some fold_restore_Some by blast
qed

lemma fold_restore_comm:
  "fold (restore_at r k) ps (fold (restore_at r k) qs v) = fold (restore_at r k) qs (fold (restore_at r k) ps v)"
  using fold_restore_set [of k "qs @ ps" "ps @ qs" r v] by (simp add: Un_commute)

text \<open>Detaching two blocks in either order is the same.\<close>

definition own_hashes :: "block_view \<Rightarrow> bool" where
  "own_hashes b \<longleftrightarrow> map tx_hash (bv_transactions b) = bv_tx_hashes b"

lemma detach_key_comm:
  assumes "own_hashes b" and "own_hashes c" and "k \<notin> set (bv_tx_hashes b)"
  shows "detach_at (if k \<in> set (bv_tx_hashes c) then None else recovered s k) k (rev (bv_transactions b))
       (detach_at (if k \<in> set (bv_tx_hashes c) then None else recovered s k) k (rev (bv_transactions c)) v) =
     detach_at (if k \<in> set (bv_tx_hashes c) then None else recovered s k) k (rev (bv_transactions c))
       (detach_at (recovered s k) k (rev (bv_transactions b)) v)"
proof (cases "k \<in> set (bv_tx_hashes c)")
  case True
  then have "k \<in> tx_hash ` set (rev (bv_transactions c))" using assms(2) by (metis own_hashes_def list.set_map set_rev)
  then show ?thesis using True by (simp add: detach_at_own)
next
  case False
  have "k \<notin> tx_hash ` set (rev (bv_transactions b))" "k \<notin> tx_hash ` set (rev (bv_transactions c))"
    using assms(1,2,3) False by (metis own_hashes_def list.set_map set_rev)+
  then show ?thesis using False by (simp add: detach_at_other fold_restore_comm)
qed

lemma detached_cell_set:
  "st_cell_set (detached b s) k =
     detach_at (if k \<in> set (bv_tx_hashes b) then None else recovered s k) k (rev (bv_transactions b)) (st_cell_set s k)"
  "recovered (detached b s) k = (if k \<in> set (bv_tx_hashes b) then None else recovered s k)"
  by (simp_all add: detached_def recovered_detach)

lemma detached_comm:
  assumes "own_hashes b" and "own_hashes c"
  shows "detached b (detached c s) = detached c (detached b s)"
proof -
  have own: "detach_at None k (rev (bv_transactions d)) v = None" if "own_hashes d" "k \<in> set (bv_tx_hashes d)" for k d v
    using that by (metis own_hashes_def detach_at_own list.set_map set_rev)
  have "st_cell_set (detached b (detached c s)) k = st_cell_set (detached c (detached b s)) k" for k
  proof (cases "k \<in> set (bv_tx_hashes b)")
    case True
    then show ?thesis using own [OF assms(1) True] by (simp add: detached_cell_set)
  next
    case False
    then show ?thesis using detach_key_comm [OF assms False, of s "st_cell_set s k"] by (simp add: detached_cell_set)
  qed
  then have "st_cell_set (detached b (detached c s)) = st_cell_set (detached c (detached b s))" ..
  moreover have "(detached b (detached c s))\<lparr>st_cell_set := x\<rparr> = (detached c (detached b s))\<lparr>st_cell_set := x\<rparr>" for x
    by (auto simp: detached_def detach_block_columns fun_upd_twist intro!: store.equality)
  ultimately show ?thesis by (metis store.surjective store.update_convs(15))
qed

lemma fold_detached_mset:
  assumes "\<forall>b\<in>set bs. own_hashes b" and "mset bs = mset cs"
  shows "fold detached bs = fold detached cs"
proof (rule fold_multiset_equiv [OF _ assms(2)])
  fix b c assume "b \<in> set bs" "c \<in> set bs"
  then show "detached b \<circ> detached c = detached c \<circ> detached b" using assms(1) detached_comm by (auto simp: fun_eq_iff)
qed

lemma built_rollback:
  assumes "built (ds @ cs) s" and "mset bs = mset ds"
  shows "\<exists>s'. try_fold detach_main s bs = Ok s' \<and> built cs s'"
proof -
  have own: "built (ds @ cs) s \<Longrightarrow> \<forall>b\<in>set ds. own_hashes b" for s
    by (induction ds arbitrary: s) (auto simp: hashes_ok_def own_hashes_def dest: view_ok_transactions(2))
  have "built (ds @ cs) s \<Longrightarrow> built cs (fold detached ds s)" for s
  proof (induction ds arbitrary: s)
    case (Cons d ds)
    then obtain s0 where s0: "built (ds @ cs) s0" "s = attach_main d s0" "fresh_block s0 d" "hashes_ok d" "spendable s0 d" by auto
    then have "detach_main s d = Ok s0" unfolding detach_main_def
      using built_sound view_ok_transactions(2) by (simp add: detach_attach_main hashes_ok_def)
    moreover have "infos_stored s" using built_sound [OF Cons.prems] by (simp add: cell_set_sound_def)
    ultimately have "detached d s = s0" by (simp add: detach_main_detached)
    then show ?case using Cons.IH s0(1) by simp
  qed simp
  moreover have "try_fold detach_main s bs = Ok (fold detached bs s)"
    using built_sound [OF assms(1)] by (simp add: try_fold_detach_main cell_set_sound_def)
  moreover have "fold detached bs s = fold detached ds s"
    using fold_detached_mset [of ds bs] own [OF assms(1)] assms(2) by simp
  ultimately show ?thesis using assms(1) by simp
qed

section \<open>Reconciling\<close>

text \<open>A branch is attached with its records.\<close>

definition attach_branch :: "((block_ext \<times> block_view) \<times> capacity list) list \<Rightarrow> store \<Rightarrow> store" where
  "attach_branch xs s = fold (\<lambda>((ext, b), fees) s. write_ext b ext True fees (attach_main b s)) xs s"

lemma verify_attached_Ok:
  assumes "verify_attached E C sw s cache ext b = Some (Ok (s', cache', None))"
  shows "\<exists>fees rs. s' = write_ext b ext True fees (attach_main b s) \<and>
     resolve_block (e_ext E) (e_system E) (store_cell (e_ext E) s) (check_valid (e_ext E) C s) b = Ok rs"
  using assms unfolding verify_attached_def resolve_block_def
  by (auto split: outcome.splits option.splits prod.splits)

lemma reconcile_block_Ok:
  assumes "reconcile_block E C sw (s, cache, err) (ext, b) = Some (Ok (s', cache', None))"
  shows "err = None \<and> (\<exists>fees. s' = write_ext b ext True fees (attach_main b s)) \<and>
     (disable_all sw \<or> (\<exists>rs. resolve_block (e_ext E) (e_system E) (store_cell (e_ext E) s) (check_valid (e_ext E) C s) b = Ok rs))"
  using assms verify_attached_Ok unfolding reconcile_block_def
  by (fastforce split: if_splits option.splits)

lemma reconcile_error_stays:
  "tryo_fold (reconcile_block E C sw) (s, cache, Some err) xs = Some (Ok (s', cache', err')) \<Longrightarrow> err' = Some err"
proof (induction xs arbitrary: s cache)
  case (Cons x xs)
  then show ?case by (cases x) (auto simp: reconcile_block_def outcome_simps split: if_splits)
qed simp

lemma reconcile_fold_Ok:
  "tryo_fold (reconcile_block E C sw) (s, cache, None) xs = Some (Ok (s', cache', None)) \<Longrightarrow>
   \<exists>fees. length fees = length xs \<and> s' = attach_branch (zip xs fees) s"
proof (induction xs arbitrary: s cache)
  case (Cons x xs)
  obtain ext b where x: "x = (ext, b)" by (cases x)
  from Cons.prems obtain s1 c1 e1 where step: "reconcile_block E C sw (s, cache, None) (ext, b) = Some (Ok (s1, c1, e1))"
      "tryo_fold (reconcile_block E C sw) (s1, c1, e1) xs = Some (Ok (s', cache', None))"
    by (auto simp: x outcome_simps)
  have "e1 = None" using reconcile_error_stays step(2) by (cases e1) fastforce+
  then obtain fs fees where "s1 = write_ext b ext True fs (attach_main b s)" "length fees = length xs" "s' = attach_branch (zip xs fees) s1"
    using reconcile_block_Ok [of E C sw s cache None ext b s1 c1] step Cons.IH by metis
  then show ?case by (intro exI [of _ "fs # fees"]) (simp add: x attach_branch_def)
qed (simp add: attach_branch_def)

section \<open>Columns the chain service leaves alone\<close>

lemma attach_main_columns [simp]: "st_ext (attach_main b s) = st_ext s" "st_header (attach_main b s) = st_header s"
  "st_body (attach_main b s) = st_body s"
  by (simp_all add: attach_main_cell_set attach_block_def Let_def fold_put_info fold_put_uncles case_prod_unfold)

lemma try_fold_keeps:
  assumes "\<And>s x s'. f s x = Ok s' \<Longrightarrow> g s' = g s" and "try_fold f s xs = Ok s'"
  shows "g s' = g s"
  using assms(2) by (induction xs arbitrary: s) (auto simp: tryq_eq_Ok dest: assms(1))

lemma restore_cell_columns: "restore_cell s p = Ok s' \<Longrightarrow> st_ext s' = st_ext s \<and> st_header s' = st_header s"
  by (auto simp: restore_cell_def Let_def tryq_eq_Ok update_cell_set_def split: option.splits)

lemma detach_main_columns: "detach_main s b = Ok s' \<Longrightarrow> (st_ext s', st_header s') = (st_ext s, st_header s)"
proof -
  assume "detach_main s b = Ok s'"
  then have "(st_ext s', st_header s') = (st_ext (detach_block b s), st_header (detach_block b s))"
    unfolding detach_main_def detach_block_cell_def
    by (rule try_fold_keeps [rotated, where g = "\<lambda>s. (st_ext s, st_header s)"])
      (auto simp: delete_cell_set_def restore_cell_columns dest!: try_fold_keeps [rotated, where g = "\<lambda>s. (st_ext s, st_header s)"])
  then show ?thesis by (simp add: detach_block_columns)
qed

lemma rollback_columns: "rollback fork s = Ok s' \<Longrightarrow> st_ext s' = st_ext s \<and> st_header s' = st_header s"
  using try_fold_keeps [where f = detach_main and g = "\<lambda>s. (st_ext s, st_header s)"] detach_main_columns
  unfolding rollback_def by blast

lemma fold_attach_columns: "st_ext (fold attach_main bs s) = st_ext s \<and> st_header (fold attach_main bs s) = st_header s"
  by (induction bs arbitrary: s) simp_all

lemma attach_branch_ext:
  "st_ext (attach_branch xs s) h = Some e \<Longrightarrow> st_ext s h = Some e \<or>
     (\<exists>ext b fees. ((ext, b), fees) \<in> set xs \<and> h = bv_hash b \<and> e = ext\<lparr>ext_verified := Some True, ext_txs_fees := fees\<rparr>)"
  "st_header (attach_branch xs s) = st_header s"
proof -
  show "st_header (attach_branch xs s) = st_header s"
    by (induction xs arbitrary: s) (auto simp: attach_branch_def write_ext_def insert_block_ext_def)
  assume "st_ext (attach_branch xs s) h = Some e"
  then show "st_ext s h = Some e \<or> (\<exists>ext b fees. ((ext, b), fees) \<in> set xs \<and> h = bv_hash b \<and>
      e = ext\<lparr>ext_verified := Some True, ext_txs_fees := fees\<rparr>)"
  proof (induction xs arbitrary: s)
    case (Cons x xs)
    obtain ext b fees where x: "x = ((ext, b), fees)" by (metis surj_pair)
    let ?s = "write_ext b ext True fees (attach_main b s)"
    have "st_ext (attach_branch xs ?s) h = Some e" using Cons.prems by (simp add: x attach_branch_def)
    from Cons.IH [OF this] show ?case by (auto simp: x write_ext_def insert_block_ext_def split: if_splits)
  qed (simp add: attach_branch_def)
qed

lemma attach_branch_last:
  assumes "xs \<noteq> []" and "last xs = ((ext, b), fees)"
  shows "st_ext (attach_branch xs s) (bv_hash b) = Some (ext\<lparr>ext_verified := Some True, ext_txs_fees := fees\<rparr>)"
proof -
  have "xs = butlast xs @ [((ext, b), fees)]" using assms by (metis append_butlast_last_id)
  then have "attach_branch xs s = write_ext b ext True fees (attach_main b (attach_branch (butlast xs) s))"
    unfolding attach_branch_def by (metis (no_types, lifting) case_prod_conv fold_append fold_simps comp_apply)
  then show ?thesis by (simp add: write_ext_def insert_block_ext_def)
qed

section \<open>The records of a fork\<close>

definition fork_records :: "store \<Rightarrow> block_view \<Rightarrow> block_ext \<Rightarrow> fork_changes \<Rightarrow> bool" where
  "fork_records s block ext fork \<longleftrightarrow> dirty_exts fork \<noteq> [] \<and> last (dirty_exts fork) = ext \<and>
     attached_blocks fork \<noteq> [] \<and> last (attached_blocks fork) = block \<and>
     length (dirty_exts fork) \<le> length (attached_blocks fork) \<and>
     (\<forall>e\<in>set (dirty_exts fork). e = ext \<or> (\<exists>h. st_ext s h = Some e))"

lemma attach_index_records:
  assumes "attach_index s fork index = Ok (fork', index')" and "fork_records s block ext fork"
  shows "fork_records s block ext fork'"
  using assms unfolding attach_index_def mark_unseen_def
  by (auto simp: outcome_simps fork_records_def get_block_ext_def split: if_splits)

lemma detached_records [simp]: "fork_records s block ext (fork\<lparr>detached_blocks := bs\<rparr>) = fork_records s block ext fork"
  by (simp add: fork_records_def)

lemma attach_down_to_records:
  "attach_down_to s n fork index = Ok (fork', index') \<Longrightarrow> fork_records s block ext fork \<Longrightarrow> fork_records s block ext fork'"
proof (induction s n fork index arbitrary: fork' index' rule: attach_down_to.induct)
  case (1 s n fork index)
  show ?case
  proof (cases "n < gi_number index")
    case True
    then obtain r where r: "attach_index s fork index = Ok r" "attach_down_to s n (fst r) (snd r) = Ok (fork', index')"
      using 1(2) by (subst (asm) attach_down_to.simps) (auto simp: outcome_simps)
    then have "fork_records s block ext (fst r)" using attach_index_records 1(3) by (metis prod.collapse)
    then show ?thesis using 1(1) [OF True r] by blast
  next
    case False
    then show ?thesis using 1(2,3) by (subst (asm) attach_down_to.simps) simp
  qed
qed

lemma find_until_records:
  "find_fork_until_latest_common s fork index = Ok (fork', index') \<Longrightarrow> fork_records s block ext fork \<Longrightarrow> fork_records s block ext fork'"
proof (induction s fork index arbitrary: fork' index' rule: find_fork_until_latest_common.induct)
  case (1 s fork index)
  show ?case
  proof (cases "gi_number index = 0 \<or> get_block_hash s (gi_number index) = Some (gi_hash index)")
    case True
    then show ?thesis using 1(2,3) by (subst (asm) find_fork_until_latest_common.simps) (auto split: if_splits)
  next
    case False
    then obtain h d r where h: "get_block_hash s (gi_number index) = Some h" "h \<noteq> gi_hash index" "load_block s h = Ok d"
        "attach_index s (fork\<lparr>detached_blocks := d # detached_blocks fork\<rparr>) index = Ok r"
        "find_fork_until_latest_common s (fst r) (snd r) = Ok (fork', index')"
      using 1(2) by (subst (asm) find_fork_until_latest_common.simps) (auto simp: outcome_simps split: if_splits)
    then have "fork_records s block ext (fst r)" using attach_index_records [of s _ index "fst r" "snd r"] 1(3) by simp
    moreover have "expect (get_block_hash s (gi_number index)) = (Ok h :: byte32 result)" using h(1) by simp
    ultimately show ?thesis using 1(1) [of h d r] False h by blast
  qed
qed

lemma find_fork_records:
  assumes "find_fork s fork_default n block ext = Ok fork"
  shows "fork_records s block ext fork"
proof -
  let ?fork = "fork_default\<lparr>dirty_exts := [ext], attached_blocks := [block]\<rparr>"
  have init: "fork_records s block ext ?fork" by (simp add: fork_records_def)
  have keep: "try_fold (detach_number s) f ns = Ok f' \<Longrightarrow> fork_records s block ext f' = fork_records s block ext f" for f f' ns
    by (rule try_fold_keeps [where f = "detach_number s"]) (auto simp: detach_number_def outcome_simps)
  obtain m index fork1 index1 index2 where
    "alignment_fork s ?fork index m n = Ok (fork1, index1)" "find_fork_until_latest_common s fork1 index1 = Ok (fork, index2)"
    using assms unfolding find_fork_def Let_def by (auto simp: outcome_simps fork_default_def)
  moreover from this(1) have "fork_records s block ext fork1"
    unfolding alignment_fork_def using init keep attach_down_to_records by (auto simp: outcome_simps split: if_splits)
  ultimately show ?thesis using find_until_records by blast
qed

section \<open>Accepting a block\<close>

lemma new_best_block_Err:
  "new_best_block E C sw st block ext epoch ne s = Some (Err e, st') \<Longrightarrow> \<exists>cache. st' = st\<lparr>cs_txs_verify_cache := cache\<rparr>"
proof -
  assume *: "new_best_block E C sw st block ext epoch ne s = Some (Err e, st')"
  have "\<exists>cache. st = st\<lparr>cs_txs_verify_cache := cache\<rparr>" by (rule exI [of _ "cs_txs_verify_cache st"]) simp
  then show ?thesis using * unfolding new_best_block_def by (auto simp: Let_def split: outcome.splits option.splits prod.splits)
qed

text \<open>The accepted block is the tip, and the records of the branch are written as verified.\<close>

lemma new_best_block_Ok:
  assumes "new_best_block E C sw st block ext epoch ne s = Some (Ok r, st')"
  obtains fork s1 xs where "r" and "find_fork (cs_store st) fork_default (h_number (cs_tip_header st)) block ext = Ok fork"
    and "rollback fork s = Ok s1" and "map fst xs = zip (dirty_exts fork) (drop (length (attached_blocks fork) - length (dirty_exts fork)) (attached_blocks fork))"
    and "\<exists>tip cur. cs_store st' = (attach_branch xs (fold attach_main (take (length (attached_blocks fork) - length (dirty_exts fork))
        (attached_blocks fork)) s1))\<lparr>st_tip := tip, st_current_epoch := cur\<rparr>"
    and "st_tip (cs_store st') = Some (bv_hash block)"
    and "cs_tip_header st' = bv_header block" and "cs_total_difficulty st' = ext_total_difficulty ext"
proof -
  obtain fork where fork: "find_fork (cs_store st) fork_default (h_number (cs_tip_header st)) block ext = Ok fork"
    using assms unfolding new_best_block_def by (auto split: outcome.splits)
  obtain s1 where s1: "rollback fork s = Ok s1"
    using assms fork unfolding new_best_block_def by (auto split: outcome.splits)
  let ?n = "length (attached_blocks fork) - length (dirty_exts fork)"
  have len: "length (dirty_exts fork) \<le> length (attached_blocks fork)"
    using find_fork_records [OF fork] by (simp add: fork_records_def)
  obtain s2 cache where rec: "reconcile_main_chain E C sw fork s1 (cs_txs_verify_cache st) = Some (Ok (s2, cache, None))"
    using assms fork s1 unfolding new_best_block_def by (auto simp: Let_def split: outcome.splits option.splits prod.splits)
  then have "tryo_fold (reconcile_block E C sw) (fold attach_main (take ?n (attached_blocks fork)) s1, cs_txs_verify_cache st, None)
      (zip (dirty_exts fork) (drop ?n (attached_blocks fork))) = Some (Ok (s2, cache, None))"
    using len unfolding reconcile_main_chain_def verified_len_def by (auto simp: Let_def)
  from reconcile_fold_Ok [OF this] obtain fees where fees: "length fees = length (zip (dirty_exts fork) (drop ?n (attached_blocks fork)))"
      "s2 = attach_branch (zip (zip (dirty_exts fork) (drop ?n (attached_blocks fork))) fees) (fold attach_main (take ?n (attached_blocks fork)) s1)"
    by blast
  have "r \<and> (\<exists>tip cur. cs_store st' = s2\<lparr>st_tip := tip, st_current_epoch := cur\<rparr>) \<and> st_tip (cs_store st') = Some (bv_hash block) \<and>
      cs_tip_header st' = bv_header block \<and> cs_total_difficulty st' = ext_total_difficulty ext"
    using assms fork s1 rec unfolding new_best_block_def
    by (auto simp: Let_def insert_tip_header_def insert_current_epoch_ext_def bv_header_def header_view_of_def header.defs
        split: outcome.splits if_splits prod.splits intro!: exI store.equality)
  then show ?thesis
    using that [OF _ fork s1, of "zip (zip (dirty_exts fork) (drop ?n (attached_blocks fork))) fees"] fees by auto
qed

text \<open>The state after the writes that precede the comparison with the tip.\<close>

definition block_stored :: "block_view \<Rightarrow> epoch_ext \<Rightarrow> store \<Rightarrow> store" where
  "block_stored block epoch s = insert_epoch_ext (ee_last_block_hash_in_previous_epoch epoch) epoch
     (insert_block_epoch_index (bv_hash block) (ee_last_block_hash_in_previous_epoch epoch) (insert_block block s))"

lemma block_stored_columns:
  "st_ext (block_stored block epoch s) = st_ext s" "st_tip (block_stored block epoch s) = st_tip s"
  "st_header (block_stored block epoch s) = (st_header s)(bv_hash block \<mapsto> bv_header block)"
  by (simp_all add: block_stored_def insert_epoch_ext_def insert_block_epoch_index_def insert_block_columns)

lemma process_block_cases:
  assumes "process_block E C sw now st block = Some (r, st')" and "r \<noteq> Panic"
  obtains "r = Ok False" and "st' = st" and "block_exists (cs_store st) (bv_hash block)"
  | e cache where "r = Err e" and "st' = st\<lparr>cs_txs_verify_cache := cache\<rparr>"
  | ext epoch where "r = Ok True" and "\<not> block_exists (cs_store st) (bv_hash block)" and "ext_verified ext = None"
      and "ext_total_difficulty ext \<le> cs_total_difficulty st"
      and "st' = st\<lparr>cs_store := insert_block_ext (bv_hash block) ext (block_stored block epoch (cs_store st))\<rparr>"
  | ext epoch ne where "r = Ok True" and "\<not> block_exists (cs_store st) (bv_hash block)" and "ext_verified ext = None"
      and "cs_total_difficulty st < ext_total_difficulty ext"
      and "new_best_block E C sw st block ext epoch ne (block_stored block epoch (cs_store st)) = Some (Ok True, st')"
proof (cases "block_exists (cs_store st) (bv_hash block)")
  case True
  then show ?thesis using assms that(1) by (simp add: process_block_def)
next
  case new: False
  show ?thesis
  proof (cases "prepare_block E C sw now (cs_store st) block")
    case (Ok p)
    obtain ext epoch ne where p: "p = (ext, epoch, ne)" by (metis surj_pair)
    have v: "ext_verified ext = None" using Ok p by (auto simp: prepare_block_def Let_def outcome_simps split: if_splits)
    show ?thesis
    proof (cases "cs_total_difficulty st < ext_total_difficulty ext")
      case True
      then have b: "new_best_block E C sw st block ext epoch ne (block_stored block epoch (cs_store st)) = Some (r, st')"
        using assms(1) new Ok p by (simp add: process_block_def block_stored_def Let_def)
      show ?thesis
      proof (cases r)
        case (Ok b')
        then have "b'" using new_best_block_Ok b by metis
        then show ?thesis using that(4) new v True b Ok by simp
      next
        case (Err e)
        then show ?thesis using new_best_block_Err b that(2) by metis
      qed (use assms(2) in simp)
    next
      case False
      then have "r = Ok True" "st' = st\<lparr>cs_store := insert_block_ext (bv_hash block) ext (block_stored block epoch (cs_store st))\<rparr>"
        using assms(1) new Ok p by (auto simp: process_block_def block_stored_def Let_def)
      then show ?thesis using that(3) [OF _ new v] False by (simp add: not_less)
    qed
  next
    case (Err e)
    then show ?thesis using assms(1) new that(2) [of e "cs_txs_verify_cache st"] by (simp add: process_block_def)
  qed (use assms new in \<open>simp add: process_block_def\<close>)
qed

lemma last_zip_suffix:
  assumes "ds \<noteq> []" and "length ds \<le> length bs"
  shows "last (zip ds (drop (length bs - length ds) bs)) = (last ds, last bs)"
proof -
  have n: "length bs - length ds < length bs" using assms by (cases ds) auto
  then have "drop (length bs - length ds) bs \<noteq> []" unfolding drop_eq_Nil by linarith
  then show ?thesis using last_zip [OF assms(1), of "drop (length bs - length ds) bs"] last_drop [OF n] assms(2) by simp
qed

text \<open>The snapshot's tip is the stored tip, it has the recorded difficulty, and no stored block has more.\<close>

definition heaviest :: "'t chain_service \<Rightarrow> bool" where
  "heaviest st \<longleftrightarrow> st_tip (cs_store st) = Some (h_hash (cs_tip_header st)) \<and>
     st_header (cs_store st) (h_hash (cs_tip_header st)) = Some (cs_tip_header st) \<and>
     (\<exists>e. st_ext (cs_store st) (h_hash (cs_tip_header st)) = Some e \<and> ext_total_difficulty e = cs_total_difficulty st) \<and>
     (\<forall>h e. st_ext (cs_store st) h = Some e \<longrightarrow> ext_total_difficulty e \<le> cs_total_difficulty st)"

lemma heaviest_new_tip:
  assumes "heaviest st" and "cs_total_difficulty st < ext_total_difficulty ext"
    and "new_best_block E C sw st block ext epoch ne (block_stored block epoch (cs_store st)) = Some (Ok True, st')"
  shows "heaviest st' \<and> cs_total_difficulty st' = ext_total_difficulty ext \<and> cs_tip_header st' = bv_header block"
proof -
  obtain fork s1 xs tip cur where fork: "find_fork (cs_store st) fork_default (h_number (cs_tip_header st)) block ext = Ok fork"
    and s1: "rollback fork (block_stored block epoch (cs_store st)) = Ok s1"
    and xs: "map fst xs = zip (dirty_exts fork) (drop (length (attached_blocks fork) - length (dirty_exts fork)) (attached_blocks fork))"
    and st': "cs_store st' = (attach_branch xs (fold attach_main (take (length (attached_blocks fork) - length (dirty_exts fork))
        (attached_blocks fork)) s1))\<lparr>st_tip := tip, st_current_epoch := cur\<rparr>" "st_tip (cs_store st') = Some (bv_hash block)"
      "cs_tip_header st' = bv_header block" "cs_total_difficulty st' = ext_total_difficulty ext"
    using new_best_block_Ok [OF assms(3)] by metis
  note rec = find_fork_records [OF fork, unfolded fork_records_def]
  have cols: "st_ext s1 = st_ext (cs_store st)" "st_header s1 = (st_header (cs_store st))(bv_hash block \<mapsto> bv_header block)"
    using rollback_columns [OF s1] by (simp_all add: block_stored_columns)
  have hash: "h_hash (bv_header block) = bv_hash block" by (simp add: bv_header_def header_view_of_def header.defs)
  have "length xs = length (dirty_exts fork)" using arg_cong [OF xs, of length] rec by simp
  then have ne: "xs \<noteq> []" using rec by auto
  obtain fees where last: "last xs = ((ext, block), fees)"
  proof -
    have "fst (last xs) = last (zip (dirty_exts fork) (drop (length (attached_blocks fork) - length (dirty_exts fork)) (attached_blocks fork)))"
      using last_map [OF ne, of fst] unfolding xs by simp
    also have "\<dots> = (ext, block)" using rec by (simp add: last_zip_suffix)
    finally show ?thesis using that by (metis prod.collapse)
  qed
  have le: "ext_total_difficulty e \<le> ext_total_difficulty ext" if "st_ext (cs_store st') h = Some e" for h e
  proof -
    have "st_ext s1 h = Some e \<or> (\<exists>e' b fees. ((e', b), fees) \<in> set xs \<and> ext_total_difficulty e = ext_total_difficulty e')"
      using that attach_branch_ext(1) [of xs _ h e] fold_attach_columns [of _ s1] unfolding st' by fastforce
    moreover have "e' \<in> set (dirty_exts fork)" if "((e', b), fees) \<in> set xs" for e' b fees
      using that xs by (metis (no_types) image_eqI list.set_map fst_conv set_zip_leftD)
    ultimately show ?thesis using rec assms(1,2) cols(1) unfolding heaviest_def by fastforce
  qed
  have "st_ext (cs_store st') (bv_hash block) = Some (ext\<lparr>ext_verified := Some True, ext_txs_fees := fees\<rparr>)"
    unfolding st' using attach_branch_last [OF ne last] by simp
  moreover have "st_header (cs_store st') (bv_hash block) = Some (bv_header block)"
    unfolding st' using attach_branch_ext(2) fold_attach_columns cols(2) by simp
  ultimately show ?thesis using st'(2-) le hash unfolding heaviest_def by auto
qed

end
