(* ===== verification/Chain_Fork.thy ===== *)
theory Chain_Fork
  imports Chain_Service
begin

text \<open>
  The search for the fork on a linked database: it ends at the last block that the branch shares with
  the main chain, and the rollback leaves the main chain up to that block.
\<close>

section \<open>The branch and the main chain\<close>

text \<open>Every stored block has all its columns and a stored parent, and there is one genesis block.\<close>

definition blocks_linked :: "store \<Rightarrow> bool" where
  "blocks_linked s \<longleftrightarrow> (\<forall>h hv. get_block_header s h = Some hv \<longrightarrow> h_hash hv = h \<and>
     get_block_uncles s h \<noteq> None \<and> get_block_proposal_txs_ids s h \<noteq> None \<and> get_block_ext s h \<noteq> None \<and>
     (if h_number hv = 0 then get_block_hash s 0 = Some h
      else \<exists>pv. get_block_header s (h_parent_hash hv) = Some pv \<and> unat (h_number hv) = Suc (unat (h_number pv))))"

text \<open>The main chain ends at a number.\<close>

definition index_ends :: "store \<Rightarrow> u64 \<Rightarrow> bool" where
  "index_ends s n \<longleftrightarrow> index_linked s \<and> (\<forall>k. get_block_hash s k \<noteq> None \<longleftrightarrow> k \<le> n)"

definition main_at :: "store \<Rightarrow> nat \<Rightarrow> block_view \<Rightarrow> bool" where
  "main_at s k b \<longleftrightarrow> (\<exists>h. get_block_hash s (of_nat k) = Some h \<and> load_block s h = Ok b)"

text \<open>A branch of blocks from the child of a hash on, each the parent of the next.\<close>

fun linked_from :: "byte32 \<Rightarrow> block_view list \<Rightarrow> bool" where
  "linked_from h [] \<longleftrightarrow> True"
| "linked_from h (b # bs) \<longleftrightarrow> h_parent_hash (b_header b) = h \<and> linked_from (bv_hash b) bs"

lemma load_block_stored:
  assumes "blocks_linked s" and "get_block_header s h = Some hv"
  shows "\<exists>b. load_block s h = Ok b \<and> bv_hash b = h \<and> bv_header b = hv"
proof -
  have "h_hash hv = h" "get_block_uncles s h \<noteq> None" "get_block_proposal_txs_ids s h \<noteq> None"
    using assms unfolding blocks_linked_def by blast+
  then show ?thesis
    using assms(2) by (auto simp: load_block_def get_block_def new_unchecked_def block.defs bv_header_def header_view_of_def
        header.defs intro!: header_view.equality header.equality raw_header.equality)
qed

lemma bv_header_sel: "h_parent_hash (bv_header b) = h_parent_hash (b_header b)" "h_number (bv_header b) = bv_number b"
  "h_hash (bv_header b) = bv_hash b"
  by (simp_all add: bv_header_def header_view_of_def header.defs bv_number_def)

lemma attach_index_step:
  assumes "blocks_linked s" and "get_block_header s (gi_hash index) = Some hv" and "h_number hv = gi_number index" and "gi_number index \<noteq> 0"
  shows "\<exists>fork' index' b. attach_index s fork index = Ok (fork', index') \<and>
     attached_blocks fork' = b # attached_blocks fork \<and> detached_blocks fork' = detached_blocks fork \<and>
     bv_hash b = gi_hash index \<and> bv_number b = gi_number index \<and> gi_hash index' = h_parent_hash (b_header b) \<and>
     (\<exists>pv. get_block_header s (gi_hash index') = Some pv \<and> h_number pv = gi_number index') \<and>
     unat (gi_number index) = Suc (unat (gi_number index'))"
proof -
  obtain b where b: "load_block s (gi_hash index) = Ok b" "bv_hash b = gi_hash index" "bv_header b = hv"
    using load_block_stored [OF assms(1,2)] by blast
  obtain e where e: "get_block_ext s (gi_hash index) = Some e" using assms(1,2) unfolding blocks_linked_def by blast
  obtain pv where pv: "get_block_header s (h_parent_hash hv) = Some pv" "unat (h_number hv) = Suc (unat (h_number pv))"
    using assms unfolding blocks_linked_def by metis
  have hv: "h_parent_hash (b_header b) = h_parent_hash hv" "bv_number b = gi_number index"
    using b(3) assms(3) bv_header_sel(1,2) [of b] by simp_all
  have n: "unat (gi_number index) = Suc (unat (gi_number index - 1))" by (rule unat_pred [OF assms(4)])
  then have "h_number pv = gi_number index - 1" using pv(2) assms(3) by (intro unat_eqI) simp
  moreover have "p_sub (gi_number index) 1 = (Ok (gi_number index - 1) :: u64 result)"
    using n by (simp add: p_sub_def checked_sub_def word_le_nat_alt)
  ultimately show ?thesis
    using b hv pv(1) e n unfolding attach_index_def mark_unseen_def gi_forward_def by auto
qed

text \<open>
  The state of the search: the blocks found so far are a branch above the index, off the main
  chain but for the new block, and the detached blocks are those of the main chain above the
  index, with those from the number of the new block on in reverse.
\<close>

definition off_main :: "store \<Rightarrow> block_view \<Rightarrow> bool" where
  "off_main s b \<longleftrightarrow> get_block_hash s (bv_number b) \<noteq> Some (bv_hash b)"

definition searched :: "store \<Rightarrow> nat \<Rightarrow> nat \<Rightarrow> block_view \<Rightarrow> fork_changes \<Rightarrow> global_index \<Rightarrow> bool" where
  "searched s new cur block fork index \<longleftrightarrow>
     (\<exists>hv. get_block_header s (gi_hash index) = Some hv \<and> h_number hv = gi_number index) \<and> unat (gi_number index) < new \<and>
     linked_from (gi_hash index) (attached_blocks fork) \<and>
     (\<exists>bs. attached_blocks fork = bs @ [block] \<and> (\<forall>b\<in>set bs. off_main s b)) \<and>
     list_all2 (main_at s) ([Suc (unat (gi_number index))..<min new (Suc cur)] @ rev [new..<Suc cur]) (detached_blocks fork)"

lemma searched_attach:
  assumes "blocks_linked s" and "searched s new cur block fork index" and "gi_number index \<noteq> 0"
    and "get_block_hash s (gi_number index) \<noteq> Some (gi_hash index)"
    and "list_all2 (main_at s) ([unat (gi_number index)..<min new (Suc cur)] @ rev [new..<Suc cur]) ds"
  shows "\<exists>fork' index'. attach_index s (fork\<lparr>detached_blocks := ds\<rparr>) index = Ok (fork', index') \<and> searched s new cur block fork' index' \<and>
     unat (gi_number index) = Suc (unat (gi_number index'))"
proof -
  obtain hv where hv: "get_block_header s (gi_hash index) = Some hv" "h_number hv = gi_number index"
    using assms(2) unfolding searched_def by blast
  obtain fork' index' b where step: "attach_index s (fork\<lparr>detached_blocks := ds\<rparr>) index = Ok (fork', index')"
     "attached_blocks fork' = b # attached_blocks fork" "detached_blocks fork' = ds"
     "bv_hash b = gi_hash index" "bv_number b = gi_number index" "gi_hash index' = h_parent_hash (b_header b)"
     "\<exists>pv. get_block_header s (gi_hash index') = Some pv \<and> h_number pv = gi_number index'"
     "unat (gi_number index) = Suc (unat (gi_number index'))"
    using attach_index_step [OF assms(1) hv assms(3), of "fork\<lparr>detached_blocks := ds\<rparr>"] by auto
  obtain bs where bs: "attached_blocks fork = bs @ [block]" "\<forall>b\<in>set bs. off_main s b" "linked_from (gi_hash index) (attached_blocks fork)"
    using assms(2) unfolding searched_def by blast
  have "off_main s b" using assms(4) step(4,5) by (simp add: off_main_def)
  then have "\<exists>bs. attached_blocks fork' = bs @ [block] \<and> (\<forall>b\<in>set bs. off_main s b)"
    using bs(1,2) step(2) by (intro exI [of _ "b # bs"]) simp
  then have "searched s new cur block fork' index'"
    using step(2-) bs(3) assms(2,5) unfolding searched_def by simp
  then show ?thesis using step(1,8) by blast
qed

lemma attach_down_to_searched:
  assumes "blocks_linked s" and "index_ends s cur" and "searched s new (unat cur) block fork index" and "cur \<le> gi_number index"
  shows "\<exists>fork' index'. attach_down_to s cur fork index = Ok (fork', index') \<and> gi_number index' = cur \<and>
     searched s new (unat cur) block fork' index'"
  using assms(3,4)
proof (induction "unat (gi_number index) - unat cur" arbitrary: fork index)
  case 0
  then have "gi_number index = cur" by (intro unat_eqI) (simp add: word_le_nat_alt)
  then show ?case using 0 by (subst attach_down_to.simps) simp
next
  case (Suc k)
  have lt: "unat cur < unat (gi_number index)" using Suc.hyps(2) by simp
  then have nz: "gi_number index \<noteq> 0" by auto
  have "get_block_hash s (gi_number index) = None" using assms(2) lt unfolding index_ends_def word_le_nat_alt by (metis not_le)
  moreover have "list_all2 (main_at s) ([unat (gi_number index)..<min new (Suc (unat cur))] @ rev [new..<Suc (unat cur)]) (detached_blocks fork)"
  proof -
    have "[Suc (unat (gi_number index))..<min new (Suc (unat cur))] = []" "[unat (gi_number index)..<min new (Suc (unat cur))] = []"
      using lt by (auto simp: min_def)
    then show ?thesis using Suc.prems(1) unfolding searched_def by metis
  qed
  ultimately obtain fork' index' where st: "attach_index s fork index = Ok (fork', index')" "searched s new (unat cur) block fork' index'"
      "unat (gi_number index) = Suc (unat (gi_number index'))"
    using searched_attach [OF assms(1) Suc.prems(1) nz, of "detached_blocks fork"] by auto
  have "\<exists>fork'' index''. attach_down_to s cur fork' index' = Ok (fork'', index'') \<and> gi_number index'' = cur \<and>
      searched s new (unat cur) block fork'' index''"
    by (rule Suc.hyps(1) [OF _ st(2)]) (use Suc.hyps(2) st(3) lt in \<open>auto simp: word_le_nat_alt\<close>)
  then show ?case using st(1) lt by (subst attach_down_to.simps) (simp add: word_less_nat_alt)
qed

lemma find_until_searched:
  assumes "blocks_linked s" and "index_ends s cur" and "searched s new (unat cur) block fork index"
    and "gi_number index \<le> cur" and "unat (gi_number index) < new"
  shows "\<exists>fork' index'. find_fork_until_latest_common s fork index = Ok (fork', index') \<and>
     searched s new (unat cur) block fork' index' \<and> get_block_hash s (gi_number index') = Some (gi_hash index')"
  using assms(3-)
proof (induction "unat (gi_number index)" arbitrary: fork index)
  case 0
  then have n: "gi_number index = 0" by (simp add: unat_eq_zero)
  obtain hv where "get_block_header s (gi_hash index) = Some hv" "h_number hv = gi_number index"
    using 0(2) unfolding searched_def by blast
  then have "get_block_hash s (gi_number index) = Some (gi_hash index)"
    using assms(1) n unfolding blocks_linked_def by metis
  then show ?case using n 0(2) by (subst find_fork_until_latest_common.simps) simp
next
  case (Suc k)
  then have nz: "gi_number index \<noteq> 0" by auto
  obtain h where h: "get_block_hash s (gi_number index) = Some h" using assms(2) Suc.prems(2) unfolding index_ends_def by blast
  show ?case
  proof (cases "h = gi_hash index")
    case True
    then show ?thesis using h Suc.prems(1) by (subst find_fork_until_latest_common.simps) auto
  next
    case False
    obtain dv where "get_block_header s h = Some dv" using h assms(2) unfolding index_ends_def index_linked_def by blast
    then obtain d where d: "load_block s h = Ok d" using load_block_stored [OF assms(1)] by blast
    have at: "main_at s (unat (gi_number index)) d" unfolding main_at_def using h d by simp
    have "[unat (gi_number index)..<min new (Suc (unat cur))] = unat (gi_number index) # [Suc (unat (gi_number index))..<min new (Suc (unat cur))]"
      using Suc.prems(2,3) by (intro upt_conv_Cons) (simp add: word_le_nat_alt)
    then have "list_all2 (main_at s) ([unat (gi_number index)..<min new (Suc (unat cur))] @ rev [new..<Suc (unat cur)]) (d # detached_blocks fork)"
      using at Suc.prems(1) unfolding searched_def by simp
    from searched_attach [OF assms(1) Suc.prems(1) nz _ this]
    obtain fork' index' where st: "attach_index s (fork\<lparr>detached_blocks := d # detached_blocks fork\<rparr>) index = Ok (fork', index')"
        "searched s new (unat cur) block fork' index'" "unat (gi_number index) = Suc (unat (gi_number index'))"
      using h False by auto
    have "\<exists>fork'' index''. find_fork_until_latest_common s fork' index' = Ok (fork'', index'') \<and>
        searched s new (unat cur) block fork'' index'' \<and> get_block_hash s (gi_number index'') = Some (gi_hash index'')"
      by (rule Suc.hyps(1) [OF _ st(2)]) (use Suc.hyps(2) Suc.prems st(3) in \<open>auto simp: word_le_nat_alt\<close>)
    then show ?thesis using st(1) h False d nz by (subst find_fork_until_latest_common.simps) simp
  qed
qed

lemma detach_numbers:
  assumes "blocks_linked s" and "index_ends s cur" and "n \<le> Suc (unat cur)"
  shows "m \<le> n \<Longrightarrow> \<exists>ds. try_fold (detach_number s) fork (map of_nat [m..<n]) = Ok (fork\<lparr>detached_blocks := ds @ detached_blocks fork\<rparr>) \<and>
     list_all2 (main_at s) (rev [m..<n]) ds"
proof (induction "n - m" arbitrary: m fork)
  case 0
  then show ?case by simp
next
  case (Suc k)
  then have lt: "m < n" by simp
  have "unat (of_nat m :: u64) = m" using lt assms(3) cap.amount_cap [of cur] by (simp add: unat_of_nat)
  then have "(of_nat m :: u64) \<le> cur" using lt assms(3) by (simp add: word_le_nat_alt)
  then obtain h where h: "get_block_hash s (of_nat m) = Some h" using assms(2) unfolding index_ends_def by blast
  obtain dv where "get_block_header s h = Some dv" using h assms(2) unfolding index_ends_def index_linked_def by blast
  then obtain d where d: "load_block s h = Ok d" using load_block_stored [OF assms(1)] by blast
  let ?fork = "fork\<lparr>detached_blocks := d # detached_blocks fork\<rparr>"
  have "k = n - Suc m" "Suc m \<le> n" using Suc.hyps(2) by simp_all
  from Suc.hyps(1) [OF this, of ?fork]
  obtain ds where ds: "try_fold (detach_number s) ?fork (map of_nat [Suc m..<n]) = Ok (?fork\<lparr>detached_blocks := ds @ detached_blocks ?fork\<rparr>)"
      "list_all2 (main_at s) (rev [Suc m..<n]) ds"
    by blast
  have "[m..<n] = m # [Suc m..<n]" using lt by (rule upt_conv_Cons)
  moreover have "main_at s m d" unfolding main_at_def using h d by blast
  ultimately show ?case using ds h d
    by (intro exI [of _ "ds @ [d]"]) (simp add: detach_number_def list_all2_appendI)
qed

lemma find_fork_searched:
  assumes "blocks_linked s" and "index_ends s cur" and "bv_number block \<noteq> 0"
    and "get_block_header s (h_parent_hash (b_header block)) = Some pv" and "unat (bv_number block) = Suc (unat (h_number pv))"
  shows "\<exists>fork index. find_fork s fork_default cur block ext = Ok fork \<and> searched s (unat (bv_number block)) (unat cur) block fork index \<and>
     get_block_hash s (gi_number index) = Some (gi_hash index)"
proof -
  let ?new = "bv_number block"
  define fork where "fork = fork_default\<lparr>dirty_exts := [ext], attached_blocks := [block]\<rparr>"
  define index where "index = \<lparr>gi_number = ?new - 1, gi_hash = h_parent_hash (b_header block), gi_unseen = True\<rparr>"
  have n: "unat ?new = Suc (unat (?new - 1))" by (rule unat_pred [OF assms(3)])
  then have pn: "h_number pv = ?new - 1" using assms(5) by (intro unat_eqI) simp
  have sub: "p_sub ?new 1 = (Ok (?new - 1) :: u64 result)" using n by (simp add: p_sub_def checked_sub_def word_le_nat_alt)
  have "\<exists>fork1 index1. alignment_fork s fork index ?new cur = Ok (fork1, index1) \<and> searched s (unat ?new) (unat cur) block fork1 index1 \<and>
      gi_number index1 \<le> cur \<and> unat (gi_number index1) < unat ?new"
  proof (cases "?new \<le> cur")
    case True
    then have le: "unat ?new \<le> Suc (unat cur)" "min (unat ?new) (Suc (unat cur)) = unat ?new" by (simp_all add: word_le_nat_alt)
    obtain ds where ds: "try_fold (detach_number s) fork (map of_nat [unat ?new..<Suc (unat cur)]) = Ok (fork\<lparr>detached_blocks := ds @ detached_blocks fork\<rparr>)"
        "list_all2 (main_at s) (rev [unat ?new..<Suc (unat cur)]) ds"
      using detach_numbers [OF assms(1,2) le_refl le(1)] by blast
    then have "searched s (unat ?new) (unat cur) block (fork\<lparr>detached_blocks := ds @ detached_blocks fork\<rparr>) index"
      using assms(4) pn n le(2) by (simp add: searched_def fork_def index_def fork_default_def)
    moreover have "gi_number index \<le> cur" "unat (gi_number index) < unat ?new"
      using True n by (simp_all add: index_def word_le_nat_alt)
    ultimately show ?thesis using True ds(1) unfolding alignment_fork_def by simp
  next
    case False
    then have "[Suc (unat (gi_number index))..<min (unat ?new) (Suc (unat cur))] = []" "[unat ?new..<Suc (unat cur)] = []"
      using n by (auto simp: index_def word_le_nat_alt)
    then have "searched s (unat ?new) (unat cur) block fork index"
      using assms(4) pn n by (simp add: searched_def fork_def index_def fork_default_def)
    moreover have "cur \<le> gi_number index" using False n by (simp add: index_def word_le_nat_alt)
    ultimately obtain fork1 index1 where "attach_down_to s cur fork index = Ok (fork1, index1)" "gi_number index1 = cur"
        "searched s (unat ?new) (unat cur) block fork1 index1"
      using attach_down_to_searched [OF assms(1,2)] by blast
    then show ?thesis using False unfolding alignment_fork_def by (auto simp: word_le_nat_alt)
  qed
  then obtain fork1 index1 where al: "alignment_fork s fork index ?new cur = Ok (fork1, index1)"
      "searched s (unat ?new) (unat cur) block fork1 index1" "gi_number index1 \<le> cur" "unat (gi_number index1) < unat ?new" by blast
  obtain fork2 index2 where f: "find_fork_until_latest_common s fork1 index1 = Ok (fork2, index2)"
      "searched s (unat ?new) (unat cur) block fork2 index2" "get_block_hash s (gi_number index2) = Some (gi_hash index2)"
    using find_until_searched [OF assms(1,2) al(2-)] by blast
  have "find_fork s fork_default cur block ext = Ok fork2"
    using al(1) f(1) sub unfolding find_fork_def Let_def fork_def index_def by (simp add: fork_default_def)
  then show ?thesis using f(2,3) by blast
qed

section \<open>The cell set across a reorganisation\<close>

lemma attach_main_side:
  "attach_main b (s\<lparr>st_ext := e, st_epoch := a, st_epoch_number := n, st_block_epoch := c, st_tip := t, st_current_epoch := d\<rparr>) =
     (attach_main b s)\<lparr>st_ext := e, st_epoch := a, st_epoch_number := n, st_block_epoch := c, st_tip := t, st_current_epoch := d\<rparr>"
  by (simp add: attach_main_cell_set attach_block_def Let_def fold_put_info fold_put_uncles case_prod_unfold)

lemma built_side:
  "built bs s \<Longrightarrow> built bs (s\<lparr>st_ext := e, st_epoch := a, st_epoch_number := n, st_block_epoch := c, st_tip := t, st_current_epoch := d\<rparr>)"
proof (induction bs arbitrary: s)
  case (Cons b bs)
  let ?u = "\<lambda>s :: store. s\<lparr>st_ext := e, st_epoch := a, st_epoch_number := n, st_block_epoch := c, st_tip := t, st_current_epoch := d\<rparr>"
  obtain s0 where s0: "built bs s0" "s = attach_main b s0" "stored s0 b" "fresh_block s0 b" "hashes_ok b" "spendable s0 b" "in_order b"
    using Cons.prems by auto
  then have "stored (?u s0) b" "fresh_block (?u s0) b" "spendable (?u s0) b"
    by (simp_all add: stored_def fresh_block_def spendable_def)
  then show ?case using Cons.IH [OF s0(1)] s0(2,5,7) attach_main_side by auto
qed simp

lemma built_ext: "built bs s \<Longrightarrow> built bs (s\<lparr>st_ext := e\<rparr>)"
  using built_side [of bs s, where e = e and a = "st_epoch s" and n = "st_epoch_number s" and c = "st_block_epoch s" and t = "st_tip s"
      and d = "st_current_epoch s"] by simp

lemma attach_main_ext: "attach_main b (s\<lparr>st_ext := e\<rparr>) = (attach_main b s)\<lparr>st_ext := e\<rparr>"
  by (simp add: attach_main_cell_set attach_block_def Let_def fold_put_info fold_put_uncles case_prod_unfold)

text \<open>The blocks of a branch are stored, and none of their keys is in the index when it is their turn.\<close>

fun branch_fresh :: "store \<Rightarrow> block_view list \<Rightarrow> bool" where
  "branch_fresh s [] \<longleftrightarrow> True"
| "branch_fresh s (b # bs) \<longleftrightarrow> stored s b \<and> fresh_block s b \<and> hashes_ok b \<and> branch_fresh (attach_main b s) bs"

lemma branch_fresh_ext: "branch_fresh (s\<lparr>st_ext := e\<rparr>) bs = branch_fresh s bs"
  by (induction bs arbitrary: s) (auto simp: stored_def fresh_block_def attach_main_ext)

lemma reconcile_fold_built:
  assumes "\<not> disable_all sw"
  shows "tryo_fold (reconcile_block E C sw) (s, cache, None) xs = Some (Ok (s', cache', None)) \<Longrightarrow> built bs s \<Longrightarrow>
     branch_fresh s (map snd xs) \<Longrightarrow> built (rev (map snd xs) @ bs) s'"
proof (induction xs arbitrary: s cache bs)
  case (Cons x xs)
  obtain ext b where x: "x = (ext, b)" by (cases x)
  from Cons.prems(1) obtain s1 c1 e1 where step: "reconcile_block E C sw (s, cache, None) (ext, b) = Some (Ok (s1, c1, e1))"
      "tryo_fold (reconcile_block E C sw) (s1, c1, e1) xs = Some (Ok (s', cache', None))"
    by (auto simp: x outcome_simps)
  have e1: "e1 = None" using reconcile_error_stays step(2) by (cases e1) fastforce+
  obtain fees rs where s1: "s1 = write_ext b ext True fees (attach_main b s)"
      and rs: "resolve_block (e_ext E) (e_system E) (store_cell (e_ext E) s) (check_valid (e_ext E) C s) b = Ok rs"
    using reconcile_block_Ok [of E C sw s cache None ext b s1 c1] step(1) e1 assms by auto
  have "spendable s b" "in_order b" using resolved_spendable [OF rs] resolved_in_order [OF rs] .
  then have "built (b # bs) (attach_main b s)" using Cons.prems(2,3) by (auto simp: x)
  then have "built (b # bs) s1" unfolding s1 write_ext_def insert_block_ext_def by (rule built_ext)
  moreover have "branch_fresh s1 (map snd xs)"
    using Cons.prems(3) unfolding s1 write_ext_def insert_block_ext_def by (simp add: x branch_fresh_ext)
  ultimately have "built (rev (map snd xs) @ b # bs) s'" using Cons.IH step(2) e1 by blast
  then show ?case by (simp add: x)
qed simp

lemma main_at_unique: "main_at s k b \<Longrightarrow> main_at s k c \<Longrightarrow> b = c"
  unfolding main_at_def by auto

lemma main_at_list:
  assumes "list_all2 (main_at s) [0..<n] ms" and "list_all2 (main_at s) ns ds" and "set ns \<subseteq> {..<n}"
  shows "ds = map ((!) ms) ns"
proof (rule nth_equalityI)
  show "length ds = length (map ((!) ms) ns)" using assms(2) by (simp add: list_all2_lengthD)
  fix i assume i: "i < length ds"
  then have l: "i < length ns" using assms(2) by (simp add: list_all2_lengthD)
  then have k: "ns ! i < n" using assms(3) nth_mem by blast
  have "main_at s (ns ! i) (ds ! i)" using list_all2_nthD [OF assms(2) l] .
  moreover have "main_at s ([0..<n] ! (ns ! i)) (ms ! (ns ! i))" using list_all2_nthD [OF assms(1), of "ns ! i"] k by simp
  ultimately show "ds ! i = map ((!) ms) ns ! i" using main_at_unique k l by simp
qed

lemma numbers_mset:
  assumes "a < new" and "a \<le> cur"
  shows "mset ([Suc a..<min new (Suc cur)] @ rev [new..<Suc cur]) = mset [Suc a..<Suc cur]"
proof (cases "new \<le> cur")
  case True
  then have "[Suc a..<Suc cur] = [Suc a..<new] @ [new..<Suc cur]" 
    using upt_add_eq_append [of "Suc a" new "Suc cur - new"] assms(1) by simp
  moreover have "min new (Suc cur) = new" using True by simp
  ultimately show ?thesis by simp
next
  case False
  then have "min new (Suc cur) = Suc cur" "[new..<Suc cur] = []" by auto
  then show ?thesis by simp
qed

text \<open>A fork meets the main chain at one block, and rolling it back leaves the main chain up to that block.\<close>

definition fork_meets :: "store \<Rightarrow> block_view list \<Rightarrow> nat \<Rightarrow> block_view \<Rightarrow> fork_changes \<Rightarrow> nat \<Rightarrow> bool" where
  "fork_meets s ms cur block fork a \<longleftrightarrow> a \<le> cur \<and> a < unat (bv_number block) \<and> linked_from (bv_hash (ms ! a)) (attached_blocks fork) \<and>
     (\<exists>bs. attached_blocks fork = bs @ [block] \<and> (\<forall>b\<in>set bs. off_main s b)) \<and>
     detached_blocks fork = map ((!) ms) ([Suc a..<min (unat (bv_number block)) (Suc cur)] @ rev [unat (bv_number block)..<Suc cur])"

lemma find_fork_meets:
  assumes "blocks_linked s" and "index_ends s cur" and "bv_number block \<noteq> 0"
    and "get_block_header s (h_parent_hash (b_header block)) = Some pv" and "unat (bv_number block) = Suc (unat (h_number pv))"
    and "list_all2 (main_at s) [0..<Suc (unat cur)] ms"
  shows "\<exists>fork a. find_fork s fork_default cur block ext = Ok fork \<and> fork_meets s ms (unat cur) block fork a"
proof -
  obtain fork index where f: "find_fork s fork_default cur block ext = Ok fork" "searched s (unat (bv_number block)) (unat cur) block fork index"
      "get_block_hash s (gi_number index) = Some (gi_hash index)" using find_fork_searched [OF assms(1-5)] by blast
  let ?a = "unat (gi_number index)" and ?new = "unat (bv_number block)"
  note se = f(2) [unfolded searched_def]
  have a: "?a \<le> unat cur" "?a < ?new" using f(3) assms(2) se unfolding index_ends_def word_le_nat_alt by blast+
  have "main_at s ([0..<Suc (unat cur)] ! ?a) (ms ! ?a)" using list_all2_nthD [OF assms(6), of ?a] a(1) by simp
  then have "load_block s (gi_hash index) = Ok (ms ! ?a)" using a(1) f(3) by (auto simp: main_at_def simp del: upt_Suc)
  moreover obtain hv where "get_block_header s (gi_hash index) = Some hv" using se by blast
  ultimately have "bv_hash (ms ! ?a) = gi_hash index" using load_block_stored [OF assms(1)] by fastforce
  moreover have "detached_blocks fork = map ((!) ms) ([Suc ?a..<min ?new (Suc (unat cur))] @ rev [?new..<Suc (unat cur)])"
    by (rule main_at_list [OF assms(6)]) (use se in auto)
  ultimately have "fork_meets s ms (unat cur) block fork ?a" using a se unfolding fork_meets_def by simp
  then show ?thesis using f(1) by blast
qed

lemma fork_meets_detached:
  assumes "fork_meets s ms cur block fork a" and "length ms = Suc cur"
  shows "mset (detached_blocks fork) = mset (drop (Suc a) ms)"
proof -
  have a: "a \<le> cur" "a < unat (bv_number block)" using assms(1) by (simp_all add: fork_meets_def)
  have "drop (Suc a) ms = map ((!) ms) [Suc a..<Suc cur]" using drop_eq_nths assms(2) by (metis map_nth drop_map drop_upt add_0)
  then show ?thesis using numbers_mset [OF a(2,1)] assms(1) unfolding fork_meets_def by (metis mset_map)
qed

lemma fork_meets_rollback:
  assumes "fork_meets s ms cur block fork a" and "length ms = Suc cur" and "built (rev ms) s1"
  shows "\<exists>s'. rollback fork s1 = Ok s' \<and> built (rev (take (Suc a) ms)) s'"
proof -
  have "mset (rev (detached_blocks fork)) = mset (rev (drop (Suc a) ms))" using fork_meets_detached [OF assms(1,2)] by simp
  moreover have "built (rev (drop (Suc a) ms) @ rev (take (Suc a) ms)) s1"
    using assms(3) by (metis append_take_drop_id rev_append)
  ultimately show ?thesis using built_rollback unfolding rollback_def by blast
qed

end
