(* ===== verification/Chain_Reorg.thy ===== *)
theory Chain_Reorg
  imports Chain_Fork
begin

text \<open>
  The chain service as a whole: the invariants of a run, and the cell set after a new best block,
  with or without a reorganisation.
\<close>

section \<open>The service\<close>

text \<open>The database of the service holds a linked main chain \<open>ms\<close>, genesis first, that ends at the tip.\<close>

definition chain_sound :: "'t chain_service \<Rightarrow> block_view list \<Rightarrow> bool" where
  "chain_sound st ms \<longleftrightarrow> blocks_linked (cs_store st) \<and> index_ends (cs_store st) (h_number (cs_tip_header st)) \<and>
     list_all2 (main_at (cs_store st)) [0..<Suc (unat (h_number (cs_tip_header st)))] ms \<and> built (rev ms) (cs_store st)"

text \<open>The parent of a new block is stored below it.\<close>

definition follows :: "store \<Rightarrow> block_view \<Rightarrow> bool" where
  "follows s block \<longleftrightarrow> st_header s (bv_hash block) = None \<and> st_body s (bv_hash block) = [] \<and> bv_number block \<noteq> 0 \<and>
     (\<exists>pv. get_block_header s (h_parent_hash (b_header block)) = Some pv \<and> unat (bv_number block) = Suc (unat (h_number pv)))"

text \<open>
  After the rollback, the part of the branch that was verified before continues the main chain,
  and the keys of the rest are new when it is their turn.
\<close>

definition branch_ready :: "block_view list \<Rightarrow> fork_changes \<Rightarrow> store \<Rightarrow> bool" where
  "branch_ready bs fork s \<longleftrightarrow>
     (let n = length (attached_blocks fork) - length (dirty_exts fork); s' = fold attach_main (take n (attached_blocks fork)) s
      in built (rev (take n (attached_blocks fork)) @ bs) s' \<and> branch_fresh s' (drop n (attached_blocks fork)))"

lemma built_block_stored:
  assumes "built bs s" and "st_header s (bv_hash block) = None" and "st_body s (bv_hash block) = []"
  shows "built bs (block_stored block epoch s)"
proof -
  have b: "built bs (insert_block block s)" using assms by (rule built_insert_block)
  let ?t = "insert_block block s"
  have "block_stored block epoch s = ?t\<lparr>st_ext := st_ext ?t, st_epoch := (st_epoch ?t)(ee_last_block_hash_in_previous_epoch epoch \<mapsto> epoch),
      st_epoch_number := (st_epoch_number ?t)(ee_number epoch \<mapsto> ee_last_block_hash_in_previous_epoch epoch),
      st_block_epoch := (st_block_epoch ?t)(bv_hash block \<mapsto> ee_last_block_hash_in_previous_epoch epoch),
      st_tip := st_tip ?t, st_current_epoch := st_current_epoch ?t\<rparr>"
    by (rule store.equality) (simp_all add: block_stored_def insert_epoch_ext_def insert_block_epoch_index_def)
  then show ?thesis by (simp only: built_side [OF b])
qed

lemma reconcile_built:
  assumes "reconcile_main_chain E C sw fork s cache = Some (Ok (s', cache', None))" and "\<not> disable_all sw" and "branch_ready bs fork s"
    and "length (dirty_exts fork) \<le> length (attached_blocks fork)"
  shows "built (rev (attached_blocks fork) @ bs) s'"
proof -
  let ?n = "length (attached_blocks fork) - length (dirty_exts fork)"
  let ?xs = "zip (dirty_exts fork) (drop ?n (attached_blocks fork))"
  have snd: "map snd ?xs = drop ?n (attached_blocks fork)" using assms(4) by simp
  have "tryo_fold (reconcile_block E C sw) (fold attach_main (take ?n (attached_blocks fork)) s, cache, None) ?xs = Some (Ok (s', cache', None))"
    using assms(1,4) unfolding reconcile_main_chain_def verified_len_def by (auto simp: Let_def)
  from reconcile_fold_built [OF assms(2) this, unfolded snd]
  have "built (rev (drop ?n (attached_blocks fork)) @ rev (take ?n (attached_blocks fork)) @ bs) s'"
    using assms(3) unfolding branch_ready_def Let_def by simp
  then show ?thesis by (metis append.assoc append_take_drop_id rev_append)
qed

lemma new_best_block_reconciled:
  assumes "new_best_block E C sw st block ext epoch ne s = Some (Ok r, st')"
    and "find_fork (cs_store st) fork_default (h_number (cs_tip_header st)) block ext = Ok fork" and "rollback fork s = Ok s1"
  shows "\<exists>s2 cache tip cur. reconcile_main_chain E C sw fork s1 (cs_txs_verify_cache st) = Some (Ok (s2, cache, None)) \<and>
     cs_store st' = s2\<lparr>st_tip := tip, st_current_epoch := cur\<rparr>"
proof -
  obtain s2 cache where rec: "reconcile_main_chain E C sw fork s1 (cs_txs_verify_cache st) = Some (Ok (s2, cache, None))"
    using assms unfolding new_best_block_def by (auto simp: Let_def split: outcome.splits option.splits prod.splits)
  moreover have "\<exists>tip cur. cs_store st' = s2\<lparr>st_tip := tip, st_current_epoch := cur\<rparr>"
    using assms rec unfolding new_best_block_def
    by (auto simp: Let_def insert_tip_header_def insert_current_epoch_ext_def
        split: outcome.splits if_splits prod.splits intro!: exI store.equality)
  ultimately show ?thesis by blast
qed

text \<open>The thread of the service handles one request after the other, and a panic ends it.\<close>

inductive chain_step :: "('z, 'c, 't) env \<Rightarrow> consensus \<Rightarrow> 't chain_service \<Rightarrow> 't chain_service \<Rightarrow> bool" for E C where
  handled: "process_block E C sw now st block = Some (r, st') \<Longrightarrow> r \<noteq> Panic \<Longrightarrow> chain_step E C st st'"

lemma bv_header_hash: "h_hash (bv_header block) = bv_hash block"
  by (simp add: bv_header_def header_view_of_def header.defs)

lemma heaviest_process_block:
  assumes "heaviest st" and "process_block E C sw now st block = Some (r, st')" and "r \<noteq> Panic"
  shows "heaviest st' \<and> ((cs_tip_header st' = cs_tip_header st \<and> cs_total_difficulty st' = cs_total_difficulty st) \<or>
     (r = Ok True \<and> cs_tip_header st' = bv_header block \<and> cs_total_difficulty st < cs_total_difficulty st'))"
proof (cases rule: process_block_cases [OF assms(2,3)])
  case (3 ext epoch)
  have "bv_hash block \<noteq> h_hash (cs_tip_header st)" using 3(2) assms(1) by (auto simp: heaviest_def block_exists_def)
  then show ?thesis using assms(1) 3(4,5) by (auto simp: heaviest_def insert_block_ext_def block_stored_columns)
next
  case (4 ext epoch ne)
  then show ?thesis using heaviest_new_tip [OF assms(1) 4(4,5)] by simp
qed (use assms(1) in \<open>auto simp: heaviest_def\<close>)

definition no_invalid :: "store \<Rightarrow> bool" where
  "no_invalid s \<longleftrightarrow> (\<forall>h e. st_ext s h = Some e \<longrightarrow> ext_verified e \<noteq> Some False)"

lemma no_invalid_process_block:
  assumes "no_invalid (cs_store st)" and "process_block E C sw now st block = Some (r, st')" and "r \<noteq> Panic"
  shows "no_invalid (cs_store st')"
proof (cases rule: process_block_cases [OF assms(2,3)])
  case (3 ext epoch)
  then show ?thesis using assms(1) by (auto simp: no_invalid_def insert_block_ext_def block_stored_columns)
next
  case (4 ext epoch ne)
  obtain fork s1 xs tip cur where s1: "rollback fork (block_stored block epoch (cs_store st)) = Ok s1"
    and st': "cs_store st' = (attach_branch xs (fold attach_main (take (length (attached_blocks fork) - length (dirty_exts fork))
        (attached_blocks fork)) s1))\<lparr>st_tip := tip, st_current_epoch := cur\<rparr>"
    using new_best_block_Ok [OF 4(5)] by metis
  have "st_ext s1 = st_ext (cs_store st)" using rollback_columns [OF s1] by (simp add: block_stored_columns)
  then show ?thesis using assms(1) attach_branch_ext(1) [of xs _] fold_attach_columns [of _ s1]
    unfolding no_invalid_def st' by fastforce
qed (use assms(1) in \<open>auto simp: no_invalid_def\<close>)

text \<open>Preparing a block fails in its own rules or because its parent is marked invalid.\<close>

lemma verify_block_Err: "verify_block X C b = Err e \<Longrightarrow> \<exists>k. e = Block k"
  by (auto simp: verify_block_def block_proposals_limit_verify_def block_bytes_verify_def cellbase_verify_def duplicate_verify_def
      merkle_root_verify_def serialized_size_without_uncle_proposals_def Let_def outcome_simps split: if_splits outcome.splits option.splits)

lemma hash_rate_no_err: "adjusted_hash_rate N a b c d f \<noteq> Err e"
  by (auto simp: adjusted_hash_rate_def Let_def outcome_simps panic_simps split: if_splits)

lemma next_length_no_err: "next_epoch_length N C b c d f \<noteq> Err e"
  by (auto simp: next_epoch_length_def bounding_epoch_length_def Let_def outcome_simps panic_simps split: if_splits)

lemma reward_no_err: "primary_epoch_reward_of_next_epoch C l \<noteq> Err e"
  by (auto simp: primary_epoch_reward_of_next_epoch_def primary_epoch_reward_def ee_primary_reward_def Let_def outcome_simps panic_simps split: if_splits)

lemma next_epoch_no_err: "next_epoch_ext N C l h g u \<noteq> Err e"
  by (auto simp: next_epoch_ext_def Let_def outcome_simps panic_simps hash_rate_no_err next_length_no_err reward_no_err split: if_splits option.splits)

lemma prepare_block_Err:
  assumes "prepare_block E C sw now s block = Err e" and "no_invalid s"
  shows "\<exists>k. e = Block k"
  using assms verify_block_Err
  by (auto simp: prepare_block_def store_next_epoch_ext_def Let_def no_invalid_def get_block_ext_def outcome_simps panic_simps next_epoch_no_err
      split: if_splits)

section \<open>An example\<close>

text \<open>
  A genesis block, a block on top of it and a heavier block of the same number, each with a
  cellbase only. The service has the first two on its main chain and is given the third.
\<close>

definition example_zero_block :: block_view where
  "example_zero_block = block.extend
     \<lparr>b_header = example_header\<lparr>h_number := 0\<rparr>, b_uncles = [], b_transactions = [example_cellbase_tx], b_proposals = []\<rparr>
     \<lparr>bv_hash = replicate 32 1, bv_uncle_hashes = [], bv_tx_hashes = [replicate 32 8], bv_tx_witness_hashes = [replicate 32 8]\<rparr>"

definition example_old_block :: block_view where
  "example_old_block = block.extend
     \<lparr>b_header = example_header\<lparr>h_number := 1, h_parent_hash := replicate 32 1\<rparr>, b_uncles = [],
      b_transactions = [example_cellbase_tx], b_proposals = []\<rparr>
     \<lparr>bv_hash = replicate 32 3, bv_uncle_hashes = [], bv_tx_hashes = [replicate 32 10], bv_tx_witness_hashes = [replicate 32 10]\<rparr>"

definition example_record :: "u256 \<Rightarrow> block_ext" where
  "example_record d = \<lparr>ext_received_at = 0, ext_total_difficulty = d, ext_total_uncles_count = 0, ext_verified = Some True, ext_txs_fees = []\<rparr>"

definition example_stored :: store where
  "example_stored = (insert_block example_old_block (insert_block example_zero_block store_empty))\<lparr>
     st_ext := [replicate 32 1 \<mapsto> example_record 1, replicate 32 3 \<mapsto> example_record 2],
     st_epoch := [byte32_zero \<mapsto> example_first_epoch], st_epoch_number := [0 \<mapsto> byte32_zero],
     st_block_epoch := [replicate 32 1 \<mapsto> byte32_zero, replicate 32 3 \<mapsto> byte32_zero],
     st_tip := Some (replicate 32 3), st_current_epoch := Some example_first_epoch\<rparr>"

definition example_service :: "(nat \<times> (byte32 \<times> cache_entry) list) chain_service" where
  "example_service = \<lparr>cs_store = attach_main example_old_block (attach_main example_zero_block example_stored),
     cs_tip_header = bv_header example_old_block, cs_total_difficulty = 2, cs_epoch_ext = example_first_epoch,
     cs_proposals = proposal_view_default, cs_proposal_table = pt_new (c_tx_proposal_window example_next_consensus),
     cs_txs_verify_cache = lru_new lru_list 9\<rparr>"

definition example_env where
  "example_env = \<lparr>e_ext = ext_word, e_vm = example_vm, e_order = map snd, e_collect = collect_seq, e_times = lru_list, e_txs = lru_list,
     e_system = None, e_fuel = 0\<rparr>"

definition example_switch :: switch where
  "example_switch = \<lparr>disable_epoch = False, disable_uncles = True, disable_two_phase_commit = True, disable_daoheader = True,
     disable_reward = True, disable_non_contextual = True\<rparr>"

lemma example_blocks_sel:
  "bv_hash example_zero_block = replicate 32 1" "bv_hash example_old_block = replicate 32 3" "bv_hash example_next_block = replicate 32 2"
  "bv_number example_zero_block = 0" "bv_number example_old_block = 1"
  "bv_uncles example_zero_block = []" "bv_uncles example_old_block = []" "bv_uncles example_next_block = []"
  "bv_tx_hashes example_zero_block = [replicate 32 8]" "bv_tx_hashes example_old_block = [replicate 32 10]"
  "bv_tx_hashes example_next_block = [replicate 32 9]"
  "h_parent_hash (b_header example_old_block) = replicate 32 1"
  "b_uncles example_zero_block = []" "b_uncles example_old_block = []"
  by (simp_all add: example_zero_block_def example_old_block_def example_next_block_def block.defs bv_number_def bv_uncles_def)

lemma example_blocks_txs:
  "bv_transactions example_zero_block = [tx_view example_cellbase_tx (replicate 32 8) (replicate 32 8)]"
  "bv_transactions example_old_block = [tx_view example_cellbase_tx (replicate 32 10) (replicate 32 10)]"
  "bv_transactions example_next_block = [tx_view example_cellbase_tx (replicate 32 9) (replicate 32 9)]"
  by (simp_all add: example_zero_block_def example_old_block_def example_next_block_def block.defs bv_transactions_def)

lemma example_blocks_ok: "hashes_ok example_zero_block" "hashes_ok example_old_block" "hashes_ok example_next_block"
  by (simp_all add: hashes_ok_def view_ok_def example_zero_block_def example_old_block_def example_next_block_def block.defs
      byte32_is_zero_def list_all_iff)

lemma example_cellbase_spends: "input_pts (tx_view example_cellbase_tx h w) = [out_point_null]"
  by (simp add: input_pts_def example_cellbase_tx_def new_cellbase_input_def cell_input_new_def)

lemma cellbase_spendable:
  assumes "bv_transactions b = [tx]" and "input_pts tx = [out_point_null]" and "\<not> byte32_is_zero (tx_hash tx)"
  shows "spendable s b" and "in_order b"
proof -
  have z: "byte32_is_zero (op_tx_hash out_point_null)" by (simp add: out_point_null_def byte32_is_zero_def byte32_zero_def list_all_iff)
  then have "positions k [out_point_null] = []" if "\<not> byte32_is_zero k" for k using that by (auto simp: positions_def)
  then show "spendable s b" by (auto simp: spendable_def assms(1,2) live_at_def split: option.splits)
  show "in_order b" using assms(3) z by (auto simp: in_order_def assms(1,2))
qed

lemma attach_main_rest [simp]:
  "st_uncle (attach_main b s) = st_uncle s" "st_proposals (attach_main b s) = st_proposals s" "st_body (attach_main b s) = st_body s"
  "st_epoch (attach_main b s) = st_epoch s" "st_block_epoch (attach_main b s) = st_block_epoch s" "st_tip (attach_main b s) = st_tip s"
  "st_index_hash (attach_main b s) = (st_index_hash s)(bv_number b \<mapsto> bv_hash b)"
  "st_index_number (attach_main b s) = (st_index_number s)(bv_hash b \<mapsto> bv_number b)"
  by (simp_all add: attach_main_cell_set attach_block_def Let_def fold_put_info fold_put_uncles case_prod_unfold)

lemma get_block_columns:
  assumes "stored s b" and "st_uncle s (bv_hash b) = Some (b_uncles b, bv_uncle_hashes b)" and "st_proposals s (bv_hash b) = Some (b_proposals b)"
    and "hashes_ok b"
  shows "load_block s (bv_hash b) = Ok b"
proof -
  have v: "view_ok b" using assms(4) by (simp add: hashes_ok_def)
  have "get_block_body s (bv_hash b) = bv_transactions b"
    using assms(1) by (simp add: get_block_body_def stored_def body_entries_def case_prod_unfold comp_def)
  then show ?thesis
    using assms(1-3) view_ok_transactions [OF v]
    by (simp add: load_block_def get_block_def get_block_header_def get_block_uncles_def get_block_proposal_txs_ids_def stored_def
        new_unchecked_def bv_header_def header_view_of_def header.defs block.defs)
qed

lemma example_stored_columns:
  "st_header example_stored = [replicate 32 1 \<mapsto> bv_header example_zero_block, replicate 32 3 \<mapsto> bv_header example_old_block]"
  "stored example_stored example_zero_block" "stored example_stored example_old_block"
  "st_uncle example_stored (replicate 32 1) = Some (b_uncles example_zero_block, bv_uncle_hashes example_zero_block)"
  "st_uncle example_stored (replicate 32 3) = Some (b_uncles example_old_block, bv_uncle_hashes example_old_block)"
  "st_proposals example_stored (replicate 32 1) = Some (b_proposals example_zero_block)"
  "st_proposals example_stored (replicate 32 3) = Some (b_proposals example_old_block)"
  "st_ext example_stored = [replicate 32 1 \<mapsto> example_record 1, replicate 32 3 \<mapsto> example_record 2]"
  "st_block_epoch example_stored = [replicate 32 1 \<mapsto> byte32_zero, replicate 32 3 \<mapsto> byte32_zero]"
  "st_epoch example_stored = [byte32_zero \<mapsto> example_first_epoch]" "st_tip example_stored = Some (replicate 32 3)"
  "st_index_hash example_stored = Map.empty" "st_index_number example_stored = Map.empty" "st_cell_set example_stored = Map.empty"
  "st_tx_info example_stored = Map.empty" "st_uncles example_stored = Map.empty" "st_body example_stored (replicate 32 2) = []"
proof -
  show "stored example_stored example_zero_block"
    using stored_insert_block [of store_empty example_zero_block] example_blocks_ok
    by (simp add: stored_def example_stored_def insert_block_columns store_empty_def example_blocks_sel)
  show "stored example_stored example_old_block"
    using stored_insert_block [of "insert_block example_zero_block store_empty" example_old_block] example_blocks_ok
    by (simp add: stored_def example_stored_def insert_block_columns store_empty_def example_blocks_sel)
qed (simp_all add: example_stored_def insert_block_columns store_empty_def example_blocks_sel)

lemma example_service_sel:
  "cs_store example_service = attach_main example_old_block (attach_main example_zero_block example_stored)"
  "cs_tip_header example_service = bv_header example_old_block" "h_number (cs_tip_header example_service) = 1"
  "cs_total_difficulty example_service = 2" "cs_txs_verify_cache example_service = lru_new lru_list 9"
  by (simp_all add: example_service_def bv_header_sel example_blocks_sel)

lemma example_loads: "load_block (cs_store example_service) (replicate 32 1) = Ok example_zero_block"
  "load_block (cs_store example_service) (replicate 32 3) = Ok example_old_block"
proof -
  have "stored (cs_store example_service) example_zero_block" "stored (cs_store example_service) example_old_block"
    using example_stored_columns(2,3) by (simp_all add: stored_def example_service_sel)
  then show "load_block (cs_store example_service) (replicate 32 1) = Ok example_zero_block"
    "load_block (cs_store example_service) (replicate 32 3) = Ok example_old_block"
    using get_block_columns [of _ example_zero_block] get_block_columns [of _ example_old_block] example_blocks_ok
    by (simp_all add: example_stored_columns example_service_sel example_blocks_sel)
qed

lemma example_attached:
  assumes "stored s example_zero_block" and "stored s example_old_block"
    and "st_cell_set s = Map.empty" "st_tx_info s = Map.empty" "st_index_number s = Map.empty" "st_index_hash s = Map.empty"
  shows "built [example_zero_block] (attach_main example_zero_block s)"
    and "fresh_block (attach_main example_zero_block s) example_old_block"
    and "built [example_old_block, example_zero_block] (attach_main example_old_block (attach_main example_zero_block s))"
proof -
  have sp: "spendable s' example_zero_block" "in_order example_zero_block" "spendable s' example_old_block" "in_order example_old_block" for s'
    using cellbase_spendable [OF example_blocks_txs(1) example_cellbase_spends] cellbase_spendable [OF example_blocks_txs(2) example_cellbase_spends]
    by (simp_all add: byte32_is_zero_def list_all_iff)
  show b: "built [example_zero_block] (attach_main example_zero_block s)"
    using assms example_blocks_ok sp by (auto simp: fresh_block_def example_blocks_sel)
  have "st_tx_info (attach_main example_zero_block s) (replicate 32 10) = None"
    "st_cell_set (attach_main example_zero_block s) (replicate 32 10) = None"
    using assms by (simp_all add: attach_main_cell_set attach_block_infos attach_at_def example_blocks_txs example_blocks_sel
        example_cellbase_spends spend_at_def)
  then show f: "fresh_block (attach_main example_zero_block s) example_old_block"
    using assms by (simp add: fresh_block_def example_blocks_sel)
  show "built [example_old_block, example_zero_block] (attach_main example_old_block (attach_main example_zero_block s))"
    by (subst built.simps(2), intro exI conjI, rule b, rule refl) (use f sp example_blocks_ok assms(2) in \<open>simp_all add: stored_def\<close>)
qed

lemma example_chain_sound: "chain_sound example_service [example_zero_block, example_old_block]"
proof -
  let ?s = "cs_store example_service"
  have idx: "get_block_hash ?s k = (if k = 0 then Some (replicate 32 1) else if k = 1 then Some (replicate 32 3) else None)" for k
    by (simp add: get_block_hash_def example_service_sel example_stored_columns example_blocks_sel)
  have hdr: "get_block_header ?s h = (if h = replicate 32 1 then Some (bv_header example_zero_block)
      else if h = replicate 32 3 then Some (bv_header example_old_block) else None)" for h
    by (simp add: get_block_header_def example_service_sel example_stored_columns)
  have "blocks_linked ?s"
    unfolding blocks_linked_def hdr idx
    by (auto simp: bv_header_hash bv_header_sel example_blocks_sel get_block_uncles_def get_block_proposal_txs_ids_def get_block_ext_def
        example_service_sel example_stored_columns)
  moreover have "index_linked ?s"
    unfolding index_linked_def hdr idx by (auto simp: bv_header_hash bv_header_sel example_blocks_sel)
  then have "index_ends ?s 1" unfolding index_ends_def idx by (auto simp: word_le_nat_alt word_unat_eq_iff)
  moreover have "list_all2 (main_at ?s) [0..<Suc (unat (1 :: u64))] [example_zero_block, example_old_block]"
    by (simp add: main_at_def idx example_loads upt_rec)
  moreover have "built [example_old_block, example_zero_block] ?s"
    using example_attached(3) example_stored_columns by (simp add: example_service_sel)
  ultimately show ?thesis by (simp only: chain_sound_def example_service_sel(3) rev.simps append.simps simp_thms)
qed

definition example_ext :: "u64 \<Rightarrow> block_ext" where
  "example_ext now = \<lparr>ext_received_at = now, ext_total_difficulty = 3, ext_total_uncles_count = 0, ext_verified = None, ext_txs_fees = []\<rparr>"

definition example_fork :: "block_ext \<Rightarrow> fork_changes" where
  "example_fork ext = fork_default\<lparr>attached_blocks := [example_next_block], detached_blocks := [example_old_block], dirty_exts := [ext]\<rparr>"

lemma example_prepared:
  "prepare_block example_env example_next_consensus example_switch now (cs_store example_service) example_next_block =
     Ok (example_ext now, example_first_epoch, False)"
proof -
  let ?s = "cs_store example_service"
  have g: "get_block_ext ?s (replicate 32 1) = Some (example_record 1)"
    "get_block_header ?s (replicate 32 1) = Some (bv_header example_zero_block)"
    "get_block_epoch ?s (replicate 32 1) = Some example_first_epoch"
    by (simp_all add: get_block_ext_def get_block_header_def get_block_epoch_def get_block_epoch_index_def get_epoch_ext_def
        example_service_sel example_stored_columns)
  have n: "store_next_epoch_ext ext_word ?s example_next_consensus example_first_epoch (bv_header example_zero_block) = Ok None"
    by (simp add: store_next_epoch_ext_def next_epoch_ext_def p_add_def checked_add_def p_sub_def checked_sub_def
        example_first_epoch_def Let_def bv_header_sel example_blocks_sel)
  have d: "cannon_total_difficulty ext_word (example_record 1) example_next_block = Some 3"
    by (simp add: cannon_total_difficulty_def raw_header_difficulty_def example_easy_difficulty example_record_def)
      (simp add: ext_word_def numext.defs numext_word_def checked_add_def)
  show ?thesis
    by (simp add: prepare_block_def example_switch_def example_env_def Let_def g n d bv_header_hash example_blocks_sel example_ext_def)
      (simp add: example_record_def p_add_def checked_add_def)
qed

lemma example_found:
  "find_fork (cs_store example_service) fork_default 1 example_next_block ext = Ok (example_fork ext)"
proof -
  have "get_block_hash (cs_store example_service) 1 = Some (replicate 32 3)"
    by (simp add: get_block_hash_def example_service_sel example_blocks_sel)
  then show ?thesis
    by (simp add: find_fork_def Let_def alignment_fork_def detach_number_def example_loads find_fork_until_latest_common.simps
        p_sub_def checked_sub_def example_fork_def fork_default_def)
qed

lemma block_stored_commutes: "block_stored c e (attach_main b s) = attach_main b (block_stored c e s)"
  by (simp add: block_stored_def insert_block_commutes insert_epoch_ext_def insert_block_epoch_index_def)
    (simp add: attach_main_cell_set attach_block_def Let_def fold_put_info fold_put_uncles case_prod_unfold)

lemma example_next_stored:
  fixes epoch :: epoch_ext
  defines "s \<equiv> block_stored example_next_block epoch example_stored"
  shows "stored s example_zero_block" and "stored s example_old_block" and "st_cell_set s = Map.empty" and "st_tx_info s = Map.empty"
    and "st_index_number s = Map.empty" and "st_index_hash s = Map.empty" and "stored s example_next_block"
proof -
  have "stored (insert_block example_next_block example_stored) example_next_block"
    by (rule stored_insert_block) (simp_all add: example_stored_columns example_blocks_sel example_blocks_ok)
  then show "stored s example_next_block"
    by (simp add: s_def stored_def block_stored_def insert_epoch_ext_def insert_block_epoch_index_def)
qed (use example_stored_columns(2,3) in \<open>simp_all add: s_def stored_def block_stored_def insert_epoch_ext_def insert_block_epoch_index_def
    insert_block_columns example_stored_columns example_blocks_sel\<close>)

lemma example_rolled_back:
  "rollback (example_fork ext) (block_stored example_next_block epoch (cs_store example_service)) =
     Ok (attach_main example_zero_block (block_stored example_next_block epoch example_stored))"
proof -
  let ?s = "block_stored example_next_block epoch example_stored"
  note st = example_next_stored(1-6) [of epoch]
  have "spendable (attach_main example_zero_block ?s) example_old_block"
    using cellbase_spendable(1) [OF example_blocks_txs(2) example_cellbase_spends] by (simp add: byte32_is_zero_def list_all_iff)
  then have "detach_main (attach_main example_old_block (attach_main example_zero_block ?s)) example_old_block = Ok (attach_main example_zero_block ?s)"
    unfolding detach_main_def
    using detach_attach_main built_sound [OF example_attached(1) [OF st]] example_attached(2) [OF st] view_ok_transactions(2) example_blocks_ok(2)
    by (simp add: hashes_ok_def)
  then show ?thesis by (simp add: rollback_def example_fork_def example_service_sel block_stored_commutes)
qed

lemma example_next_resolves:
  "block_cell_provider_new example_next_block = Ok [replicate 32 9 \<mapsto> 0]"
  "\<exists>seen. resolve_transactions ext_word None cp hc {} (bv_transactions example_next_block) = Ok (example_next_rtxs, seen)"
proof -
  have c: "tx_is_cellbase (tx_view example_cellbase_tx a b)" for a b
    by (simp add: tx_is_cellbase_def example_cellbase_tx_def new_cellbase_input_def cell_input_new_def out_point_null_def
        out_point_is_null_def byte32_is_zero_def byte32_zero_def list_all_iff)
  have t: "tx_cell_deps example_cellbase_tx = []" "tx_header_deps example_cellbase_tx = []"
    by (simp_all add: example_cellbase_tx_def)
  show "block_cell_provider_new example_next_block = Ok [replicate 32 9 \<mapsto> 0]"
    by (simp add: block_cell_provider_new_def Let_def example_blocks_txs output_indices_def t example_cellbase_spends check_order_def
        out_point_null_def byte32_zero_def)
  show "\<exists>seen. resolve_transactions ext_word None cp hc {} (bv_transactions example_next_block) = Ok (example_next_rtxs, seen)"
    by (simp add: example_blocks_txs resolve_transaction_def c t resolve_deps_with_system_cell_cache_def example_next_rtxs_def)
qed

lemma example_next_epoch:
  assumes "get_block_header s (replicate 32 1) = Some (bv_header example_zero_block)" and "get_block_epoch s (replicate 32 1) = Some example_first_epoch"
  shows "contextual_rules f ext_word example_next_consensus s example_switch rtxs example_next_block = Some (Ok ())"
proof -
  have "prepare_epoch_ext ext_word example_next_consensus s (bv_header example_zero_block) = Ok example_first_epoch"
    by (simp add: prepare_epoch_ext_def bv_header_hash example_blocks_sel assms store_next_epoch_ext_def next_epoch_ext_def
        p_add_def checked_add_def p_sub_def checked_sub_def Let_def bv_header_sel) (simp add: example_first_epoch_def)
  moreover have "ef_from_full_value (ef_new 0 1 100) = ef_new 0 1 100" by (simp add: ef_from_full_value_def ef_fields_new)
  then have "epoch_verify example_first_epoch example_next_block = Ok ()"
    using example_next_sel(1) unfolding bv_number_def
    by (simp add: epoch_verify_def Let_def bv_header_def header_view_of_def header.defs ee_number_with_fraction_def
        example_first_epoch_def example_epoch_def p_sub_def checked_sub_def)
  ultimately show ?thesis using assms(1) by (simp add: contextual_rules_def Let_def example_switch_def)
qed

lemma example_next_verified:
  assumes "get_block_header s (replicate 32 1) = Some (bv_header example_zero_block)" and "get_block_epoch s (replicate 32 1) = Some example_first_epoch"
  shows "\<exists>cache. verify_attached example_env example_next_consensus example_switch s (lru_new lru_list 9) ext example_next_block =
     Some (Ok (write_ext example_next_block ext True [] (attach_main example_next_block s), cache, None))"
proof -
  let ?pos = "\<lparr>sn_block_number = bv_number example_next_block, sn_epoch = ef_from_full_value (h_epoch (b_header example_next_block)),
     sn_parent_hash = h_parent_hash (b_header example_next_block)\<rparr> :: since_context"
  let ?v = "verify_block_txs ext_word example_vm (map snd) collect_seq lru_list lru_list example_next_consensus s ?pos example_next_rtxs
      (lru_new lru_list 9)"
  have "fst ?v = Ok (0, [\<lparr>ce_cycles = 0, ce_fee = 0\<rparr>])"
    unfolding verify_block_txs_Ok [OF collect_seq_ok]
    using example_cellbase_accepted [OF lru_list_ok] by (simp add: example_next_rtxs_def)
  then have "?v = (Ok (0, [\<lparr>ce_cycles = 0, ce_fee = 0\<rparr>]), snd ?v)" by (simp add: prod_eq_iff)
  then obtain cache where "verify_contextual_block 0 ext_word example_vm (map snd) collect_seq lru_list lru_list example_next_consensus s
      example_switch example_next_rtxs example_next_block (lru_new lru_list 9) = Some (Ok (0, [\<lparr>ce_cycles = 0, ce_fee = 0\<rparr>]), cache)"
    unfolding verify_contextual_block_def example_next_epoch [OF assms] by (metis (mono_tags, lifting) option.case(2) outcome.case(1))
  moreover obtain seen where "resolve_transactions ext_word None (overlay_cell (block_cell ext_word example_next_block [replicate 32 9 \<mapsto> 0])
      (store_cell ext_word s)) (check_valid ext_word example_next_consensus s) {} (bv_transactions example_next_block) = Ok (example_next_rtxs, seen)"
    using example_next_resolves(2) by blast
  ultimately show ?thesis by (simp add: verify_attached_def example_env_def example_next_resolves(1))
qed

lemma example_processed:
  "\<exists>st'. process_block example_env example_next_consensus example_switch now example_service example_next_block = Some (Ok True, st') \<and>
     cs_tip_header st' = bv_header example_next_block \<and> cs_total_difficulty st' = 3"
proof -
  let ?s = "attach_main example_zero_block (block_stored example_next_block example_first_epoch example_stored)"
  have col: "get_block_header ?s (replicate 32 1) = Some (bv_header example_zero_block)" "get_block_epoch ?s (replicate 32 1) = Some example_first_epoch"
    by (auto simp: get_block_header_def get_block_epoch_def get_block_epoch_index_def get_epoch_ext_def block_stored_def insert_epoch_ext_def
        insert_block_epoch_index_def insert_block_columns example_stored_columns example_blocks_sel)
  obtain s2 cache where "reconcile_main_chain example_env example_next_consensus example_switch (example_fork (example_ext now)) ?s (lru_new lru_list 9) =
      Some (Ok (s2, cache, None))"
    using example_next_verified [OF col, of "example_ext now"]
    by (auto simp: reconcile_main_chain_def verified_len_def example_fork_def reconcile_block_def disable_all_def example_switch_def)
  moreover have "pt_window (update_proposal_table (example_fork ext) (cs_proposal_table example_service)) =
      c_tx_proposal_window example_next_consensus" for ext
    by (simp add: update_proposal_table_def example_fork_def example_service_def pt_new_def pt_insert_def pt_remove_def Let_def)
  then obtain a v' t' where "pt_finalize (cs_proposals example_service) 1 (update_proposal_table (example_fork (example_ext now))
      (cs_proposal_table example_service)) = Ok (a, v', t')"
    by (simp add: pt_finalize_def p_add_def checked_add_def example_next_consensus_def example_consensus_def
        btree_range_def Let_def saturating_sub_def)
  moreover have "\<not> block_exists (cs_store example_service) (bv_hash example_next_block)"
    by (simp add: block_exists_def example_service_sel example_stored_columns example_blocks_sel)
  ultimately show ?thesis
    using example_prepared [of now] example_found [of "example_ext now"] example_rolled_back [of "example_ext now" example_first_epoch]
    by (simp add: process_block_def new_best_block_def example_service_sel(3-5) block_stored_def [symmetric] Let_def)
      (simp add: example_ext_def)
qed

lemma example_branch_ready:
  assumes "find_fork (cs_store example_service) fork_default (h_number (cs_tip_header example_service)) example_next_block ext = Ok fork"
    and "fork_meets (cs_store example_service) ms n example_next_block fork a" and "ms = [example_zero_block, example_old_block]"
    and "rollback fork (block_stored example_next_block epoch (cs_store example_service)) = Ok s1"
  shows "branch_ready (rev (take (Suc a) ms)) fork s1"
proof -
  let ?s = "block_stored example_next_block epoch example_stored"
  have f: "fork = example_fork ext" using assms(1) example_found by (simp add: example_service_sel(3))
  have "a = 0" using assms(2) by (simp add: fork_meets_def)
  moreover have s1: "s1 = attach_main example_zero_block ?s" using assms(4) example_rolled_back by (simp add: f)
  moreover have "built [example_zero_block] s1" unfolding s1 by (rule example_attached(1) [OF example_next_stored(1-6)])
  moreover have "st_tx_info s1 (replicate 32 9) = None" "st_cell_set s1 (replicate 32 9) = None"
    unfolding s1 using example_next_stored(1-6) [of epoch]
    by (simp_all add: attach_main_cell_set attach_block_infos attach_at_def example_blocks_txs example_blocks_sel
        example_cellbase_spends spend_at_def)
  then have "fresh_block s1 example_next_block" using example_next_stored(1-6) [of epoch] by (simp add: s1 fresh_block_def example_blocks_sel)
  moreover have "stored s1 example_next_block" using example_next_stored(7) [of epoch] by (simp add: s1 stored_def)
  ultimately show ?thesis
    using example_blocks_ok by (simp add: branch_ready_def Let_def f example_fork_def assms(3) del: built.simps)
qed

lemma example_follows: "follows (cs_store example_service) example_next_block"
  by (simp add: follows_def example_service_sel example_stored_columns example_blocks_sel get_block_header_def bv_header_sel)

lemma example_run:
  "\<exists>st'. (chain_step example_env example_next_consensus)\<^sup>*\<^sup>* example_service st' \<and>
     cs_tip_header st' = bv_header example_next_block \<and> cs_total_difficulty st' = 3"
proof -
  obtain st' where st': "process_block example_env example_next_consensus example_switch 7 example_service example_next_block = Some (Ok True, st')"
      "cs_tip_header st' = bv_header example_next_block" "cs_total_difficulty st' = 3" using example_processed by blast
  have "chain_step example_env example_next_consensus example_service st'" by (rule handled [OF st'(1)]) simp
  then show ?thesis using st'(2,3) by blast
qed

lemma example_heaviest: "heaviest example_service"
  by (auto simp: heaviest_def example_service_sel example_stored_columns bv_header_hash example_blocks_sel example_record_def split: if_splits)

section \<open>Properties\<close>



text \<open>
  C6. Whatever blocks the service is given, valid or not, heavier or not, the tip of its snapshot is
  the stored tip and a stored block of the greatest total difficulty, and the total difficulty of the
  tip never falls.
\<close>

theorem tip_is_heaviest:
  assumes "(chain_step E C)\<^sup>*\<^sup>* st st'" and "heaviest st"
  shows "heaviest st' \<and> cs_total_difficulty st \<le> cs_total_difficulty st' \<and>
     (cs_tip_header st' = cs_tip_header st \<or> cs_total_difficulty st < cs_total_difficulty st')"
  using assms
proof (induction rule: rtranclp_induct)
  case (step y z)
  then obtain sw now block r where "process_block E C sw now y block = Some (r, z)" "r \<noteq> Panic"
    by (auto elim: chain_step.cases)
  from heaviest_process_block [OF _ this] show ?case using step by auto
qed simp

theorem tip_is_heaviest_witness:
  "\<exists>st'. (chain_step example_env example_next_consensus)\<^sup>*\<^sup>* example_service st' \<and> heaviest example_service \<and> heaviest st' \<and>
     cs_tip_header st' = bv_header example_next_block \<and> cs_total_difficulty example_service < cs_total_difficulty st'"
proof -
  obtain st' where st': "(chain_step example_env example_next_consensus)\<^sup>*\<^sup>* example_service st'" "cs_tip_header st' = bv_header example_next_block"
      "cs_total_difficulty st' = 3" using example_run by blast
  then show ?thesis using tip_is_heaviest [OF st'(1) example_heaviest] example_heaviest by (auto simp: example_service_sel)
qed

text \<open>
  C34. The mark that a block is invalid never reaches the database: a refused block leaves the
  stored data as it was, so over any run no record says that a block is invalid, and no block is ever
  refused because its parent is invalid.
\<close>

theorem invalid_never_recorded:
  assumes "(chain_step E C)\<^sup>*\<^sup>* st st'" and "no_invalid (cs_store st)"
  shows "no_invalid (cs_store st') \<and>
     prepare_block E C sw now (cs_store st') block \<noteq> Err (Header (InvalidParentError h))"
proof -
  have "no_invalid (cs_store st')" using assms
  proof (induction rule: rtranclp_induct)
    case (step y z)
    then obtain sw now block r where "process_block E C sw now y block = Some (r, z)" "r \<noteq> Panic"
      by (auto elim: chain_step.cases)
    from no_invalid_process_block [OF _ this] show ?case using step by simp
  qed simp
  then show ?thesis using prepare_block_Err by blast
qed

theorem invalid_never_recorded_witness:
  "\<exists>st'. (chain_step example_env example_next_consensus)\<^sup>*\<^sup>* example_service st' \<and> no_invalid (cs_store example_service) \<and>
     no_invalid (cs_store st') \<and>
     prepare_block example_env example_next_consensus SWITCH_NONE 7 (cs_store st') example_next_block \<noteq> Err (Header (InvalidParentError byte32_zero))"
proof -
  obtain st' where st': "(chain_step example_env example_next_consensus)\<^sup>*\<^sup>* example_service st'" using example_run by blast
  have "no_invalid (cs_store example_service)"
    by (simp add: no_invalid_def example_service_sel example_stored_columns example_record_def)
  from invalid_never_recorded [OF st' this] this st' show ?thesis by blast
qed

text \<open>
  C25. The search for a fork is exact: it ends without a panic at the last block that the branch of
  the new tip shares with the main chain, the branch consists of blocks outside the main chain, each
  the parent of the next, and exactly the blocks of the main chain above the common block are
  detached. They are not in the order of the chain when the new tip is not above the old one: the
  blocks from the number of the new tip on come last and in reverse.
\<close>

theorem find_fork_exact:
  assumes "blocks_linked s" and "index_ends s cur" and "list_all2 (main_at s) [0..<Suc (unat cur)] ms" and "follows s block"
  shows "\<exists>fork a. find_fork s fork_default cur block ext = Ok fork \<and>
     a \<le> unat cur \<and> a < unat (bv_number block) \<and> linked_from (bv_hash (ms ! a)) (attached_blocks fork) \<and>
     (\<exists>bs. attached_blocks fork = bs @ [block] \<and> list_all (off_main s) bs) \<and>
     detached_blocks fork = map ((!) ms) ([Suc a..<min (unat (bv_number block)) (Suc (unat cur))] @
       rev [unat (bv_number block)..<Suc (unat cur)]) \<and>
     mset (detached_blocks fork) = mset (drop (Suc a) ms)"
proof -
  obtain pv where pv: "get_block_header s (h_parent_hash (b_header block)) = Some pv" "unat (bv_number block) = Suc (unat (h_number pv))"
    and n: "bv_number block \<noteq> 0" using assms(4) unfolding follows_def by blast
  obtain fork a where f: "find_fork s fork_default cur block ext = Ok fork" "fork_meets s ms (unat cur) block fork a"
    using find_fork_meets [OF assms(1,2) n pv assms(3)] by blast
  have "length ms = Suc (unat cur)" using list_all2_lengthD [OF assms(3)] by simp
  from fork_meets_detached [OF f(2) this] show ?thesis
    using f unfolding fork_meets_def by (intro exI [of _ fork] exI [of _ a]) (auto simp: list_all_iff)
qed

theorem find_fork_exact_witness:
  "\<exists>fork a. find_fork (cs_store example_service) fork_default 1 example_next_block (example_ext 7) = Ok fork \<and> a < 1 \<and>
     linked_from (bv_hash ([example_zero_block, example_old_block] ! a)) (attached_blocks fork) \<and>
     mset (detached_blocks fork) = {#example_old_block#}"
proof -
  let ?s = "cs_store example_service" and ?ms = "[example_zero_block, example_old_block]"
  have c: "blocks_linked ?s" "index_ends ?s 1" "list_all2 (main_at ?s) [0..<Suc (unat (1 :: u64))] ?ms"
    using example_chain_sound unfolding chain_sound_def example_service_sel(3) by blast+
  obtain fork a where "find_fork ?s fork_default 1 example_next_block (example_ext 7) = Ok fork" "a < unat (bv_number example_next_block)"
      "linked_from (bv_hash (?ms ! a)) (attached_blocks fork)" "mset (detached_blocks fork) = mset (drop (Suc a) ?ms)"
    using find_fork_exact [OF c example_follows] by blast
  moreover from this(2) have "a = 0" by simp
  ultimately show ?thesis by auto
qed

end
