(* ===== verification/Spec2Isabelle.thy ===== *)
theory Spec2Isabelle
  imports Next_Epoch Genesis_Verifier Chain_Reorg
begin

text \<open>
  Verification of the CKB node: the data of the chain, the rules of its blocks and transactions, and
  the service that keeps the main chain.

  \<^bold>\<open>The program.\<close> A block arrives at the chain service (\<open>chain/src/chain.rs\<close>). The service applies the
  rules that need no context (\<open>verification/src/block_verifier.rs\<close>), stores the block
  (\<open>store/src/transaction.rs\<close>) and compares its total difficulty with that of the tip. A heavier block
  becomes the new tip: the service searches for the fork, rolls the main chain back, resolves the
  transactions of the new blocks (\<open>util/types/src/core/cell.rs\<close>), applies the rules in context
  (\<open>verification/src/contextual_block_verifier.rs\<close>) and attaches the blocks and their cells
  (\<open>chain/src/cell.rs\<close>). The rules in context use the epochs (\<open>spec/src/consensus.rs\<close>), the rules of
  uncles and of transactions, the scripts (\<open>script/src/verify.rs\<close>), the NervosDAO accounting
  (\<open>util/dao/src/lib.rs\<close>) and the rewards (\<open>util/reward-calculator/src/lib.rs\<close>). The table of proposals
  (\<open>util/proposal-table/src/lib.rs\<close>) follows the tip.

  \<^bold>\<open>Conventions.\<close> A struct is a record and a view extends the record of its packed type; an enum is a
  datatype; an unsigned integer is a word of its width. The build turns overflow checks on, so plain
  arithmetic is \<open>p_add\<close>, \<open>p_sub\<close> and so on, which panic. A fallible function returns an \<open>outcome\<close>: \<open>Ok\<close>,
  \<open>Err\<close> with an error of the program, or \<open>Panic\<close>; \<open>tryq\<close> is the question mark operator. A function with
  a loop that may not end returns an option, \<open>None\<close> when its fuel runs out; \<open>tryo\<close> composes such
  functions. State is passed explicitly: \<open>store\<close> is the database as typed columns and \<open>chain_service\<close>
  the state of the service.

  \<^bold>\<open>Code outside the repository\<close> is an argument: the record \<open>numext\<close> of 256-bit and 512-bit arithmetic,
  its extension \<open>ext\<close> by digests, the Merkle tree and byte conversion, the record \<open>vm\<close> for the virtual
  machine, the record \<open>lru\<close> for the caches and \<open>par_collect\<close> for the parallel iterator. What the proofs
  need of it are the hypotheses \<open>numext_ok\<close>, \<open>molecule_ok\<close>, \<open>lru_ok\<close> and \<open>par_collect_ok\<close>; the instances
  \<open>ext_word\<close>, \<open>example_vm\<close>, \<open>lru_list\<close> and \<open>collect_seq\<close> satisfy them in the witnesses.

  \<^bold>\<open>Theories.\<close>
  \<^item> \<open>Ckb_Prelude\<close>: outcomes, checked arithmetic, folds and searches that can fail, and the interface
    \<open>checked_adder\<close> of checked sums, interpreted for capacities and cycles. \<open>Capacity_Units\<close>
    (\<open>util/occupied-capacity\<close>), \<open>Rational_U256\<close> (\<open>util/rational\<close>) and \<open>Difficulty\<close>
    (\<open>util/types/src/utilities/difficulty.rs\<close>): exact results under bounds, and that a difficulty in compact
    form is never lowered.
  \<^item> \<open>Chain_Types\<close>, \<open>Molecule_Core\<close>, \<open>Molecule\<close> and \<open>Hashing\<close> (\<open>util/types\<close>): the types of the chain, their
    encoding and their hashes. The interfaces \<open>codec\<close> and \<open>fixed_codec\<close> carry the proofs that every type
    reads back what it wrote, that accepted bytes are exactly the writing of their value, and that parsing
    does not panic.
  \<^item> \<open>Ckb_Errors\<close> (\<open>verification/src/error.rs\<close> and others): the errors as datatypes.
  \<^item> \<open>Epoch\<close> (\<open>util/types/src/core/extras.rs\<close>), \<open>Pow\<close> (\<open>pow\<close>), \<open>Consensus\<close> and \<open>Next_Epoch\<close>
    (\<open>spec/src/consensus.rs\<close>): rewards of an epoch add up, accepted work meets the difficulty, and the next
    epoch is computed without panic and keeps the invariant of epochs.
  \<^item> \<open>Cell\<close> (\<open>util/types/src/core/cell.rs\<close>), \<open>Store\<close> (\<open>store\<close>) and \<open>Cell_Set\<close> (\<open>chain/src/cell.rs\<close>): resolution
    spends no cell twice; over any history of attaching and detaching the cell set is the set of unspent
    outputs of the main chain. The interface \<open>cell_source\<close> is what resolution needs of a provider of cells.
  \<^item> \<open>Header_Verifier\<close>, \<open>Block_Verifier\<close>, \<open>Tx_Verifier\<close>, \<open>Uncles_Verifier\<close>, \<open>Contextual_Verifier\<close> and
    \<open>Genesis_Verifier\<close> (\<open>verification/src\<close>): what an accepted header, block, transaction, uncle or genesis block
    guarantees, the locks and the two-phase commit as equivalences with their meaning on numbers, the
    conservation of value, and the cache of verified transactions. The interface \<open>time_source\<close> is what the
    median time needs of a provider of headers.
  \<^item> \<open>Script\<close> (\<open>script\<close>): every cell is in the group of its script, and the order of the groups does not
    matter.
  \<^item> \<open>Dao\<close> (\<open>util/dao\<close>) and \<open>Reward\<close> (\<open>util/reward-calculator\<close>): the accounting of the NervosDAO field, withdrawals,
    and the proposal rewards as a sum over the commits of a window, which together never exceed the fees.
  \<^item> \<open>Proposal_Table\<close> (\<open>util/proposal-table\<close>): the view of the table agrees with the two-phase commit rule.
  \<^item> \<open>Chain\<close>, \<open>Chain_Service\<close>, \<open>Chain_Fork\<close> and \<open>Chain_Reorg\<close> (\<open>chain/src/chain.rs\<close>): the service. The search for
    the fork is exact, the rollback does not depend on the order of the blocks, a refused block changes
    nothing but the cache, the tip is always a heaviest stored block, and after a reorganisation the cell
    set is that of the new main chain.

  \<^bold>\<open>Loops.\<close> Loops over block numbers end because the number falls: \<open>collect_proposals\<close>, \<open>attach_down_to\<close> and
  \<open>find_fork_until_latest_common\<close> are total. The loop of the proposal reward follows parent hashes and has
  fuel; \<open>proposal_reward_ends\<close> shows that as much fuel as the farthest distance of the proposal window is
  enough on a linked main chain. The median time takes as many steps as the consensus parameter says.

  \<^bold>\<open>Not modelled.\<close> The transaction pool, synchronisation, network, remote procedure calls, indexer and miner:
  they are asynchronous services and policies around the rules, and every block they bring passes
  through the modelled service. The key-value engine, its snapshots and its failures: columns are typed
  functions that do not fail, and a database transaction is the store that is passed on. The threads and
  channels of the services, notifications, metrics and logging. Reading the chain specification: the
  consensus parameters are an argument. The inside of the virtual machine, of the digests and of big
  integer arithmetic: crates outside the repository.
\<close>

end
